(* ===== verification/Prelude.thy ===== *)
theory Prelude
  imports Complex_Main "HOL-Library.Signed_Division" "HOL-Library.Multiset"
begin

text \<open>
  Shared ground of the development: the error type that stands for everything a C run
  can die of, the result type and its sequencing function, checked C arithmetic, and the
  generic list lemmas that the component theories use.
\<close>

section \<open>Collections of facts\<close>

named_theorems res_simps \<open>equations of the result type\<close>
named_theorems wf_intros \<open>introduction rules for well-formedness of states\<close>

section \<open>Errors and results\<close>

text \<open>
  Every way in which the modelled code stops without returning: a null pointer or a freed
  object is dereferenced, an array or a string is read out of bounds, an uninitialised
  variable is used, an integer division by zero traps, signed arithmetic overflows, a
  floating-point value that does not fit is converted to an integer, an \<open>assert\<close> fails,
  or the code calls \<open>exit\<close>.
\<close>

datatype err =
    NullDeref
  | UseAfterFree
  | OutOfBounds
  | Uninit
  | DivByZero
  | SignedOverflow
  | FloatCast
  | AssertFail
  | Exit int

type_synonym 'a res = "err + 'a"

definition bindR :: "'e + 'a \<Rightarrow> ('a \<Rightarrow> 'e + 'b) \<Rightarrow> 'e + 'b" where
  "bindR m f = (case m of Inl e \<Rightarrow> Inl e | Inr x \<Rightarrow> f x)"

lemma bindR_Inr [simp, res_simps]: "bindR (Inr x) f = f x"
  by (simp add: bindR_def)

lemma bindR_Inl [simp, res_simps]: "bindR (Inl e) f = Inl e"
  by (simp add: bindR_def)

lemma bindR_eq_Inr: "bindR m f = Inr y \<longleftrightarrow> (\<exists>x. m = Inr x \<and> f x = Inr y)"
  by (cases m) simp_all

lemma bindR_eq_Inl: "bindR m f = Inl e \<longleftrightarrow> m = Inl e \<or> (\<exists>x. m = Inr x \<and> f x = Inl e)"
  by (cases m) auto

lemma bindR_assoc [res_simps]: "bindR (bindR m f) g = bindR m (\<lambda>x. bindR (f x) g)"
  by (cases m) simp_all

text \<open>Evaluating the first operation before the ones that follow it.\<close>

lemma bindR_weak_cong: "m = m' \<Longrightarrow> bindR m f = bindR m' f"
  by simp

lemma bindR_cong [fundef_cong]:
  "m = m' \<Longrightarrow> (\<And>x. m' = Inr x \<Longrightarrow> f x = f' x) \<Longrightarrow> bindR m f = bindR m' f'"
  by (cases m') simp_all

lemma bindR_InrE:
  assumes "bindR m f = Inr y"
  obtains x where "m = Inr x" and "f x = Inr y"
  using assms by (auto simp: bindR_eq_Inr)

text \<open>\<open>assertR\<close> is C's \<open>assert\<close>; \<open>guardR\<close> stops with the given error unless the test holds.\<close>

definition guardR :: "err \<Rightarrow> bool \<Rightarrow> unit res" where
  "guardR e b = (if b then Inr () else Inl e)"

abbreviation assertR :: "bool \<Rightarrow> unit res" where
  "assertR b \<equiv> guardR AssertFail b"

lemma guardR_simps [simp, res_simps]:
  "guardR e True = Inr ()" "guardR e False = Inl e"
  by (simp_all add: guardR_def)

lemma guardR_eq_Inr [simp]: "guardR e b = Inr u \<longleftrightarrow> b"
  by (simp add: guardR_def)

text \<open>A loop whose body changes the state and may stop: \<open>for x in xs: s = f(x, s)\<close>.\<close>

fun foldR :: "('a \<Rightarrow> 's \<Rightarrow> 's res) \<Rightarrow> 'a list \<Rightarrow> 's \<Rightarrow> 's res" where
  "foldR f [] s = Inr s"
| "foldR f (x # xs) s = bindR (f x s) (foldR f xs)"

lemma foldR_inv:
  assumes "foldR f xs s = Inr s'" "P s"
    and "\<And>x s s'. x \<in> set xs \<Longrightarrow> P s \<Longrightarrow> f x s = Inr s' \<Longrightarrow> P s'"
  shows "P s'"
  using assms
proof (induction xs arbitrary: s)
  case (Cons x xs)
  then obtain t where t: "f x s = Inr t" "foldR f xs t = Inr s'" by (auto elim!: bindR_InrE)
  have "P t" using Cons.prems(3) [OF _ Cons.prems(2) t(1)] by simp
  then show ?case
  proof (rule Cons.IH [OF t(2)])
    show "P s'" if "x \<in> set xs" "P s" "f x s = Inr s'" for x s s'
      using that(1) by (intro Cons.prems(3) [OF _ that(2,3)]) simp
  qed
qed simp

section \<open>C integers\<close>

text \<open>
  Byte offsets and sizes are C's \<open>long long int\<close>. They are modelled as \<open>int\<close>: every sum
  and difference of offsets stays within a few multiples of the file size. Products, and
  sums of two 32-bit values, can leave their range for realistic inputs, so they go through
  \<open>chk_ll\<close> and \<open>chk_int\<close>, which report the overflow. \<open>to_int\<close> is the conversion of a
  \<open>long long\<close> to \<open>int\<close> (gcc reduces modulo \<open>2 ^ 32\<close>).
\<close>

definition ll_min :: int where "ll_min = - (2 ^ 63)"
definition ll_max :: int where "ll_max = 2 ^ 63 - 1"
definition int_min :: int where "int_min = - (2 ^ 31)"
definition int_max :: int where "int_max = 2 ^ 31 - 1"

definition in_ll :: "int \<Rightarrow> bool" where "in_ll x \<longleftrightarrow> ll_min \<le> x \<and> x \<le> ll_max"
definition in_int :: "int \<Rightarrow> bool" where "in_int x \<longleftrightarrow> int_min \<le> x \<and> x \<le> int_max"

definition chk_ll :: "int \<Rightarrow> int res" where
  "chk_ll x = (if in_ll x then Inr x else Inl SignedOverflow)"

definition chk_int :: "int \<Rightarrow> int res" where
  "chk_int x = (if in_int x then Inr x else Inl SignedOverflow)"

definition to_int :: "int \<Rightarrow> int" where
  "to_int x = (x + 2 ^ 31) mod 2 ^ 32 - 2 ^ 31"

text \<open>C's division truncates towards zero and traps on a zero divisor.\<close>

definition cdiv :: "int \<Rightarrow> int \<Rightarrow> int res" where
  "cdiv a b = (if b = 0 then Inl DivByZero else Inr (a sdiv b))"

definition cmod :: "int \<Rightarrow> int \<Rightarrow> int res" where
  "cmod a b = (if b = 0 then Inl DivByZero else Inr (a smod b))"

lemma sdiv_nonneg [simp]: "0 \<le> a \<Longrightarrow> 0 < b \<Longrightarrow> (a::int) sdiv b = a div b"
  by (cases "a = 0") (simp_all add: signed_divide_int_def)

lemma smod_nonneg [simp]: "0 \<le> a \<Longrightarrow> 0 < b \<Longrightarrow> (a::int) smod b = a mod b"
  by (cases "a = 0") (simp_all add: signed_modulo_int_def minus_div_mult_eq_mod)

lemma to_int_id: "in_int x \<Longrightarrow> to_int x = x"
  unfolding to_int_def in_int_def int_min_def int_max_def
  by (simp add: mod_pos_pos_trivial)

lemma to_int_range: "in_int (to_int x)"
proof -
  have "0 \<le> (x + 2 ^ 31) mod 2 ^ 32" "(x + 2 ^ 31) mod 2 ^ 32 < 2 ^ 32" by simp_all
  then show ?thesis by (simp add: to_int_def in_int_def int_min_def int_max_def)
qed

lemma chk_ll_Inr [simp]: "chk_ll x = Inr y \<longleftrightarrow> in_ll x \<and> y = x"
  by (auto simp: chk_ll_def)

lemma chk_int_Inr [simp]: "chk_int x = Inr y \<longleftrightarrow> in_int x \<and> y = x"
  by (auto simp: chk_int_def)

lemma cdiv_Inr [simp]: "cdiv a b = Inr y \<longleftrightarrow> b \<noteq> 0 \<and> y = a sdiv b"
  by (auto simp: cdiv_def)

lemma cmod_Inr [simp]: "cmod a b = Inr y \<longleftrightarrow> b \<noteq> 0 \<and> y = a smod b"
  by (auto simp: cmod_def)

lemma div_share_bounds:
  fixes n a b :: int
  assumes "0 \<le> n" "0 \<le> a" "0 \<le> b" "0 < a + b"
  shows "0 \<le> n * a div (a + b)" and "n * a div (a + b) \<le> n"
proof -
  show "0 \<le> n * a div (a + b)" using assms by (simp add: pos_imp_zdiv_nonneg_iff)
  have "n * a \<le> n * (a + b)" using assms by (simp add: mult_left_mono)
  then have "n * a div (a + b) \<le> n * (a + b) div (a + b)" using assms(4) by (rule zdiv_mono1)
  then show "n * a div (a + b) \<le> n" using assms(4) by simp
qed

section \<open>Lists\<close>

lemma sum_list_map_nonneg:
  "(\<And>x. x \<in> set xs \<Longrightarrow> 0 \<le> f x) \<Longrightarrow> 0 \<le> sum_list (map f xs)" for f :: "'a \<Rightarrow> int"
  by (induction xs) auto

lemma upto_split: "i \<le> m + 1 \<Longrightarrow> m \<le> j \<Longrightarrow> [i..j] = [i..m] @ [m + 1..j]" for i j m :: int
  using upto_split2 [of i m j] by (cases "i = m + 1") simp_all

lemma find_Some_append:
  "find P xs = Some x \<Longrightarrow> find P (xs @ ys) = Some x"
  by (induction xs) auto

lemma find_None_append:
  "find P xs = None \<Longrightarrow> find P (xs @ ys) = find P ys"
  by (induction xs) auto

lemma find_SomeD: "find P xs = Some x \<Longrightarrow> x \<in> set xs \<and> P x"
  by (induction xs) (auto split: if_splits)

section \<open>Round trips\<close>

text \<open>
  What is written is read back: the interface of every pair of a printer and a reader. The printer
  then never writes two values alike.
\<close>

locale codec =
  fixes valid :: "'a \<Rightarrow> bool"
    and enc :: "'a \<Rightarrow> 'b"
    and dec :: "'b \<Rightarrow> 'c"
    and ret :: "'a \<Rightarrow> 'c"
  assumes round_trip: "valid x \<Longrightarrow> dec (enc x) = ret x"
    and ret_inj: "ret x = ret y \<Longrightarrow> x = y"
begin

lemma enc_inj: "valid x \<Longrightarrow> valid y \<Longrightarrow> enc x = enc y \<Longrightarrow> x = y"
  using round_trip [of x] round_trip [of y] by (auto intro: ret_inj)

lemma inj_on_enc: "inj_on enc {x. valid x}"
  by (auto intro: inj_onI enc_inj)

end

end
