(* ===== verification/Dbl.thy ===== *)
theory Dbl
  imports Prelude
begin

text \<open>
  C's \<open>double\<close> as the scheduler uses it: a finite value, an infinity or not-a-number, with
  IEEE 754's rules for the special values (a division by zero is an infinity or not-a-number,
  every comparison with not-a-number is false). Rounding, overflow to infinity and the sign of
  zero are not modelled: a finite value is an exact rational. The conversion to \<open>long long\<close>
  truncates and is an error where C leaves it undefined.
\<close>

section \<open>Values\<close>

datatype dbl = Fin rat | PInf | NInf | NaN

fun dbl_add :: "dbl \<Rightarrow> dbl \<Rightarrow> dbl" where
  "dbl_add (Fin a) (Fin b) = Fin (a + b)"
| "dbl_add NaN y = NaN"
| "dbl_add x NaN = NaN"
| "dbl_add PInf NInf = NaN"
| "dbl_add NInf PInf = NaN"
| "dbl_add PInf y = PInf"
| "dbl_add x PInf = PInf"
| "dbl_add NInf y = NInf"
| "dbl_add x NInf = NInf"

fun dbl_neg :: "dbl \<Rightarrow> dbl" where
  "dbl_neg (Fin a) = Fin (- a)"
| "dbl_neg PInf = NInf"
| "dbl_neg NInf = PInf"
| "dbl_neg NaN = NaN"

text \<open>The infinity with the sign of the given number; not-a-number for zero.\<close>

definition dbl_inf :: "rat \<Rightarrow> dbl" where
  "dbl_inf s = (if s = 0 then NaN else if 0 < s then PInf else NInf)"

fun dbl_mul :: "dbl \<Rightarrow> dbl \<Rightarrow> dbl" where
  "dbl_mul (Fin a) (Fin b) = Fin (a * b)"
| "dbl_mul NaN y = NaN"
| "dbl_mul x NaN = NaN"
| "dbl_mul (Fin a) PInf = dbl_inf a"
| "dbl_mul (Fin a) NInf = dbl_inf (- a)"
| "dbl_mul PInf (Fin b) = dbl_inf b"
| "dbl_mul NInf (Fin b) = dbl_inf (- b)"
| "dbl_mul PInf PInf = PInf"
| "dbl_mul NInf NInf = PInf"
| "dbl_mul PInf NInf = NInf"
| "dbl_mul NInf PInf = NInf"

fun dbl_div :: "dbl \<Rightarrow> dbl \<Rightarrow> dbl" where
  "dbl_div (Fin a) (Fin b) = (if b = 0 then dbl_inf a else Fin (a / b))"
| "dbl_div NaN y = NaN"
| "dbl_div x NaN = NaN"
| "dbl_div (Fin a) y = Fin 0"
| "dbl_div PInf (Fin b) = (if b < 0 then NInf else PInf)"
| "dbl_div NInf (Fin b) = (if b < 0 then PInf else NInf)"
| "dbl_div x y = NaN"

fun dbl_lt :: "dbl \<Rightarrow> dbl \<Rightarrow> bool" where
  "dbl_lt (Fin a) (Fin b) = (a < b)"
| "dbl_lt NaN y = False"
| "dbl_lt x NaN = False"
| "dbl_lt (Fin a) PInf = True"
| "dbl_lt NInf (Fin b) = True"
| "dbl_lt NInf PInf = True"
| "dbl_lt x y = False"

fun dbl_le :: "dbl \<Rightarrow> dbl \<Rightarrow> bool" where
  "dbl_le (Fin a) (Fin b) = (a \<le> b)"
| "dbl_le NaN y = False"
| "dbl_le x NaN = False"
| "dbl_le x PInf = True"
| "dbl_le NInf y = True"
| "dbl_le x y = False"

text \<open>C's operators on doubles, as instances of the library's syntactic classes.\<close>

instantiation dbl :: "{plus, minus, times, inverse, ord, zero}"
begin
definition plus_dbl_def [simp]: "x + y = dbl_add x y"
definition minus_dbl_def [simp]: "x - y = dbl_add x (dbl_neg y)"
definition times_dbl_def [simp]: "x * y = dbl_mul x y"
definition divide_dbl_def [simp]: "x div y = dbl_div x y"
definition inverse_dbl_def [simp]: "inverse x = dbl_div (Fin 1) x"
definition less_dbl_def [simp]: "x < y = dbl_lt x y"
definition less_eq_dbl_def [simp]: "x \<le> y = dbl_le x y"
definition zero_dbl_def [simp]: "(0 :: dbl) = Fin 0"
instance ..
end

text \<open>C's \<open>==\<close> on doubles: not-a-number is not equal to itself.\<close>

definition dbl_eq :: "dbl \<Rightarrow> dbl \<Rightarrow> bool" where
  "dbl_eq x y \<longleftrightarrow> x = y \<and> x \<noteq> NaN"

section \<open>Conversions\<close>

definition of_ll :: "int \<Rightarrow> dbl" where
  "of_ll n = Fin (of_int n)"

definition trunc_rat :: "rat \<Rightarrow> int" where
  "trunc_rat r = (if 0 \<le> r then \<lfloor>r\<rfloor> else \<lceil>r\<rceil>)"

text \<open>The casts \<open>(long long int) x\<close> and \<open>(int) x\<close>: undefined when the value does not fit.\<close>

definition cast_ll :: "dbl \<Rightarrow> int res" where
  "cast_ll x = (case x of
      Fin r \<Rightarrow> (if in_ll (trunc_rat r) then Inr (trunc_rat r) else Inl FloatCast)
    | _ \<Rightarrow> Inl FloatCast)"

definition cast_int :: "dbl \<Rightarrow> int res" where
  "cast_int x = (case x of
      Fin r \<Rightarrow> (if in_int (trunc_rat r) then Inr (trunc_rat r) else Inl FloatCast)
    | _ \<Rightarrow> Inl FloatCast)"

section \<open>Lemmas\<close>

lemma dbl_less_irrefl: "\<not> x < (x :: dbl)"
  by (cases x) simp_all

lemma dbl_less_trans: "x < y \<Longrightarrow> y < z \<Longrightarrow> x < (z :: dbl)"
  by (cases x; cases y; cases z) simp_all

lemma dbl_not_less: "x \<noteq> NaN \<Longrightarrow> y \<noteq> NaN \<Longrightarrow> \<not> x < y \<longleftrightarrow> y \<le> (x :: dbl)"
  by (cases x; cases y) auto

lemma dbl_le_trans: "x \<le> y \<Longrightarrow> y \<le> z \<Longrightarrow> x \<le> (z :: dbl)"
  by (cases x; cases y; cases z) simp_all

lemma dbl_le_antisym: "x \<le> y \<Longrightarrow> y \<le> x \<Longrightarrow> x = (y :: dbl)"
  by (cases x; cases y) simp_all

lemma trunc_rat_of_int [simp]: "trunc_rat (of_int n) = n"
  by (simp add: trunc_rat_def)

lemma cast_ll_of_ll: "in_ll n \<Longrightarrow> cast_ll (of_ll n) = Inr n"
  by (simp add: cast_ll_def of_ll_def)

lemma of_ll_ratio:
  "b \<noteq> 0 \<Longrightarrow> of_ll a / of_ll b = Fin (of_int a / of_int b)"
  by (simp add: of_ll_def)

lemma cast_ll_InrD: "cast_ll x = Inr n \<Longrightarrow> in_ll n"
  by (auto simp: cast_ll_def split: dbl.splits if_splits)

lemma trunc_rat_nonneg: "0 \<le> r \<Longrightarrow> 0 \<le> trunc_rat r"
  by (simp add: trunc_rat_def)

end
