(* ===== verification/Types.thy ===== *)
theory Types
  imports Dbl
begin

text \<open>
  The data of the program: the C structs of \<^verbatim>\<open>conf.h\<close>, \<^verbatim>\<open>http.h\<close>, \<^verbatim>\<open>conn.h\<close>, \<^verbatim>\<open>offset.h\<close>
  and \<^verbatim>\<open>gb.h\<close> as records, the state of the whole process, and the environment it runs in.

  The conventions are these. A connection index is a value of \<open>link\<close> (\<open>INDEX_LTE\<close> is 0 and
  \<open>INDEX_WIFI\<close> is 1; \<open>!index\<close> is \<open>other\<close>), an array of two is a function of it. A
  NULL-terminated list that has one owner (the chunks of a segment or subsegment) is a list.
  The segment list is the list of its segments from \<open>head\<close> to \<open>tail\<close>; a pointer to a segment
  is its \<open>id\<close>, which the code draws from a counter and never reuses, and following a pointer
  to a segment that is no longer in the list is \<open>UseAfterFree\<close>. Flags that the code only
  sets to 0 or 1 are \<open>bool\<close>; options read from the command line stay numbers. A C string is
  the list of its characters before the terminating NUL.
\<close>

section \<open>Links\<close>

datatype link = LTE | WIFI

fun other :: "link \<Rightarrow> link" where
  "other LTE = WIFI"
| "other WIFI = LTE"

fun idx :: "link \<Rightarrow> int" where
  "idx LTE = 0"
| "idx WIFI = 1"

lemma other_other [simp]: "other (other l) = l"
  by (cases l) simp_all

lemma other_neq [simp]: "other l \<noteq> l" "l \<noteq> other l"
  by (cases l; simp)+

lemma link_cases2: "k = l \<or> k = other l"
  by (cases k; cases l) simp_all

lemma all_link: "(\<forall>l. P l) \<longleftrightarrow> P LTE \<and> P WIFI"
  by (metis link.exhaust)

lemma all_link_other: "(\<forall>l. P l) \<longleftrightarrow> P k \<and> P (other k)"
  by (metis link_cases2)

section \<open>Chunks, subsegments, segments (\<^verbatim>\<open>offset.h\<close>)\<close>

record chunk =
  start_byte :: int
  last_byte :: int
  csize :: int

record subsegment =
  ss_chunks :: "chunk list"
  ss_size :: int

record segment =
  seg_id :: int
  recovery_segment :: bool
  seg_chunks :: "chunk list"
  seg_size :: int
  subseg :: "link \<Rightarrow> subsegment option"

record offset_info =
  segs :: "segment list"
  num_segments :: int
  segment_count :: int
  completed_segment_count :: int
  connection :: "link \<Rightarrow> int option"
  init_seg_size :: int
  single_link_mode_flag :: bool
  conn_idle :: "link \<Rightarrow> bool"
  last_seg_offset :: int
  fast_conn :: link
  remaining_chunks :: "chunk list"

section \<open>Configuration (\<^verbatim>\<open>conf.h\<close>)\<close>

record conf_t =
  default_filename :: string
  strip_cgi_parameters :: int
  connection_timeout :: int
  reconnect_delay :: int
  num_connections :: int
  buffer_size :: int
  verbose :: int
  alternate_output :: int
  interfaces :: "string list"
  search_timeout :: int
  search_threads :: int
  search_amount :: int
  search_top :: int
  add_header_count :: int
  add_header :: "string list"
  user_agent :: string
  num_of_segments :: int
  initial_chunk_rate :: "link \<Rightarrow> int"
  qos_kbps :: int
  fixed_segment_mode :: int
  fixed_subsegment_mode :: int
  minimum_energy_mode :: int
  ewma_factor :: dbl
  BW_factor_for_mode :: dbl
  BW_factor_for_stage :: dbl
  log_file :: string
  fixed_segment_size_KB :: int
  recovery_mode :: int
  recovery_decision_factor :: dbl

section \<open>Connections (\<^verbatim>\<open>http.h\<close>, \<^verbatim>\<open>conn.h\<close>)\<close>

record http_t =
  h_host :: string
  h_auth :: string
  h_request :: string
  h_headers :: string
  h_firstbyte :: int
  h_lastbyte :: int
  h_status :: int
  h_fd :: int

record conn_t =
  proto :: int
  port :: int
  c_host :: string
  c_dir :: string
  c_file :: string
  c_user :: string
  c_pass :: string
  c_http :: http_t
  c_size :: int
  currentbyte :: int
  lastbyte :: int
  c_fd :: int
  enabled :: bool
  supported :: bool
  last_transfer :: int
  local_if :: string
  c_state :: bool
  c_bytes_done :: int
  c_start_time :: dbl
  c_bytes_per_second :: int
  ewma_bytes_per_second :: int
  pipeline_requests_sent :: bool
  last_segment_flag :: bool

section \<open>A download (\<^verbatim>\<open>gb.h\<close>)\<close>

text \<open>
  \<open>conn\<close> is the array that \<open>gb_new\<close> allocates with \<open>num_connections\<close> elements; it is read
  through \<open>conn_at\<close> below, which reports an access past its end.
\<close>

record gb_t =
  conn :: "link \<Rightarrow> conn_t"
  conf :: conf_t
  filename :: string
  g_url :: string
  g_start_time :: dbl
  finish_time :: int
  bytes_done :: int
  g_start_byte :: int
  g_size :: int
  g_bytes_per_second :: int
  ready :: int
  messages :: "string list"
  run :: bool
  finish :: bool
  last_downloaded_byte :: int
  qos_bytes_per_second :: int
  qos_bytes :: int
  qos_start_time :: dbl
  qos_start_flag :: bool
  offset_info :: offset_info
  inorder_offset :: int
  num_recoveries :: int

section \<open>The process and its environment\<close>

text \<open>
  The process adds to \<open>gb_t\<close> the output file (the byte at each offset, once written), the
  bytes each socket has yet to deliver before its peer closes it, the HTTP requests written so
  far (each as the \<open>http_t\<close> whose \<open>request\<close> text was sent), which connections have a
  \<open>setup_thread\<close> that has been created and not yet run, and the \<open>static\<close> variables of
  the C functions, which outlive a download: \<open>current_link_mode\<close> and \<open>num_est_qmiss\<close> of
  \<open>choose_link_mode\<close>, \<open>lte_state\<close> and \<open>tail_state_start_time\<close> of \<open>update_lte_state\<close>, the
  frame counters of \<open>get_player_state\<close> and \<open>video_duration\<close> of
  \<open>get_remaining_playback_time\<close>. \<open>tick\<close> counts the questions put to the environment.
\<close>

record proc = gb_t +
  outfile :: "int \<Rightarrow> char option"
  rx :: "link \<Rightarrow> string"
  wire :: "(link \<times> http_t) list"
  thread :: "link \<Rightarrow> bool"
  st_link_mode :: int
  st_num_est_qmiss :: int
  st_lte_state :: int
  st_tail_start :: dbl
  st_num_vframe :: int
  st_last_num_vframe :: int
  st_last_recorded :: dbl
  st_video_duration :: dbl
  tick :: nat

text \<open>
  The environment answers the \<open>n\<close>-th question of the run: the monotonic clock, the player
  position in the shared file, the frame count that \<open>dumpsys media.player\<close> prints
  (\<open>None\<close>: the pipe failed; \<open>Some None\<close>: no count in its output), the file descriptor and
  the incoming byte stream of a new TCP connection (-1: failed), how many bytes a \<open>read\<close>
  returns at most (negative: error), which sockets \<open>select\<close> reports (\<open>None\<close>: error), how many
  bytes a write to the output file takes at most, and whether a thread can be created. A theorem about
  every environment is a theorem about every timing, every network and every player.
\<close>

record env =
  env_time :: "nat \<Rightarrow> dbl"
  env_player_pos :: "nat \<Rightarrow> dbl"
  env_vframes :: "nat \<Rightarrow> int option option"
  env_connect :: "nat \<Rightarrow> int \<times> string"
  env_read :: "nat \<Rightarrow> int"
  env_select :: "nat \<Rightarrow> (link \<Rightarrow> bool) option"
  env_write :: "nat \<Rightarrow> nat"
  env_thread :: "nat \<Rightarrow> bool"

text \<open>\<open>gettime\<close> of \<^verbatim>\<open>util.c\<close> and \<open>get_cur_player_pos\<close> of \<^verbatim>\<open>player_time.c\<close>: one question each.\<close>

definition gettime :: "env \<Rightarrow> proc \<Rightarrow> dbl \<times> proc" where
  "gettime E p = (env_time E (tick p), p\<lparr>tick := Suc (tick p)\<rparr>)"

definition get_cur_player_pos :: "env \<Rightarrow> proc \<Rightarrow> dbl \<times> proc" where
  "get_cur_player_pos E p = (env_player_pos E (tick p), p\<lparr>tick := Suc (tick p)\<rparr>)"

section \<open>Accessors\<close>

text \<open>Reading an element of the allocated array \<open>gb->conn\<close>.\<close>

definition conn_ok :: "proc \<Rightarrow> link \<Rightarrow> bool" where
  "conn_ok p l \<longleftrightarrow> idx l < num_connections (conf p)"

definition conn_at :: "proc \<Rightarrow> link \<Rightarrow> conn_t res" where
  "conn_at p l = (if conn_ok p l then Inr (conn p l) else Inl OutOfBounds)"

definition upd_conn :: "link \<Rightarrow> (conn_t \<Rightarrow> conn_t) \<Rightarrow> proc \<Rightarrow> proc" where
  "upd_conn l f p = p\<lparr>conn := (conn p)(l := f (conn p l))\<rparr>"

text \<open>The indices a loop \<open>for (i = 0; i < num_connections; ++i)\<close> visits (at most two).\<close>

definition conn_indices :: "proc \<Rightarrow> link list" where
  "conn_indices p = filter (conn_ok p) [LTE, WIFI]"

definition upd_off :: "(offset_info \<Rightarrow> offset_info) \<Rightarrow> proc \<Rightarrow> proc" where
  "upd_off f p = p\<lparr>offset_info := f (offset_info p)\<rparr>"

lemma conn_at_Inr [simp]: "conn_at p l = Inr c \<longleftrightarrow> conn_ok p l \<and> c = conn p l"
  by (auto simp: conn_at_def)

lemma conn_ok_LTE: "conn_ok p WIFI \<Longrightarrow> conn_ok p l"
  by (cases l) (simp_all add: conn_ok_def)

lemma conn_indices_dual: "conn_ok p WIFI \<Longrightarrow> conn_indices p = [LTE, WIFI]"
  by (simp add: conn_indices_def conn_ok_LTE)

lemma upd_conn_simps [simp]:
  "conn (upd_conn l f p) = (conn p)(l := f (conn p l))"
  "offset_info (upd_conn l f p) = offset_info p"
  "conf (upd_conn l f p) = conf p"
  "tick (upd_conn l f p) = tick p"
  "g_size (upd_conn l f p) = g_size p"
  "bytes_done (upd_conn l f p) = bytes_done p"
  "inorder_offset (upd_conn l f p) = inorder_offset p"
  "last_downloaded_byte (upd_conn l f p) = last_downloaded_byte p"
  "outfile (upd_conn l f p) = outfile p"
  "rx (upd_conn l f p) = rx p"
  "wire (upd_conn l f p) = wire p"
  "ready (upd_conn l f p) = ready p"
  "conn_ok (upd_conn l f p) = conn_ok p"
  by (simp_all add: upd_conn_def conn_ok_def fun_eq_iff)

lemma upd_off_simps [simp]:
  "conn (upd_off f p) = conn p"
  "offset_info (upd_off f p) = f (offset_info p)"
  "conf (upd_off f p) = conf p"
  "tick (upd_off f p) = tick p"
  "g_size (upd_off f p) = g_size p"
  "bytes_done (upd_off f p) = bytes_done p"
  "inorder_offset (upd_off f p) = inorder_offset p"
  "last_downloaded_byte (upd_off f p) = last_downloaded_byte p"
  "outfile (upd_off f p) = outfile p"
  "rx (upd_off f p) = rx p"
  "wire (upd_off f p) = wire p"
  "ready (upd_off f p) = ready p"
  "conn_ok (upd_off f p) = conn_ok p"
  by (simp_all add: upd_off_def conn_ok_def fun_eq_iff)

lemma conn_ok_cong [simp]:
  "conn_ok (p\<lparr>tick := n\<rparr>) = conn_ok p"
  "conn_ok (p\<lparr>conn := c\<rparr>) = conn_ok p"
  "conn_ok (p\<lparr>offset_info := i\<rparr>) = conn_ok p"
  by (simp_all add: conn_ok_def fun_eq_iff)

section \<open>Order and equality of the model's types\<close>

text \<open>Links are ordered by their index.\<close>

instantiation link :: linorder
begin
definition less_eq_link_def: "k \<le> l \<longleftrightarrow> idx k \<le> idx l"
definition less_link_def: "k < l \<longleftrightarrow> idx k < idx l"
instance
proof
  fix x y z :: link
  show "x < y \<longleftrightarrow> x \<le> y \<and> \<not> y \<le> x" by (auto simp: less_eq_link_def less_link_def)
  show "x \<le> x" by (simp add: less_eq_link_def)
  show "x \<le> y \<Longrightarrow> y \<le> z \<Longrightarrow> x \<le> z" by (simp add: less_eq_link_def)
  show "x \<le> y \<Longrightarrow> y \<le> x \<Longrightarrow> x = y" by (cases x; cases y) (simp_all add: less_eq_link_def)
  show "x \<le> y \<or> y \<le> x" by (auto simp: less_eq_link_def)
qed
end

end
