(* ===== verification/Chunks.thy ===== *)
theory Chunks
  imports Types
begin

text \<open>
  Chunk lists (\<^verbatim>\<open>offset.c\<close>): a chunk is a range of bytes of the file, and a segment or a
  subsegment owns a list of them. This theory has the list operations, the selection sort
  \<open>sorting_chunks\<close>, and the bytes that a chunk list denotes.
\<close>

section \<open>Operations\<close>

definition mk_chunk :: "int \<Rightarrow> int \<Rightarrow> chunk" where
  "mk_chunk start n = \<lparr>start_byte = start, last_byte = start + n - 1, csize = n\<rparr>"

definition add_new_chunk :: "chunk list \<Rightarrow> int \<Rightarrow> int \<Rightarrow> chunk list" where
  "add_new_chunk cs start n = cs @ [mk_chunk start n]"

fun delete_head_chunk :: "chunk list \<Rightarrow> chunk list res" where
  "delete_head_chunk [] = Inl NullDeref"
| "delete_head_chunk (c # cs) = Inr cs"

fun get_last_chunk :: "chunk list \<Rightarrow> chunk res" where
  "get_last_chunk [] = Inl NullDeref"
| "get_last_chunk [c] = Inr c"
| "get_last_chunk (c # cs) = get_last_chunk cs"

text \<open>
  The inner loop of \<open>sorting_chunks\<close>: \<open>target\<close> is the best chunk so far, \<open>front\<close> and
  \<open>behind\<close> are the chunks already scanned on either side of it. The outer loop unlinks
  \<open>target\<close> and appends it to the sorted list.
\<close>

fun scan_target :: "chunk list \<Rightarrow> chunk \<Rightarrow> chunk list \<Rightarrow> chunk list \<Rightarrow> chunk list \<times> chunk \<times> chunk list" where
  "scan_target front target behind [] = (front, target, behind)"
| "scan_target front target behind (next # rest) =
     (if start_byte target > start_byte next
      then scan_target (front @ target # behind) next [] rest
      else scan_target front target (behind @ [next]) rest)"

lemma scan_target_append:
  "scan_target b t a xs = (b', t', a') \<Longrightarrow> b' @ t' # a' = b @ t # a @ xs"
  by (induction b t a xs rule: scan_target.induct) (auto split: if_splits)

lemma scan_target_length:
  "scan_target b t a xs = (b', t', a') \<Longrightarrow> length b' + length a' = length b + length a + length xs"
  by (drule scan_target_append [THEN arg_cong [where f = length]]) simp

function sorting_chunks :: "chunk list \<Rightarrow> chunk list" where
  "sorting_chunks [] = []"
| "sorting_chunks (c # cs) =
     (case scan_target [] c [] cs of (front, target, behind) \<Rightarrow>
        target # sorting_chunks (front @ behind))"
  by pat_completeness auto
termination
  by (relation "measure length") (auto dest!: scan_target_length [OF sym])

section \<open>The bytes a chunk list denotes\<close>

definition chunk_ok :: "chunk \<Rightarrow> bool" where
  "chunk_ok c \<longleftrightarrow> last_byte c = start_byte c + csize c - 1 \<and> 0 < csize c"

definition chunk_bytes :: "chunk \<Rightarrow> int list" where
  "chunk_bytes c = [start_byte c..last_byte c]"

definition bytes_of :: "chunk list \<Rightarrow> int list" where
  "bytes_of cs = concat (map chunk_bytes cs)"

definition total_size :: "chunk list \<Rightarrow> int" where
  "total_size cs = sum_list (map csize cs)"

lemma bytes_of_simps [simp]:
  "bytes_of [] = []"
  "bytes_of (c # cs) = chunk_bytes c @ bytes_of cs"
  "bytes_of (cs @ ds) = bytes_of cs @ bytes_of ds"
  by (simp_all add: bytes_of_def)

lemma total_size_simps [simp]:
  "total_size [] = 0"
  "total_size (c # cs) = csize c + total_size cs"
  "total_size (cs @ ds) = total_size cs + total_size ds"
  by (simp_all add: total_size_def)

lemma mk_chunk_simps [simp]:
  "start_byte (mk_chunk s n) = s" "last_byte (mk_chunk s n) = s + n - 1" "csize (mk_chunk s n) = n"
  by (simp_all add: mk_chunk_def)

lemma chunk_ok_mk [simp]: "chunk_ok (mk_chunk s n) \<longleftrightarrow> 0 < n"
  by (simp add: chunk_ok_def)

lemma chunk_ok_eq: "chunk_ok c \<Longrightarrow> mk_chunk (start_byte c) (csize c) = c"
  by (simp add: chunk_ok_def mk_chunk_def)

lemma length_chunk_bytes: "chunk_ok c \<Longrightarrow> int (length (chunk_bytes c)) = csize c"
  by (simp add: chunk_ok_def chunk_bytes_def)

lemma length_bytes_of: "\<forall>c \<in> set cs. chunk_ok c \<Longrightarrow> int (length (bytes_of cs)) = total_size cs"
  by (induction cs) (simp_all add: length_chunk_bytes)

lemma total_size_nonneg: "\<forall>c \<in> set cs. chunk_ok c \<Longrightarrow> 0 \<le> total_size cs"
  by (induction cs) (auto simp: chunk_ok_def)

lemma total_size_pos: "\<forall>c \<in> set cs. chunk_ok c \<Longrightarrow> cs \<noteq> [] \<Longrightarrow> 0 < total_size cs"
  by (induction cs) (fastforce simp: chunk_ok_def dest: total_size_nonneg)+

lemma set_bytes_of: "set (bytes_of cs) = (\<Union>c\<in>set cs. {start_byte c..last_byte c})"
  by (simp add: bytes_of_def chunk_bytes_def)

lemma mset_bytes_of: "mset cs = mset ds \<Longrightarrow> mset (bytes_of cs) = mset (bytes_of ds)"
proof (induction cs arbitrary: ds)
  case (Cons c cs)
  then have "c \<in> set ds" by (metis list.set_intros(1) set_mset_mset)
  then obtain xs ys where ds: "ds = xs @ c # ys" by (auto dest: split_list)
  with Cons.prems have "mset cs = mset (xs @ ys)" by simp
  from Cons.IH [OF this] ds show ?case by simp
qed simp

text \<open>Cutting a chunk in two cuts its bytes in two.\<close>

lemma chunk_bytes_cut:
  assumes "chunk_ok c" "0 \<le> n" "n \<le> csize c"
  shows "chunk_bytes c = chunk_bytes (mk_chunk (start_byte c) n)
           @ chunk_bytes (mk_chunk (start_byte c + n) (csize c - n))"
proof -
  have l: "last_byte c = start_byte c + csize c - 1" using assms(1) by (simp add: chunk_ok_def)
  have "[start_byte c..start_byte c + csize c - 1] =
      [start_byte c..start_byte c + n - 1] @ [start_byte c + n - 1 + 1..start_byte c + csize c - 1]"
    using assms(2,3) by (intro upto_split) simp_all
  moreover have "start_byte c + n - 1 + 1 = start_byte c + n"
    and "start_byte c + n + (csize c - n) - 1 = start_byte c + csize c - 1" by simp_all
  ultimately show ?thesis by (simp only: chunk_bytes_def mk_chunk_simps l)
qed

section \<open>The list operations\<close>

lemma add_new_chunk_not_Nil [simp]: "add_new_chunk cs s n \<noteq> []"
  by (simp add: add_new_chunk_def)

lemma bytes_add_new_chunk:
  "bytes_of (add_new_chunk cs s n) = bytes_of cs @ [s..s + n - 1]"
  by (simp add: add_new_chunk_def chunk_bytes_def)

lemma total_size_add_new_chunk [simp]: "total_size (add_new_chunk cs s n) = total_size cs + n"
  by (simp add: add_new_chunk_def)

lemma set_add_new_chunk [simp]: "set (add_new_chunk cs s n) = insert (mk_chunk s n) (set cs)"
  by (simp add: add_new_chunk_def)

lemma get_last_chunk_last: "cs \<noteq> [] \<Longrightarrow> get_last_chunk cs = Inr (last cs)"
  by (induction cs rule: get_last_chunk.induct) simp_all

lemma get_last_chunk_Inr [simp]: "get_last_chunk cs = Inr c \<longleftrightarrow> cs \<noteq> [] \<and> c = last cs"
  by (cases "cs = []") (auto simp: get_last_chunk_last)

lemma delete_head_chunk_Inr [simp]:
  "delete_head_chunk cs = Inr ds \<longleftrightarrow> (\<exists>c. cs = c # ds)"
  by (cases cs) auto

section \<open>Sorting\<close>

lemma scan_target_min:
  assumes "scan_target b t a xs = (b', t', a')"
    and "\<forall>c \<in> set b. start_byte t < start_byte c" and "\<forall>c \<in> set a. start_byte t \<le> start_byte c"
  shows "(\<forall>c \<in> set b'. start_byte t' < start_byte c) \<and> (\<forall>c \<in> set a'. start_byte t' \<le> start_byte c)"
  using assms
proof (induction b t a xs rule: scan_target.induct)
  case (2 b t a n rest)
  show ?case
  proof (cases "start_byte t > start_byte n")
    case True
    with "2.prems" show ?thesis by (intro "2.IH"(1)) force+
  next
    case False
    with "2.prems" show ?thesis by (intro "2.IH"(2)) auto
  qed
qed simp

lemma sort_key_min_first:
  assumes "\<forall>x \<in> set b. f t < f x" and "\<forall>x \<in> set a. f t \<le> f x"
  shows "sort_key f (b @ t # a) = t # sort_key f (b @ a)"
proof (rule properties_for_sort_key)
  show "mset (t # sort_key f (b @ a)) = mset (b @ t # a)" by simp
  show "sorted (map f (t # sort_key f (b @ a)))"
    using assms by (fastforce simp: less_imp_le)
  have st: "filter (\<lambda>x. f k = f x) (sort_key f xs) = filter (\<lambda>x. f k = f x) xs" for k xs
    using sort_key_stable [of f "f k" xs] by (simp add: eq_commute)
  fix k assume "k \<in> set (t # sort_key f (b @ a))"
  show "filter (\<lambda>x. f k = f x) (t # sort_key f (b @ a)) = filter (\<lambda>x. f k = f x) (b @ t # a)"
  proof (cases "f k = f t")
    case True
    then have "filter (\<lambda>x. f k = f x) b = []" using assms(1) by (auto simp: filter_empty_conv)
    with True show ?thesis by (simp add: st)
  qed (simp add: st)
qed

lemma sorting_chunks_eq_sort_key: "sorting_chunks cs = sort_key start_byte cs"
proof (induction cs rule: sorting_chunks.induct)
  case (2 c cs)
  obtain b t a where s: "scan_target [] c [] cs = (b, t, a)" by (metis prod_cases3)
  have "b @ t # a = c # cs" using scan_target_append [OF s] by simp
  moreover have "sort_key start_byte (b @ t # a) = t # sort_key start_byte (b @ a)"
    using scan_target_min [OF s] by (intro sort_key_min_first) auto
  ultimately show ?case using "2.IH" s by simp
qed simp

lemma mset_sorting_chunks [simp]: "mset (sorting_chunks cs) = mset cs"
  by (simp add: sorting_chunks_eq_sort_key)

lemma set_sorting_chunks [simp]: "set (sorting_chunks cs) = set cs"
  by (simp add: sorting_chunks_eq_sort_key)

lemma sorting_chunks_eq_Nil [simp]: "sorting_chunks cs = [] \<longleftrightarrow> cs = []"
  by (metis mset_sorting_chunks mset_zero_iff)

lemma total_size_sorting_chunks [simp]: "total_size (sorting_chunks cs) = total_size cs"
  unfolding total_size_def by (metis mset_map mset_sorting_chunks sum_mset_sum_list)

lemma mset_bytes_sorting_chunks: "mset (bytes_of (sorting_chunks cs)) = mset (bytes_of cs)"
  by (rule mset_bytes_of) simp

lemma set_bytes_sorting_chunks [simp]: "set (bytes_of (sorting_chunks cs)) = set (bytes_of cs)"
  by (metis mset_bytes_sorting_chunks set_mset_mset)

lemma sorted_sorting_chunks: "sorted (map start_byte (sorting_chunks cs))"
  by (simp add: sorting_chunks_eq_sort_key)

end
