(* ===== verification/Segments.thy ===== *)
theory Segments
  imports Chunks
begin

text \<open>
  The segment list (\<^verbatim>\<open>offset.c\<close>): segments are appended at the tail when the scheduler cuts the
  next piece of the file, and freed from the head once both of their subsegments are done.
  This theory has the operations, the invariant that ties the list to its counters and to the
  pointers into it, and what each operation does to both.
\<close>

section \<open>Pointers into the list\<close>

definition head_ptr :: "offset_info \<Rightarrow> int option" where
  "head_ptr i = (case segs i of [] \<Rightarrow> None | s # _ \<Rightarrow> Some (seg_id s))"

definition tail_ptr :: "offset_info \<Rightarrow> int option" where
  "tail_ptr i = (if segs i = [] then None else Some (seg_id (last (segs i))))"

definition seg_at :: "offset_info \<Rightarrow> int \<Rightarrow> segment res" where
  "seg_at i q = (case find (\<lambda>s. seg_id s = q) (segs i) of
      None \<Rightarrow> Inl UseAfterFree
    | Some s \<Rightarrow> Inr s)"

text \<open>Following a pointer that may be NULL.\<close>

definition seg_deref :: "offset_info \<Rightarrow> int option \<Rightarrow> segment res" where
  "seg_deref i q = (case q of None \<Rightarrow> Inl NullDeref | Some a \<Rightarrow> seg_at i a)"

definition upd_seg :: "int \<Rightarrow> (segment \<Rightarrow> segment) \<Rightarrow> offset_info \<Rightarrow> offset_info" where
  "upd_seg q f i = i\<lparr>segs := map (\<lambda>s. if seg_id s = q then f s else s) (segs i)\<rparr>"

text \<open>The segments that \<open>->next\<close> reaches from a segment.\<close>

fun after_seg :: "segment list \<Rightarrow> int \<Rightarrow> segment list" where
  "after_seg [] q = []"
| "after_seg (s # ss) q = (if seg_id s = q then ss else after_seg ss q)"

section \<open>Operations\<close>

definition add_new_segment ::
  "offset_info \<Rightarrow> bool \<Rightarrow> chunk list \<Rightarrow> int \<Rightarrow> (offset_info \<times> int) res" where
  "add_new_segment i recovery cs n =
     (let cs' = sorting_chunks cs;
          count = segment_count i + 1;
          temp = \<lparr>seg_id = count, recovery_segment = recovery, seg_chunks = cs',
                  seg_size = n, subseg = (\<lambda>_. None)\<rparr>
      in bindR (if num_segments i = 0 then Inr [temp]
                else if segs i = [] then Inl NullDeref
                else Inr (segs i @ [temp])) (\<lambda>ss.
         bindR (get_last_chunk cs') (\<lambda>c.
           Inr (i\<lparr>segs := ss,
                  num_segments := num_segments i + 1,
                  segment_count := count,
                  last_seg_offset := (if last_seg_offset i < last_byte c then last_byte c
                                      else last_seg_offset i)\<rparr>, count))))"

definition seg_finished :: "segment \<Rightarrow> bool" where
  "seg_finished s \<longleftrightarrow> subseg s LTE = None \<and> subseg s WIFI = None"

definition delete_finished_head_segment :: "offset_info \<Rightarrow> offset_info \<times> bool" where
  "delete_finished_head_segment i =
     (case segs i of
        [] \<Rightarrow> (i, False)
      | s # ss \<Rightarrow>
          if seg_finished s
          then (i\<lparr>segs := ss, num_segments := num_segments i - 1,
                  completed_segment_count := completed_segment_count i + 1\<rparr>, True)
          else (i, False))"

text \<open>\<open>while (delete_finished_head_segment(&gb->offset_info));\<close> of \<open>finish_downloading_subseg\<close>\<close>

function delete_finished_heads :: "offset_info \<Rightarrow> offset_info" where
  "delete_finished_heads i =
     (let r = delete_finished_head_segment i
      in if snd r then delete_finished_heads (fst r) else fst r)"
  by pat_completeness auto
termination
  by (relation "measure (\<lambda>i. length (segs i))")
     (auto simp: delete_finished_head_segment_def split: list.splits if_splits)

declare delete_finished_heads.simps [simp del]

definition delete_subsegment :: "offset_info \<Rightarrow> int \<Rightarrow> link \<Rightarrow> offset_info res" where
  "delete_subsegment i q l =
     bindR (seg_at i q) (\<lambda>s.
       case subseg s l of
         None \<Rightarrow> Inl NullDeref
       | Some _ \<Rightarrow> Inr (upd_seg q (\<lambda>s. s\<lparr>subseg := (subseg s)(l := None)\<rparr>) i))"

definition get_start_byte_next_segment :: "offset_info \<Rightarrow> int res" where
  "get_start_byte_next_segment i =
     (if segs i = [] then Inl AssertFail else Inr (last_seg_offset i + 1))"

definition get_first_next_segment_assigned_to_conn ::
  "offset_info \<Rightarrow> int option \<Rightarrow> link \<Rightarrow> int option res" where
  "get_first_next_segment_assigned_to_conn i q l =
     bindR (seg_deref i q) (\<lambda>s.
       Inr (map_option seg_id (find (\<lambda>t. subseg t l \<noteq> None) (after_seg (segs i) (seg_id s)))))"

definition is_conn_idle :: "offset_info \<Rightarrow> link \<Rightarrow> bool" where
  "is_conn_idle i l \<longleftrightarrow> connection i l = None"

section \<open>The invariant of the list\<close>

text \<open>
  Ids grow along the list and never exceed the counter they are drawn from, the counters add
  up, every segment has a chunk, no chunk of any segment lies beyond \<open>last_seg_offset\<close>.
\<close>

definition wf_segs :: "offset_info \<Rightarrow> bool" where
  "wf_segs i \<longleftrightarrow>
     num_segments i = int (length (segs i)) \<and>
     segment_count i = num_segments i + completed_segment_count i \<and>
     sorted_wrt (<) (map seg_id (segs i)) \<and>
     (\<forall>s \<in> set (segs i). seg_id s \<le> segment_count i) \<and>
     (\<forall>s \<in> set (segs i). seg_chunks s \<noteq> []) \<and>
     (\<forall>s \<in> set (segs i). last_byte (last (seg_chunks s)) \<le> last_seg_offset i)"

text \<open>
  The \<open>connection\<close> pointers never dangle: each is NULL or points to a segment of the list in
  which this connection still has a subsegment.
\<close>

definition wf_conns :: "offset_info \<Rightarrow> bool" where
  "wf_conns i \<longleftrightarrow> (\<forall>l q. connection i l = Some q \<longrightarrow>
     (\<exists>s \<in> set (segs i). seg_id s = q \<and> subseg s l \<noteq> None))"

definition empty_offset_info :: offset_info where
  "empty_offset_info =
     \<lparr>segs = [], num_segments = 0, segment_count = 0, completed_segment_count = 0,
      connection = (\<lambda>_. None), init_seg_size = 0, single_link_mode_flag = False,
      conn_idle = (\<lambda>_. False), last_seg_offset = 0, fast_conn = LTE, remaining_chunks = []\<rparr>"

lemma wf_segs_empty [simp, wf_intros]: "wf_segs empty_offset_info"
  by (simp add: wf_segs_def empty_offset_info_def)

lemma wf_conns_empty [simp, wf_intros]: "wf_conns empty_offset_info"
  by (simp add: wf_conns_def empty_offset_info_def)

text \<open>Fields that neither invariant reads.\<close>

lemma wf_segs_frame [simp]:
  "wf_segs (i\<lparr>conn_idle := f\<rparr>) = wf_segs i"
  "wf_segs (i\<lparr>connection := c\<rparr>) = wf_segs i"
  "wf_segs (i\<lparr>remaining_chunks := cs\<rparr>) = wf_segs i"
  "wf_segs (i\<lparr>fast_conn := l\<rparr>) = wf_segs i"
  "wf_segs (i\<lparr>single_link_mode_flag := b\<rparr>) = wf_segs i"
  "wf_segs (i\<lparr>init_seg_size := n\<rparr>) = wf_segs i"
  by (simp_all add: wf_segs_def)

lemma wf_conns_frame [simp]:
  "wf_conns (i\<lparr>conn_idle := f\<rparr>) = wf_conns i"
  "wf_conns (i\<lparr>remaining_chunks := cs\<rparr>) = wf_conns i"
  "wf_conns (i\<lparr>fast_conn := l\<rparr>) = wf_conns i"
  "wf_conns (i\<lparr>single_link_mode_flag := b\<rparr>) = wf_conns i"
  "wf_conns (i\<lparr>init_seg_size := n\<rparr>) = wf_conns i"
  "wf_conns (i\<lparr>last_seg_offset := n\<rparr>) = wf_conns i"
  by (simp_all add: wf_conns_def)

section \<open>Lookup\<close>

lemma seg_at_Inr: "seg_at i q = Inr s \<Longrightarrow> s \<in> set (segs i) \<and> seg_id s = q"
  by (auto simp: seg_at_def split: option.splits dest: find_SomeD)

lemma seg_at_mem:
  assumes "sorted_wrt (<) (map seg_id (segs i))" "s \<in> set (segs i)"
  shows "seg_at i (seg_id s) = Inr s"
proof -
  have "distinct (map seg_id ss) \<Longrightarrow> s \<in> set ss \<Longrightarrow> find (\<lambda>t. seg_id t = seg_id s) ss = Some s" for ss
    by (induction ss) auto
  moreover have "distinct (map seg_id (segs i))"
    using assms(1) strict_sorted_iff by blast
  ultimately show ?thesis using assms(2) by (simp add: seg_at_def)
qed

lemma seg_at_ok:
  "wf_segs i \<Longrightarrow> s \<in> set (segs i) \<Longrightarrow> seg_at i (seg_id s) = Inr s"
  by (simp add: seg_at_mem wf_segs_def)

lemma seg_at_None: "(\<exists>e. seg_at i q = Inl e) \<longleftrightarrow> q \<notin> seg_id ` set (segs i)"
  by (auto simp: seg_at_def find_None_iff split: option.splits dest: find_SomeD)

lemma seg_deref_Some [simp]: "seg_deref i (Some q) = seg_at i q"
  by (simp add: seg_deref_def)

lemma seg_deref_None [simp]: "seg_deref i None = Inl NullDeref"
  by (simp add: seg_deref_def)

lemma seg_deref_conn:
  assumes "wf_segs i" "wf_conns i" "connection i l = Some q"
  obtains s where "seg_deref i (Some q) = Inr s" "s \<in> set (segs i)" "seg_id s = q" "subseg s l \<noteq> None"
  using assms by (metis seg_at_ok seg_deref_Some wf_conns_def)

lemma after_seg_subset: "set (after_seg ss q) \<subseteq> set ss"
  by (induction ss) auto

lemma after_seg_split:
  "s \<in> set ss \<Longrightarrow> distinct (map seg_id ss) \<Longrightarrow> \<exists>pre. ss = pre @ s # after_seg ss (seg_id s)"
proof (induction ss)
  case (Cons t ss)
  show ?case
  proof (cases "t = s")
    case False
    with Cons obtain pre where "ss = pre @ s # after_seg ss (seg_id s)" by auto
    moreover from False Cons.prems have "seg_id t \<noteq> seg_id s" by auto
    ultimately have "t # ss = (t # pre) @ s # after_seg (t # ss) (seg_id s)" by simp
    then show ?thesis by blast
  qed simp
qed simp

lemma upd_seg_simps [simp]:
  "num_segments (upd_seg q f i) = num_segments i"
  "segment_count (upd_seg q f i) = segment_count i"
  "completed_segment_count (upd_seg q f i) = completed_segment_count i"
  "connection (upd_seg q f i) = connection i"
  "init_seg_size (upd_seg q f i) = init_seg_size i"
  "last_seg_offset (upd_seg q f i) = last_seg_offset i"
  "remaining_chunks (upd_seg q f i) = remaining_chunks i"
  "single_link_mode_flag (upd_seg q f i) = single_link_mode_flag i"
  "conn_idle (upd_seg q f i) = conn_idle i"
  "length (segs (upd_seg q f i)) = length (segs i)"
  "segs (upd_seg q f i) = map (\<lambda>s. if seg_id s = q then f s else s) (segs i)"
  by (simp_all add: upd_seg_def)

section \<open>Appending a segment\<close>

lemma add_new_segment_Inr:
  assumes "wf_segs i" "cs \<noteq> []"
  shows "add_new_segment i r cs n =
    Inr (i\<lparr>segs := segs i @ [\<lparr>seg_id = segment_count i + 1, recovery_segment = r,
             seg_chunks = sorting_chunks cs, seg_size = n, subseg = (\<lambda>_. None)\<rparr>],
           num_segments := num_segments i + 1, segment_count := segment_count i + 1,
           last_seg_offset := max (last_seg_offset i) (last_byte (last (sorting_chunks cs)))\<rparr>,
         segment_count i + 1)"
  using assms by (auto simp: add_new_segment_def Let_def wf_segs_def get_last_chunk_last)

lemma add_new_segment_Nil: "\<exists>e. add_new_segment i r [] n = Inl e"
  by (auto simp: add_new_segment_def Let_def bindR_eq_Inl)

lemma add_new_segment_wf [wf_intros]:
  assumes "wf_segs i" "add_new_segment i r cs n = Inr (i', q)"
  shows "wf_segs i'"
proof -
  have ne: "cs \<noteq> []" using assms(2) add_new_segment_Nil [of i r n] by (cases cs) auto
  have "\<forall>s\<in>set (segs i). seg_id s < segment_count i + 1" using assms(1) by (auto simp: wf_segs_def)
  moreover note assms(2) [unfolded add_new_segment_Inr [OF assms(1) ne]]
  ultimately show ?thesis using assms(1) ne
    by (fastforce simp: wf_segs_def sorted_wrt_append max_def)
qed

lemma add_new_segment_conns [wf_intros]:
  assumes "wf_segs i" "wf_conns i" "add_new_segment i r cs n = Inr (i', q)"
  shows "wf_conns i'"
proof -
  have ne: "cs \<noteq> []" using assms(3) add_new_segment_Nil [of i r n] by (cases cs) auto
  from assms show ?thesis by (auto simp: add_new_segment_Inr [OF assms(1) ne] wf_conns_def)
qed

section \<open>Freeing finished segments\<close>

lemma delete_finished_head_segment_wf [wf_intros]:
  "wf_segs i \<Longrightarrow> wf_segs (fst (delete_finished_head_segment i))"
  by (auto simp: delete_finished_head_segment_def wf_segs_def split: list.splits)

lemma delete_finished_head_segment_conns [wf_intros]:
  assumes "wf_conns i"
  shows "wf_conns (fst (delete_finished_head_segment i))"
proof (cases "segs i")
  case Nil
  with assms show ?thesis by (simp add: delete_finished_head_segment_def)
next
  case (Cons s ss)
  have "\<exists>t \<in> set ss. seg_id t = q \<and> subseg t l \<noteq> None"
    if "seg_finished s" "connection i l = Some q" for l q
  proof -
    from assms that(2) have "\<exists>t \<in> set (segs i). seg_id t = q \<and> subseg t l \<noteq> None"
      unfolding wf_conns_def by blast
    then obtain t where t: "t = s \<or> t \<in> set ss" "seg_id t = q" "subseg t l \<noteq> None"
      using Cons by auto
    from that(1) have "subseg s l = None" by (cases l) (simp_all add: seg_finished_def)
    with t show ?thesis by auto
  qed
  with Cons assms show ?thesis by (auto simp: delete_finished_head_segment_def wf_conns_def)
qed

lemma delete_finished_heads_induct:
  assumes "P i" and "\<And>i. P i \<Longrightarrow> P (fst (delete_finished_head_segment i))"
  shows "P (delete_finished_heads i)"
  using assms(1)
proof (induction i rule: delete_finished_heads.induct)
  case (1 i)
  then show ?case
    using assms(2) [OF "1.prems"] by (subst delete_finished_heads.simps) (auto simp: Let_def)
qed

lemma delete_finished_heads_wf [wf_intros]: "wf_segs i \<Longrightarrow> wf_segs (delete_finished_heads i)"
  by (rule delete_finished_heads_induct) (auto intro: wf_intros)

lemma delete_finished_heads_conns [wf_intros]: "wf_conns i \<Longrightarrow> wf_conns (delete_finished_heads i)"
  by (rule delete_finished_heads_induct) (auto intro: wf_intros)

lemma delete_finished_heads_segs:
  "segs (delete_finished_heads i) = dropWhile seg_finished (segs i)"
proof (induction i rule: delete_finished_heads.induct)
  case (1 i)
  then show ?case
    by (subst delete_finished_heads.simps)
       (auto simp: Let_def delete_finished_head_segment_def split: list.splits)
qed

lemma delete_finished_heads_count:
  "completed_segment_count (delete_finished_heads i)
     = completed_segment_count i + int (length (takeWhile seg_finished (segs i)))"
proof (induction i rule: delete_finished_heads.induct)
  case (1 i)
  then show ?case
    by (subst delete_finished_heads.simps)
       (auto simp: Let_def delete_finished_head_segment_def split: list.splits)
qed

lemma delete_finished_head_segment_frame [simp]:
  "connection (fst (delete_finished_head_segment i)) = connection i"
  "last_seg_offset (fst (delete_finished_head_segment i)) = last_seg_offset i"
  "segment_count (fst (delete_finished_head_segment i)) = segment_count i"
  "init_seg_size (fst (delete_finished_head_segment i)) = init_seg_size i"
  "remaining_chunks (fst (delete_finished_head_segment i)) = remaining_chunks i"
  "single_link_mode_flag (fst (delete_finished_head_segment i)) = single_link_mode_flag i"
  "conn_idle (fst (delete_finished_head_segment i)) = conn_idle i"
  by (auto simp: delete_finished_head_segment_def split: list.splits)

lemma delete_finished_heads_frame [simp]:
  "connection (delete_finished_heads i) = connection i"
  "last_seg_offset (delete_finished_heads i) = last_seg_offset i"
  "segment_count (delete_finished_heads i) = segment_count i"
  "init_seg_size (delete_finished_heads i) = init_seg_size i"
  "remaining_chunks (delete_finished_heads i) = remaining_chunks i"
  "single_link_mode_flag (delete_finished_heads i) = single_link_mode_flag i"
  "conn_idle (delete_finished_heads i) = conn_idle i"
  by (rule delete_finished_heads_induct, simp, simp)+

section \<open>Finding the next subsegment of a connection\<close>

lemma get_first_next_Inr:
  assumes "get_first_next_segment_assigned_to_conn i (Some q) l = Inr (Some r)"
  obtains s where "s \<in> set (after_seg (segs i) q)" "seg_id s = r" "subseg s l \<noteq> None"
  using assms
  by (auto simp: get_first_next_segment_assigned_to_conn_def bindR_eq_Inr dest!: seg_at_Inr find_SomeD)

lemma get_first_next_None:
  assumes "get_first_next_segment_assigned_to_conn i (Some q) l = Inr None"
  shows "\<forall>s \<in> set (after_seg (segs i) q). subseg s l = None"
  using assms
  by (auto simp: get_first_next_segment_assigned_to_conn_def bindR_eq_Inr find_None_iff dest!: seg_at_Inr)

lemma delete_subsegment_Inr:
  assumes "delete_subsegment i q l = Inr i'"
  shows "i' = upd_seg q (\<lambda>s. s\<lparr>subseg := (subseg s)(l := None)\<rparr>) i"
    and "\<exists>s \<in> set (segs i). seg_id s = q \<and> subseg s l \<noteq> None"
  using assms
  by (auto simp: delete_subsegment_def bindR_eq_Inr split: option.splits dest!: seg_at_Inr)

lemma upd_seg_wf [wf_intros]:
  assumes "wf_segs i"
    and "\<And>s. seg_id (f s) = seg_id s" "\<And>s. seg_chunks (f s) = seg_chunks s"
  shows "wf_segs (upd_seg q f i)"
proof -
  have "map seg_id (segs (upd_seg q f i)) = map seg_id (segs i)" using assms(2) by simp
  then show ?thesis using assms by (auto simp: wf_segs_def simp del: map_map map_eq_conv)
qed

lemma delete_subsegment_wf [wf_intros]:
  "wf_segs i \<Longrightarrow> delete_subsegment i q l = Inr i' \<Longrightarrow> wf_segs i'"
  by (auto dest!: delete_subsegment_Inr(1) intro!: upd_seg_wf)

end
