(* ===== verification/Subseg.thy ===== *)
theory Subseg
  imports Segments
begin

text \<open>
  Dividing a segment between the two connections (\<^verbatim>\<open>offset.c\<close>: \<open>get_fast_conn_index\<close>,
  \<open>get_virtual_seg_size\<close>, \<open>add_new_subsegment\<close>). The faster connection gets the first bytes
  of the segment, the slower one the rest; the lemmas show that the two subsegments are
  exactly the two parts of the segment's byte sequence.
\<close>

section \<open>How much each connection gets\<close>

definition get_fast_conn_index :: "proc \<Rightarrow> link res" where
  "get_fast_conn_index p =
     bindR (conn_at p LTE) (\<lambda>a. bindR (conn_at p WIFI) (\<lambda>b.
       Inr (if c_bytes_per_second a \<ge> c_bytes_per_second b then LTE else WIFI)))"

text \<open>The loop over the segments after the current one, up to the tail.\<close>

fun later_sizes :: "link \<Rightarrow> int option \<Rightarrow> segment list \<Rightarrow> int" where
  "later_sizes k tail [] = 0"
| "later_sizes k tail (s # ss) =
     (if Some (seg_id s) = tail then 0
      else (case subseg s k of None \<Rightarrow> 0 | Some b \<Rightarrow> ss_size b) + later_sizes k tail ss)"

definition pending_of_conn :: "proc \<Rightarrow> link \<Rightarrow> link \<Rightarrow> int res" where
  "pending_of_conn p index k =
     (let i = offset_info p in
      case connection i k of
        None \<Rightarrow> Inr 0
      | Some q \<Rightarrow>
          bindR (seg_at i q) (\<lambda>s.
          bindR (if k \<noteq> index then bindR (conn_at p k) (\<lambda>c. Inr (lastbyte c - currentbyte c + 1))
                 else Inr 0) (\<lambda>r.
            Inr (r + later_sizes k (tail_ptr i) (after_seg (segs i) q)))))"

definition get_virtual_seg_size :: "proc \<Rightarrow> link \<Rightarrow> int \<Rightarrow> int res" where
  "get_virtual_seg_size p index next_seg_size =
     (if num_segments (offset_info p) = 1
      then (case segs (offset_info p) of [] \<Rightarrow> Inl NullDeref | s # _ \<Rightarrow> Inr (seg_size s))
      else bindR (pending_of_conn p index LTE) (\<lambda>a. bindR (pending_of_conn p index WIFI) (\<lambda>b.
             Inr (a + b + next_seg_size))))"

text \<open>\<open>n * target_ratio / (target_ratio + another_ratio)\<close>\<close>

definition ratio_share :: "int \<Rightarrow> int \<Rightarrow> int \<Rightarrow> int res" where
  "ratio_share n target_ratio another_ratio =
     bindR (chk_ll (n * target_ratio)) (\<lambda>m.
     bindR (chk_int (target_ratio + another_ratio)) (\<lambda>d. cdiv m d))"

definition target_share :: "proc \<Rightarrow> segment \<Rightarrow> link \<Rightarrow> int \<Rightarrow> int \<Rightarrow> int \<Rightarrow> int res" where
  "target_share p sg index target_ratio another_ratio fixed_mode =
     (if fixed_mode \<noteq> 0 then ratio_share (seg_size sg) target_ratio another_ratio
      else bindR (if \<not> recovery_segment sg
                  then bindR (get_virtual_seg_size p index (seg_size sg))
                         (\<lambda>v. ratio_share v target_ratio another_ratio)
                  else ratio_share (seg_size sg) target_ratio another_ratio) (\<lambda>n.
             Inr (if n > seg_size sg then seg_size sg else n)))"

section \<open>Handing out the chunks\<close>

text \<open>
  The two loops over the segment's chunks. \<open>n\<close> is \<open>subseg[fast_conn]->size\<close>, \<open>left\<close> and
  \<open>slow_left\<close> are the counters \<open>subseg_size[fast_conn]\<close> and \<open>subseg_size[slow_conn]\<close>, \<open>acc\<close>
  is \<open>chunks_size\<close>, and \<open>slow_alloc\<close> says whether \<open>subseg[slow_conn]\<close> was allocated (using it
  otherwise reads an uninitialised pointer).
\<close>

fun fill_fast :: "int \<Rightarrow> bool \<Rightarrow> int \<Rightarrow> int \<Rightarrow> int \<Rightarrow> chunk list \<Rightarrow> chunk list \<Rightarrow> chunk list \<Rightarrow>
    (chunk list \<times> chunk list \<times> int \<times> chunk list) res" where
  "fill_fast n slow_alloc left slow_left acc fc sc [] = Inr (fc, sc, slow_left, [])"
| "fill_fast n slow_alloc left slow_left acc fc sc (c # cs) =
     (if left = 0 then Inr (fc, sc, slow_left, c # cs)
      else if n < acc + csize c then
        (if csize c - left \<noteq> 0 then
           (if slow_alloc
            then Inr (add_new_chunk fc (start_byte c) left,
                      add_new_chunk sc (start_byte c + left) (csize c - left),
                      slow_left - (csize c - left), cs)
            else Inl Uninit)
         else Inr (add_new_chunk fc (start_byte c) left, sc, slow_left, cs))
      else fill_fast n slow_alloc (left - csize c) slow_left (acc + csize c)
             (add_new_chunk fc (start_byte c) (csize c)) sc cs)"

fun fill_slow :: "int \<Rightarrow> chunk list \<Rightarrow> chunk list \<Rightarrow> chunk list res" where
  "fill_slow slow_left sc [] = Inr sc"
| "fill_slow slow_left sc (c # cs) =
     (if slow_left = 0 then Inl (Exit 1)
      else fill_slow slow_left (add_new_chunk sc (start_byte c) (csize c)) cs)"

definition divide_chunks :: "int \<Rightarrow> int \<Rightarrow> chunk list \<Rightarrow> (chunk list \<times> chunk list) res" where
  "divide_chunks fast_size slow_size cs =
     bindR (fill_fast fast_size (slow_size \<noteq> 0) fast_size slow_size 0 [] [] cs)
       (\<lambda>(fc, sc, slow_left, rest). bindR (fill_slow slow_left sc rest) (\<lambda>sc'. Inr (fc, sc')))"

definition add_new_subsegment :: "proc \<Rightarrow> link \<Rightarrow> int \<Rightarrow> int \<Rightarrow> int \<Rightarrow> proc res" where
  "add_new_subsegment p index target_ratio another_ratio fixed_mode =
     (let i = offset_info p in
      if segs i = [] then Inl NullDeref
      else let sg = last (segs i) in
        bindR (get_fast_conn_index p) (\<lambda>fast.
          if seg_chunks sg = [] then Inl (Exit 1)
          else bindR (target_share p sg index target_ratio another_ratio fixed_mode) (\<lambda>n.
            let sz = (\<lambda>k. if k = index then n else seg_size sg - n)
            in bindR (divide_chunks (sz fast) (sz (other fast)) (seg_chunks sg)) (\<lambda>(fc, sc).
              Inr (upd_off (upd_seg (seg_id sg) (\<lambda>s. s\<lparr>subseg := (\<lambda>k.
                     if sz k = 0 then subseg s k
                     else Some \<lparr>ss_chunks = (if k = fast then fc else sc), ss_size = sz k\<rparr>)\<rparr>)) p)))))"

section \<open>The two parts of a byte sequence\<close>

lemma fill_slow_Inr:
  "slow_left \<noteq> 0 \<or> cs = [] \<Longrightarrow> \<forall>c \<in> set cs. chunk_ok c \<Longrightarrow> fill_slow slow_left sc cs = Inr (sc @ cs)"
  by (induction slow_left sc cs rule: fill_slow.induct) (auto simp: add_new_chunk_def chunk_ok_eq)

lemma fill_fast_parts:
  assumes "\<forall>c \<in> set cs. chunk_ok c" "0 \<le> left" "n = acc + left" "0 \<le> S" "left + S = total_size cs"
    and "slow_alloc \<longleftrightarrow> S \<noteq> 0"
  shows "\<exists>fc' sc' rest. fill_fast n slow_alloc left S acc fc sc cs = Inr (fc @ fc', sc @ sc', total_size rest, rest)
    \<and> bytes_of fc' = take (nat left) (bytes_of cs)
    \<and> bytes_of sc' @ bytes_of rest = drop (nat left) (bytes_of cs)
    \<and> total_size fc' = left \<and> total_size sc' + total_size rest = S
    \<and> (\<forall>c \<in> set (fc' @ sc' @ rest). chunk_ok c)"
  using assms
proof (induction cs arbitrary: left acc fc)
  case (Cons c cs)
  have c: "chunk_ok c" and cs: "\<forall>c \<in> set cs. chunk_ok c" using Cons.prems(1) by simp_all
  have pos: "0 < csize c" using c by (simp add: chunk_ok_def)
  have len: "length (chunk_bytes c) = nat (csize c)" using length_chunk_bytes [OF c] by simp
  have cut: "length (chunk_bytes (mk_chunk (start_byte c) left)) = nat left"
    by (simp add: chunk_bytes_def)
  consider "left = 0" | "0 < left" "left < csize c" | "0 < left" "csize c \<le> left"
    using Cons.prems(2) by linarith
  then show ?case
  proof cases
    case 1
    then show ?thesis using Cons.prems
      by (intro exI [of _ "[]"] exI [of _ "[]"] exI [of _ "c # cs"]) auto
  next
    case 2
    have b: "chunk_bytes c = chunk_bytes (mk_chunk (start_byte c) left)
               @ chunk_bytes (mk_chunk (start_byte c + left) (csize c - left))"
      using 2 c by (intro chunk_bytes_cut) simp_all
    have "S \<noteq> 0" using Cons.prems(5) 2 total_size_nonneg [OF cs] by auto
    with 2 Cons.prems show ?thesis
      by (intro exI [of _ "[mk_chunk (start_byte c) left]"]
            exI [of _ "[mk_chunk (start_byte c + left) (csize c - left)]"] exI [of _ cs])
         (auto simp: add_new_chunk_def b cut)
  next
    case 3
    let ?fc = "add_new_chunk fc (start_byte c) (csize c)"
    have "\<exists>fc' sc' rest. fill_fast n slow_alloc (left - csize c) S (acc + csize c) ?fc sc cs
          = Inr (?fc @ fc', sc @ sc', total_size rest, rest)
        \<and> bytes_of fc' = take (nat (left - csize c)) (bytes_of cs)
        \<and> bytes_of sc' @ bytes_of rest = drop (nat (left - csize c)) (bytes_of cs)
        \<and> total_size fc' = left - csize c \<and> total_size sc' + total_size rest = S
        \<and> (\<forall>c \<in> set (fc' @ sc' @ rest). chunk_ok c)"
      using Cons.prems 3 by (intro Cons.IH) auto
    then obtain fc' sc' rest where ih:
      "fill_fast n slow_alloc (left - csize c) S (acc + csize c) ?fc sc cs
          = Inr (?fc @ fc', sc @ sc', total_size rest, rest)"
      "bytes_of fc' = take (nat (left - csize c)) (bytes_of cs)"
      "bytes_of sc' @ bytes_of rest = drop (nat (left - csize c)) (bytes_of cs)"
      "total_size fc' = left - csize c" "total_size sc' + total_size rest = S"
      "\<forall>c \<in> set (fc' @ sc' @ rest). chunk_ok c" by blast
    have "nat left - nat (csize c) = nat (left - csize c)" using 3 pos by simp
    then have tk: "take (nat left) (bytes_of (c # cs)) = chunk_bytes c @ take (nat (left - csize c)) (bytes_of cs)"
      and dr: "drop (nat left) (bytes_of (c # cs)) = drop (nat (left - csize c)) (bytes_of cs)"
      using 3 by (simp_all add: len)
    have step: "fill_fast n slow_alloc left S acc fc sc (c # cs)
        = fill_fast n slow_alloc (left - csize c) S (acc + csize c) ?fc sc cs"
      using 3 Cons.prems(3) by simp
    have fc: "?fc = fc @ [c]" by (simp add: add_new_chunk_def chunk_ok_eq c)
    show ?thesis
      by (rule exI [of _ "c # fc'"], rule exI [of _ sc'], rule exI [of _ rest])
         (use ih c tk dr in \<open>simp add: step fc del: fill_fast.simps\<close>)
  qed
qed simp

lemma divide_chunks_parts:
  assumes "\<forall>c \<in> set cs. chunk_ok c" "0 \<le> a" "0 \<le> b" "a + b = total_size cs"
  obtains fc sc where "divide_chunks a b cs = Inr (fc, sc)"
    "bytes_of fc = take (nat a) (bytes_of cs)" "bytes_of sc = drop (nat a) (bytes_of cs)"
    "total_size fc = a" "total_size sc = b" "\<forall>c \<in> set (fc @ sc). chunk_ok c"
proof -
  obtain fc' sc' rest where f:
    "fill_fast a (b \<noteq> 0) a b 0 [] [] cs = Inr (fc', sc', total_size rest, rest)"
    "bytes_of fc' = take (nat a) (bytes_of cs)"
    "bytes_of sc' @ bytes_of rest = drop (nat a) (bytes_of cs)"
    "total_size fc' = a" "total_size sc' + total_size rest = b"
    "\<forall>c \<in> set (fc' @ sc' @ rest). chunk_ok c"
    using fill_fast_parts [of cs a a 0 b "b \<noteq> 0" "[]" "[]"] assms by auto
  have "rest \<noteq> [] \<Longrightarrow> 0 < total_size rest" using f(6) by (auto intro: total_size_pos)
  then have "total_size rest \<noteq> 0 \<or> rest = []" by linarith
  then have "fill_slow (total_size rest) sc' rest = Inr (sc' @ rest)"
    using f(6) by (intro fill_slow_Inr) simp_all
  then show thesis using f by (intro that [of fc' "sc' @ rest"]) (auto simp: divide_chunks_def)
qed

section \<open>Well-formed segments\<close>

text \<open>
  A segment is well-formed when its chunks are proper ranges whose sizes add up to the
  segment's size. The bytes a connection has in a segment are those of its subsegment.
\<close>

definition seg_ok :: "segment \<Rightarrow> bool" where
  "seg_ok s \<longleftrightarrow> seg_chunks s \<noteq> [] \<and> (\<forall>c \<in> set (seg_chunks s). chunk_ok c)
     \<and> seg_size s = total_size (seg_chunks s)"

definition sub_bytes :: "segment \<Rightarrow> link \<Rightarrow> int list" where
  "sub_bytes s k = (case subseg s k of None \<Rightarrow> [] | Some b \<Rightarrow> bytes_of (ss_chunks b))"

definition sub_ok :: "segment \<Rightarrow> link \<Rightarrow> bool" where
  "sub_ok s k \<longleftrightarrow> (case subseg s k of None \<Rightarrow> True
     | Some b \<Rightarrow> ss_chunks b \<noteq> [] \<and> (\<forall>c \<in> set (ss_chunks b). chunk_ok c)
                \<and> ss_size b = total_size (ss_chunks b))"

lemma seg_ok_size_pos: "seg_ok s \<Longrightarrow> 0 < seg_size s"
  by (auto simp: seg_ok_def intro: total_size_pos)

lemma get_fast_conn_index_dual:
  "conn_ok p WIFI \<Longrightarrow> get_fast_conn_index p =
     Inr (if c_bytes_per_second (conn p LTE) \<ge> c_bytes_per_second (conn p WIFI) then LTE else WIFI)"
  by (simp add: get_fast_conn_index_def conn_at_def conn_ok_LTE)

lemma get_fast_conn_index_single:
  "\<not> conn_ok p WIFI \<Longrightarrow> get_fast_conn_index p = Inl OutOfBounds"
  by (auto simp: get_fast_conn_index_def conn_at_def)

lemma target_share_bounds:
  assumes "target_share p sg k t a m = Inr n" "0 \<le> seg_size sg" "0 \<le> t" "0 \<le> a"
    and virt: "\<And>v. \<not> recovery_segment sg \<Longrightarrow> get_virtual_seg_size p k (seg_size sg) = Inr v \<Longrightarrow> 0 \<le> v"
  shows "0 \<le> n \<and> n \<le> seg_size sg"
proof -
  have share: "0 \<le> r \<and> r \<le> v" if "ratio_share v t a = Inr r" "0 \<le> v" for v r
    using that assms(3,4) div_share_bounds [of v t a]
    by (auto simp: ratio_share_def bindR_eq_Inr)
  show ?thesis
  proof (cases "m \<noteq> 0")
    case True
    then show ?thesis using assms(1,2) share by (auto simp: target_share_def)
  next
    case False
    then obtain r v where "ratio_share v t a = Inr r" "0 \<le> v"
        "n = (if r > seg_size sg then seg_size sg else r)"
      using assms(1,2,5) by (auto simp: target_share_def bindR_eq_Inr split: if_splits)
    then show ?thesis using share assms(2) by force
  qed
qed

text \<open>The effect of \<open>add_new_subsegment\<close> on the tail segment.\<close>

lemma add_new_subsegment_tail:
  assumes wf: "wf_segs (offset_info p)"
    and segs: "segs (offset_info p) = pre @ [sg]" and ok: "seg_ok sg" and fresh: "subseg sg = (\<lambda>_. None)"
    and dual: "conn_ok p WIFI"
    and n: "target_share p sg k t a m = Inr n" "0 \<le> n" "n \<le> seg_size sg"
    and fast: "get_fast_conn_index p = Inr fast"
  obtains sg' where "add_new_subsegment p k t a m = Inr (p\<lparr>offset_info := (offset_info p)\<lparr>segs := pre @ [sg']\<rparr>\<rparr>)"
    "seg_id sg' = seg_id sg" "seg_chunks sg' = seg_chunks sg" "seg_size sg' = seg_size sg"
    "recovery_segment sg' = recovery_segment sg"
    "sub_bytes sg' fast @ sub_bytes sg' (other fast) = bytes_of (seg_chunks sg)"
    "int (length (sub_bytes sg' k)) = n" "int (length (sub_bytes sg' (other k))) = seg_size sg - n"
    "\<forall>j. sub_ok sg' j"
    "\<forall>j. subseg sg' j = None \<longleftrightarrow> sub_bytes sg' j = []"
proof -
  define sz where "sz = (\<lambda>j. if j = k then n else seg_size sg - n)"
  have szs: "0 \<le> sz fast" "0 \<le> sz (other fast)" "sz fast + sz (other fast) = total_size (seg_chunks sg)"
    using n ok link_cases2 [of fast k] by (auto simp: sz_def seg_ok_def)
  obtain fc sc where d: "divide_chunks (sz fast) (sz (other fast)) (seg_chunks sg) = Inr (fc, sc)"
    "bytes_of fc = take (nat (sz fast)) (bytes_of (seg_chunks sg))"
    "bytes_of sc = drop (nat (sz fast)) (bytes_of (seg_chunks sg))"
    "total_size fc = sz fast" "total_size sc = sz (other fast)" "\<forall>c \<in> set (fc @ sc). chunk_ok c"
    using divide_chunks_parts [of "seg_chunks sg"] szs ok unfolding seg_ok_def by metis
  define sg' where "sg' = sg\<lparr>subseg := (\<lambda>j. if sz j = 0 then subseg sg j
      else Some \<lparr>ss_chunks = (if j = fast then fc else sc), ss_size = sz j\<rparr>)\<rparr>"
  have l: "last (segs (offset_info p)) = sg" and ne: "segs (offset_info p) \<noteq> []" "seg_chunks sg \<noteq> []"
    using ok by (simp_all add: segs seg_ok_def)
  have ids: "seg_id s \<noteq> seg_id sg" if "s \<in> set pre" for s
    using wf that by (auto simp: wf_segs_def segs sorted_wrt_append)
  have "map (\<lambda>s. if seg_id s = seg_id sg then f s else s) (pre @ [sg]) = pre @ [f sg]" for f
    using ids by (simp add: map_idI)
  moreover have "add_new_subsegment p k t a m =
      bindR (divide_chunks (sz fast) (sz (other fast)) (seg_chunks sg)) (\<lambda>(fc, sc).
        Inr (upd_off (upd_seg (seg_id sg) (\<lambda>s. s\<lparr>subseg := (\<lambda>j. if sz j = 0 then subseg s j
          else Some \<lparr>ss_chunks = (if j = fast then fc else sc), ss_size = sz j\<rparr>)\<rparr>)) p))"
    unfolding add_new_subsegment_def Let_def sz_def l by (simp add: ne fast n(1))
  ultimately have eq: "add_new_subsegment p k t a m
      = Inr (p\<lparr>offset_info := (offset_info p)\<lparr>segs := pre @ [sg']\<rparr>\<rparr>)"
    by (simp add: d(1) upd_off_def upd_seg_def segs sg'_def)
  have len: "int (length (bytes_of (if j = fast then fc else sc))) = sz j" for j
    using d(4-6) length_bytes_of [of fc] length_bytes_of [of sc] link_cases2 [of j fast] by auto
  have none: "bytes_of (if j = fast then fc else sc) = [] \<longleftrightarrow> sz j = 0" for j
    using len [of j] by (metis length_0_conv of_nat_eq_0_iff)
  have sb: "sub_bytes sg' j = bytes_of (if j = fast then fc else sc)" for j
    using none [of j] by (auto simp: sub_bytes_def sg'_def fresh)
  show thesis
  proof (rule that [OF eq])
    show "sub_bytes sg' fast @ sub_bytes sg' (other fast) = bytes_of (seg_chunks sg)"
      by (simp add: sb d(2,3))
    show "int (length (sub_bytes sg' k)) = n" "int (length (sub_bytes sg' (other k))) = seg_size sg - n"
      using len [of k] len [of "other k"] by (simp_all add: sb sz_def)
    show "\<forall>j. subseg sg' j = None \<longleftrightarrow> sub_bytes sg' j = []"
      using none by (simp add: sb) (simp add: sg'_def fresh)
    show "\<forall>j. sub_ok sg' j"
    proof
      fix j
      have "(if j = fast then fc else sc) \<noteq> []" if "sz j \<noteq> 0" using none [of j] that by auto
      then show "sub_ok sg' j"
        using d(4-6) link_cases2 [of j fast] by (auto simp: sub_ok_def sg'_def fresh split: option.splits)
    qed
  qed (simp_all add: sg'_def)
qed

end
