(* ===== verification/Position.thy ===== *)
theory Position
  imports Subseg
begin

text \<open>
  Where the download stands: which connection is ahead, which chunk each connection is
  downloading, which chunk holds the player back (the bottleneck), and the in-order offset,
  below which every byte has been received (\<^verbatim>\<open>offset.c\<close>, parts of \<^verbatim>\<open>gb.c\<close> and
  \<^verbatim>\<open>recovery.c\<close>).
\<close>

section \<open>Order of the connections\<close>

datatype conn_order = ONE_SEG | AHEAD_SEG | BEHIND_SEG

definition get_conn_order_case :: "proc \<Rightarrow> link \<Rightarrow> conn_order" where
  "get_conn_order_case p index =
     (let i = offset_info p in
      if num_segments i = 1 then ONE_SEG
      else if connection i index = tail_ptr i then AHEAD_SEG
      else if connection i index = head_ptr i \<or> single_link_mode_flag i then BEHIND_SEG
      else BEHIND_SEG)"

definition get_remaining_file_size :: "proc \<Rightarrow> int res" where
  "get_remaining_file_size p =
     bindR (get_start_byte_next_segment (offset_info p)) (\<lambda>b. Inr (g_size p - b))"

definition is_using_only_one_link :: "proc \<Rightarrow> bool" where
  "is_using_only_one_link p \<longleftrightarrow> conn_idle (offset_info p) LTE \<noteq> conn_idle (offset_info p) WIFI"

definition get_behind_conn_index :: "proc \<Rightarrow> link res" where
  "get_behind_conn_index p =
     bindR (conn_at p LTE) (\<lambda>a. bindR (conn_at p WIFI) (\<lambda>b.
       Inr (if currentbyte a < currentbyte b then LTE else WIFI)))"

text \<open>\<open>get_total_goodput\<close> of \<^verbatim>\<open>recovery.c\<close>\<close>

definition get_total_goodput :: "proc \<Rightarrow> int" where
  "get_total_goodput p = sum_list (map (\<lambda>k. c_bytes_per_second (conn p k)) (conn_indices p))"

text \<open>
  \<open>get_remaining_size_for_conn\<close>: what is left of the current chunk, and the later subsegments.
\<close>

fun assigned_sizes :: "link \<Rightarrow> segment list \<Rightarrow> int" where
  "assigned_sizes k [] = 0"
| "assigned_sizes k (s # ss) =
     (case subseg s k of None \<Rightarrow> 0 | Some b \<Rightarrow> ss_size b) + assigned_sizes k ss"

definition get_remaining_size_for_conn :: "proc \<Rightarrow> link \<Rightarrow> int res" where
  "get_remaining_size_for_conn p index =
     bindR (conn_at p index) (\<lambda>c.
     bindR (seg_deref (offset_info p) (connection (offset_info p) index)) (\<lambda>s.
       Inr (lastbyte c - currentbyte c + 1
            + assigned_sizes index (after_seg (segs (offset_info p)) (seg_id s)))))"

section \<open>Chunks in flight\<close>

fun next_chunk_in :: "link \<Rightarrow> int \<Rightarrow> segment list \<Rightarrow> chunk option" where
  "next_chunk_in k cur [] = None"
| "next_chunk_in k cur (s # ss) =
     (case subseg s k of
        None \<Rightarrow> next_chunk_in k cur ss
      | Some b \<Rightarrow> (case find (\<lambda>c. start_byte c > cur) (ss_chunks b) of
                     Some c \<Rightarrow> Some c
                   | None \<Rightarrow> next_chunk_in k cur ss))"

definition get_next_chunk_dwnd_by_conn :: "proc \<Rightarrow> link \<Rightarrow> chunk option res" where
  "get_next_chunk_dwnd_by_conn p index =
     bindR (conn_at p index) (\<lambda>c. Inr (next_chunk_in index (currentbyte c) (segs (offset_info p))))"

definition get_segment_being_dwnd_by_conn :: "proc \<Rightarrow> link \<Rightarrow> segment option" where
  "get_segment_being_dwnd_by_conn p index =
     find (\<lambda>s. subseg s index \<noteq> None) (segs (offset_info p))"

definition get_chunk_being_dwnd_by_conn :: "proc \<Rightarrow> link \<Rightarrow> chunk option res" where
  "get_chunk_being_dwnd_by_conn p index =
     (case get_segment_being_dwnd_by_conn p index of
        None \<Rightarrow> Inr None
      | Some s \<Rightarrow>
          (case subseg s index of
             None \<Rightarrow> Inl AssertFail
           | Some b \<Rightarrow> bindR (conn_at p index) (\<lambda>c.
               Inr (find (\<lambda>d. last_byte d > currentbyte c) (ss_chunks b)))))"

text \<open>The bottleneck chunk, what is left of it, and the connection it is assigned to.\<close>

definition get_bn_chunk_info :: "proc \<Rightarrow> link \<Rightarrow> (chunk \<times> int \<times> link) res" where
  "get_bn_chunk_info p cur =
     bindR (get_next_chunk_dwnd_by_conn p cur) (\<lambda>next_cur.
     bindR (get_chunk_being_dwnd_by_conn p (other cur)) (\<lambda>chunk_other.
       if is_using_only_one_link p then
         bindR (get_chunk_being_dwnd_by_conn p cur) (\<lambda>found.
           case found of
             None \<Rightarrow> Inl NullDeref
           | Some c \<Rightarrow> bindR (conn_at p cur) (\<lambda>k. Inr (c, last_byte c - (currentbyte k - 1), cur)))
       else
         (case (chunk_other, next_cur) of
            (Some c, None) \<Rightarrow>
              bindR (conn_at p (other cur)) (\<lambda>k. Inr (c, last_byte c - (currentbyte k - 1), other cur))
          | (Some c, Some d) \<Rightarrow>
              if start_byte d > start_byte c
              then bindR (conn_at p (other cur)) (\<lambda>k. Inr (c, last_byte c - (currentbyte k - 1), other cur))
              else Inr (d, csize d, cur)
          | (None, Some d) \<Rightarrow> Inr (d, csize d, cur)
          | (None, None) \<Rightarrow> Inl NullDeref)))"

text \<open>
  \<open>get_bottle_neck_size\<close> of \<^verbatim>\<open>recovery.c\<close>: among the subsegments of the other connection from
  its current segment on, the one whose first chunk starts lowest.
\<close>

definition first_start :: "segment \<Rightarrow> link \<Rightarrow> int res" where
  "first_start s k = (case subseg s k of
      None \<Rightarrow> Inl NullDeref
    | Some b \<Rightarrow> (case ss_chunks b of [] \<Rightarrow> Inl NullDeref | c # _ \<Rightarrow> Inr (start_byte c)))"

fun lowest_segment :: "link \<Rightarrow> segment \<Rightarrow> segment list \<Rightarrow> segment res" where
  "lowest_segment k best [] = Inr best"
| "lowest_segment k best (s # ss) =
     (if subseg s k = None then lowest_segment k best ss
      else bindR (first_start best k) (\<lambda>a. bindR (first_start s k) (\<lambda>b.
             lowest_segment k (if a > b then s else best) ss)))"

definition get_bottle_neck_size :: "proc \<Rightarrow> link \<Rightarrow> int res" where
  "get_bottle_neck_size p index =
     (let i = offset_info p; k = other index in
      case connection i k of
        None \<Rightarrow> Inr 0
      | Some q \<Rightarrow>
          bindR (seg_at i q) (\<lambda>s.
          bindR (lowest_segment k s (after_seg (segs i) q)) (\<lambda>bn.
            if seg_id bn = q
            then bindR (conn_at p k) (\<lambda>c. Inr (lastbyte c - currentbyte c + 1))
            else (case subseg bn k of
                    None \<Rightarrow> Inl NullDeref
                  | Some b \<Rightarrow> (case ss_chunks b of [] \<Rightarrow> Inl NullDeref | c # _ \<Rightarrow> Inr (csize c))))))"

definition get_bottle_neck_downloading_time :: "proc \<Rightarrow> int \<Rightarrow> dbl res" where
  "get_bottle_neck_downloading_time p bottle_neck_size =
     bindR (get_behind_conn_index p) (\<lambda>k.
       Inr (of_ll bottle_neck_size / of_ll (c_bytes_per_second (conn p k))))"

section \<open>The in-order offset\<close>

text \<open>
  The loop over all segments for one connection: the smallest first byte of a subsegment
  outside the segment the connection works on, and \<open>conn_byte\<close>.
\<close>

fun min_start :: "link \<Rightarrow> int option \<Rightarrow> int \<Rightarrow> segment list \<Rightarrow> int res" where
  "min_start k current conn_byte [] = Inr conn_byte"
| "min_start k current conn_byte (s # ss) =
     (if Some (seg_id s) \<noteq> current \<and> subseg s k \<noteq> None
      then bindR (first_start s k) (\<lambda>b.
             min_start k current (if b < conn_byte then b else conn_byte) ss)
      else min_start k current conn_byte ss)"

definition min_start_of :: "proc \<Rightarrow> link \<Rightarrow> int res" where
  "min_start_of p k =
     (if conn_ok p k
      then min_start k (connection (offset_info p) k) (currentbyte (conn p k)) (segs (offset_info p))
      else Inl Uninit)"

definition mark_idle :: "proc \<Rightarrow> proc" where
  "mark_idle p = upd_off (\<lambda>i. i\<lparr>conn_idle := (\<lambda>k.
      if conn_ok p k then currentbyte (conn p k) = lastbyte (conn p k) + 1 else conn_idle i k)\<rparr>) p"

definition find_inorder_offset :: "proc \<Rightarrow> int res" where
  "find_inorder_offset p =
     (let idle = conn_idle (offset_info p) in
      if \<not> is_using_only_one_link p then
        if idle LTE \<and> idle WIFI then Inr (g_size p - 1)
        else bindR (min_start_of p LTE) (\<lambda>a. bindR (min_start_of p WIFI) (\<lambda>b.
               Inr (if a < b then a else b)))
      else (case find (\<lambda>k. \<not> idle k) (conn_indices p) of
              None \<Rightarrow> Inr 0
            | Some k \<Rightarrow> bindR (assertR (idle (other k))) (\<lambda>_. Inr (currentbyte (conn p k)))))"

definition update_inorder_offset :: "proc \<Rightarrow> proc res" where
  "update_inorder_offset p =
     (let p1 = mark_idle p in
      bindR (find_inorder_offset p1) (\<lambda>found.
      bindR (assertR (inorder_offset p1 \<le> found)) (\<lambda>_.
        Inr (p1\<lparr>inorder_offset := found\<rparr>))))"

definition update_inorder_offset_old :: "proc \<Rightarrow> (proc \<times> int) res" where
  "update_inorder_offset_old p =
     bindR (conn_at p LTE) (\<lambda>a. bindR (conn_at p WIFI) (\<lambda>b.
       let p1 = (if bytes_done p = g_size p then p\<lparr>inorder_offset := g_size p - 1\<rparr> else p) in
       if bytes_done p = g_size p \<and> lastbyte a = g_size p - 1 then Inr (p1, 0)
       else if bytes_done p = g_size p \<and> lastbyte b = g_size p - 1 then Inr (p1, 1)
       else bindR (min_start_of p LTE) (\<lambda>x. bindR (min_start_of p WIFI) (\<lambda>y.
              if x < y then Inr (p1\<lparr>inorder_offset := x\<rparr>, 0)
              else Inr (p1\<lparr>inorder_offset := y\<rparr>, 1)))))"

definition update_last_downloaded_byte :: "proc \<Rightarrow> proc res" where
  "update_last_downloaded_byte p =
     (if ready p = 0 \<and> run p then
        bindR (assertR (last_downloaded_byte p \<le> inorder_offset p)) (\<lambda>_.
          Inr (p\<lparr>last_downloaded_byte := inorder_offset p\<rparr>))
      else Inr (p\<lparr>last_downloaded_byte := g_size p\<rparr>))"

section \<open>Chunks in flight: what the searches find\<close>

definition assigned_chunks :: "link \<Rightarrow> segment list \<Rightarrow> chunk list" where
  "assigned_chunks k ss = concat (map (\<lambda>s. case subseg s k of None \<Rightarrow> [] | Some b \<Rightarrow> ss_chunks b) ss)"

lemma assigned_chunks_simps [simp]:
  "assigned_chunks k [] = []"
  "assigned_chunks k (s # ss) =
     (case subseg s k of None \<Rightarrow> [] | Some b \<Rightarrow> ss_chunks b) @ assigned_chunks k ss"
  by (simp_all add: assigned_chunks_def)

lemma next_chunk_in_find:
  "next_chunk_in k cur ss = find (\<lambda>c. start_byte c > cur) (assigned_chunks k ss)"
  by (induction k cur ss rule: next_chunk_in.induct)
     (auto split: option.splits simp: find_Some_append find_None_append)

lemma assigned_sizes_chunks:
  assumes "\<forall>s \<in> set ss. sub_ok s k"
  shows "assigned_sizes k ss = total_size (assigned_chunks k ss)"
  using assms by (induction ss) (auto simp: sub_ok_def split: option.splits)

section \<open>The in-order offset: its meaning\<close>

definition other_starts :: "link \<Rightarrow> int option \<Rightarrow> segment list \<Rightarrow> int set" where
  "other_starts k current ss =
     {start_byte (hd (ss_chunks b)) | s b. s \<in> set ss \<and> Some (seg_id s) \<noteq> current \<and> subseg s k = Some b}"

lemma other_starts_Cons:
  "other_starts k current (s # ss) =
     (case subseg s k of
        Some b \<Rightarrow> (if Some (seg_id s) \<noteq> current then {start_byte (hd (ss_chunks b))} else {})
      | None \<Rightarrow> {}) \<union> other_starts k current ss"
  by (auto simp: other_starts_def split: option.splits)

lemma finite_other_starts [simp]: "finite (other_starts k current ss)"
  by (induction ss) (auto simp: other_starts_Cons split: option.splits, simp add: other_starts_def)

lemma Min_insert_min:
  fixes A :: "int set"
  assumes "finite A"
  shows "Min (insert (min b x) A) = Min (insert b (insert x A))"
proof (cases "A = {}")
  case False
  with assms have "Min (insert (min b x) A) = min (min b x) (Min A)"
    and "Min (insert b (insert x A)) = min b (min x (Min A))" by (simp_all add: Min_insert)
  then show ?thesis by (simp add: min.assoc)
qed simp

text \<open>A subsegment is never empty.\<close>

definition has_first :: "segment \<Rightarrow> link \<Rightarrow> bool" where
  "has_first s k \<longleftrightarrow> (\<forall>b. subseg s k = Some b \<longrightarrow> ss_chunks b \<noteq> [])"

lemma first_start_ok: "has_first s k \<Longrightarrow> subseg s k = Some b \<Longrightarrow> first_start s k = Inr (start_byte (hd (ss_chunks b)))"
  by (cases "ss_chunks b") (auto simp: first_start_def has_first_def)

lemma min_start_Min:
  assumes "\<forall>s \<in> set ss. has_first s k"
  shows "min_start k current b ss = Inr (Min (insert b (other_starts k current ss)))"
  using assms
proof (induction ss arbitrary: b)
  case Nil
  then show ?case by (simp add: other_starts_def)
next
  case (Cons s ss)
  show ?case
  proof (cases "subseg s k")
    case None
    with Cons show ?thesis by (simp add: other_starts_Cons)
  next
    case (Some c)
    let ?x = "start_byte (hd (ss_chunks c))"
    have f: "first_start s k = Inr ?x" using Cons.prems Some by (intro first_start_ok) auto
    show ?thesis
    proof (cases "Some (seg_id s) = current")
      case True
      with Cons Some show ?thesis by (simp add: other_starts_Cons)
    next
      case False
      let ?O = "other_starts k current ss"
      have m: "(if ?x < b then ?x else b) = min b ?x" by (simp add: min_def)
      have "min_start k current b (s # ss) = min_start k current (min b ?x) ss"
        using False Some f by (simp add: m)
      also have "\<dots> = Inr (Min (insert (min b ?x) ?O))" using Cons by simp
      also have "Min (insert (min b ?x) ?O) = Min (insert b (insert ?x ?O))"
        by (rule Min_insert_min) simp
      also have "insert ?x ?O = other_starts k current (s # ss)"
        using False Some by (simp add: other_starts_Cons)
      finally show ?thesis .
    qed
  qed
qed

text \<open>
  The bytes connection \<open>k\<close> still has to download: the rest of its current chunk and the
  subsegments of the segments other than its current one.
\<close>

definition pending_starts :: "proc \<Rightarrow> link \<Rightarrow> int set" where
  "pending_starts p k = insert (currentbyte (conn p k))
     (other_starts k (connection (offset_info p) k) (segs (offset_info p)))"

lemma min_start_of_Min:
  "conn_ok p k \<Longrightarrow> \<forall>s \<in> set (segs (offset_info p)). has_first s k \<Longrightarrow>
   min_start_of p k = Inr (Min (pending_starts p k))"
  by (simp add: min_start_of_def min_start_Min pending_starts_def)

lemma mark_idle_simps [simp]:
  "conn (mark_idle p) = conn p" "conf (mark_idle p) = conf p" "g_size (mark_idle p) = g_size p"
  "inorder_offset (mark_idle p) = inorder_offset p" "conn_ok (mark_idle p) = conn_ok p"
  "segs (offset_info (mark_idle p)) = segs (offset_info p)"
  "connection (offset_info (mark_idle p)) = connection (offset_info p)"
  "bytes_done (mark_idle p) = bytes_done p"
  by (simp_all add: mark_idle_def upd_off_def conn_ok_def fun_eq_iff)

lemma mark_idle_idle:
  "conn_ok p k \<Longrightarrow> conn_idle (offset_info (mark_idle p)) k \<longleftrightarrow> currentbyte (conn p k) = lastbyte (conn p k) + 1"
  by (simp add: mark_idle_def upd_off_def)

lemma pending_starts_mark_idle [simp]: "pending_starts (mark_idle p) = pending_starts p"
  by (simp add: pending_starts_def fun_eq_iff)

lemma update_inorder_offset_both_active:
  assumes "conn_ok p WIFI" "\<forall>s \<in> set (segs (offset_info p)). \<forall>k. has_first s k"
    and "\<forall>k. currentbyte (conn p k) \<noteq> lastbyte (conn p k) + 1"
    and "update_inorder_offset p = Inr p'"
  shows "inorder_offset p' = Min (pending_starts p LTE \<union> pending_starts p WIFI)"
proof -
  have idle: "\<not> conn_idle (offset_info (mark_idle p)) k" for k
    using assms(1,3) by (simp add: mark_idle_idle conn_ok_LTE)
  have m: "min_start_of (mark_idle p) k = Inr (Min (pending_starts p k))" for k
    using assms(1,2) min_start_of_Min [of "mark_idle p" k] by (simp add: conn_ok_LTE)
  have ne: "finite (pending_starts p k)" "pending_starts p k \<noteq> {}" for k
    by (simp_all add: pending_starts_def)
  have "find_inorder_offset (mark_idle p)
      = Inr (min (Min (pending_starts p LTE)) (Min (pending_starts p WIFI)))"
    by (simp add: find_inorder_offset_def is_using_only_one_link_def idle m min_def)
  moreover have "Min (pending_starts p LTE \<union> pending_starts p WIFI)
      = min (Min (pending_starts p LTE)) (Min (pending_starts p WIFI))"
    using ne by (simp add: Min_Un)
  ultimately show ?thesis
    using assms(4) by (auto simp: update_inorder_offset_def Let_def bindR_eq_Inr)
qed

lemma update_inorder_offset_mono:
  "update_inorder_offset p = Inr p' \<Longrightarrow> inorder_offset p \<le> inorder_offset p'"
  by (auto simp: update_inorder_offset_def Let_def bindR_eq_Inr)

lemma update_inorder_offset_frame:
  assumes "update_inorder_offset p = Inr p'"
  shows "conn p' = conn p" "segs (offset_info p') = segs (offset_info p)"
    "connection (offset_info p') = connection (offset_info p)" "bytes_done p' = bytes_done p"
  using assms by (auto simp: update_inorder_offset_def Let_def bindR_eq_Inr)

section \<open>The bottleneck\<close>

text \<open>
  In single-link use, once the connection has received its subsegment but for the last byte,
  the search (which wants a chunk with \<open>last_byte > currentbyte\<close>) finds nothing.
\<close>

lemma chunk_being_dwnd_none:
  assumes "segs (offset_info p) = s # ss" "subseg s k = Some b" "conn_ok p k"
    and "\<forall>c \<in> set (ss_chunks b). last_byte c \<le> currentbyte (conn p k)"
  shows "get_chunk_being_dwnd_by_conn p k = Inr None"
  using assms
  by (auto simp: get_chunk_being_dwnd_by_conn_def get_segment_being_dwnd_by_conn_def conn_at_def find_None_iff
      bindR_def)

lemma get_bn_chunk_info_link:
  assumes "get_bn_chunk_info p cur = Inr (c, n, k)" "\<not> is_using_only_one_link p"
  shows "k = cur \<and> get_next_chunk_dwnd_by_conn p cur = Inr (Some c) \<and> n = csize c
       \<or> k = other cur \<and> get_chunk_being_dwnd_by_conn p (other cur) = Inr (Some c)
         \<and> n = last_byte c - currentbyte (conn p (other cur)) + 1"
proof -
  obtain nx ot where no: "get_next_chunk_dwnd_by_conn p cur = Inr nx"
      "get_chunk_being_dwnd_by_conn p (other cur) = Inr ot"
    using assms(1) unfolding get_bn_chunk_info_def by (auto elim!: bindR_InrE)
  then show ?thesis
    using assms by (cases nx; cases ot) (auto simp: get_bn_chunk_info_def bindR_eq_Inr split: if_splits)
qed

end
