(* ===== verification/Samples.thy ===== *)
theory Samples
  imports Types
begin

text \<open>
  A concrete configuration and a concrete download of a 100 byte file over two connections,
  at which the witnesses of the theorems evaluate the definitions.
\<close>

definition sample_conf :: conf_t where
  "sample_conf = \<lparr>default_filename = ''default'', strip_cgi_parameters = 1, connection_timeout = 45,
     reconnect_delay = 20, num_connections = 2, buffer_size = 16, verbose = 1, alternate_output = 0,
     interfaces = [], search_timeout = 10, search_threads = 3, search_amount = 15, search_top = 3,
     add_header_count = 0, add_header = [], user_agent = ''GreenBag 2.4 (Linux)'',
     num_of_segments = 0, initial_chunk_rate = (\<lambda>k. if k = LTE then 3 else 1), qos_kbps = 8,
     fixed_segment_mode = 1, fixed_subsegment_mode = 1, minimum_energy_mode = 0,
     ewma_factor = Fin (1 / 2), BW_factor_for_mode = Fin 1, BW_factor_for_stage = Fin 1,
     log_file = '''', fixed_segment_size_KB = 1, recovery_mode = 0, recovery_decision_factor = Fin 1\<rparr>"

definition sample_http :: http_t where
  "sample_http = \<lparr>h_host = ''video.org'', h_auth = '''', h_request = '''', h_headers = '''',
     h_firstbyte = 0, h_lastbyte = 0, h_status = 206, h_fd = 5\<rparr>"

definition sample_conn :: conn_t where
  "sample_conn = \<lparr>proto = 1, port = 80, c_host = ''video.org'', c_dir = ''/m/'', c_file = ''a.mp4'',
     c_user = '''', c_pass = '''', c_http = sample_http, c_size = 100, currentbyte = 0, lastbyte = 29,
     c_fd = 5, enabled = True, supported = True, last_transfer = 0, local_if = '''', c_state = False,
     c_bytes_done = 0, c_start_time = Fin 0, c_bytes_per_second = 30, ewma_bytes_per_second = 30,
     pipeline_requests_sent = False, last_segment_flag = False\<rparr>"

definition sample_offsets :: offset_info where
  "sample_offsets = \<lparr>segs = [], num_segments = 0, segment_count = 0, completed_segment_count = 0,
     connection = (\<lambda>_. None), init_seg_size = 40, single_link_mode_flag = False,
     conn_idle = (\<lambda>_. False), last_seg_offset = 0, fast_conn = LTE, remaining_chunks = []\<rparr>"

definition sample :: proc where
  "sample = \<lparr>conn = (\<lambda>_. sample_conn), conf = sample_conf, filename = ''a.mp4'',
     g_url = ''http://video.org:80/m/a.mp4'', g_start_time = Fin 0, finish_time = 0, bytes_done = 0,
     g_start_byte = 0, g_size = 100, g_bytes_per_second = 0, ready = 0, messages = [], run = True,
     finish = False, last_downloaded_byte = 0, qos_bytes_per_second = 1000, qos_bytes = 0,
     qos_start_time = Fin 0, qos_start_flag = False, offset_info = sample_offsets,
     inorder_offset = 0, num_recoveries = 0, outfile = (\<lambda>_. None), rx = (\<lambda>_. []), wire = [],
     thread = (\<lambda>_. False), st_link_mode = 0, st_num_est_qmiss = 0, st_lte_state = 0,
     st_tail_start = Fin 0, st_num_vframe = 0, st_last_num_vframe = 0, st_last_recorded = Fin 0,
     st_video_duration = Fin 0, tick = 0\<rparr>"

text \<open>An environment with a clock of one second per question and a player that decodes frames.\<close>

definition sample_env :: env where
  "sample_env = \<lparr>env_time = (\<lambda>n. Fin (of_nat n)), env_player_pos = (\<lambda>n. Fin 1),
     env_vframes = (\<lambda>n. Some (Some (int n + 1))), env_connect = (\<lambda>n. (5, '''')),
     env_read = (\<lambda>n. 16), env_select = (\<lambda>n. Some (\<lambda>_. True)), env_write = (\<lambda>n. 1000),
     env_thread = (\<lambda>n. True)\<rparr>"

lemmas sample_defs = sample_def sample_conf_def sample_http_def sample_conn_def sample_offsets_def
  sample_env_def

end
