(* ===== verification/Layout_Theorems.thy ===== *)
theory Layout_Theorems
  imports Position Samples
begin

text \<open>
  The theorems about the layout of the file: the sort of the chunks, the list of segments, the
  division of a segment between the connections, the in-order offset and the bottleneck.
\<close>

section \<open>Chunks\<close>

text \<open>C10: \<open>sorting_chunks\<close>, a selection sort that relinks nodes, is the stable sort by the first
  byte: nothing is lost or duplicated and chunks that start at the same byte keep their order.\<close>

theorem sorting_chunks_stable: "sorting_chunks cs = sort_key start_byte cs"
  by (rule sorting_chunks_eq_sort_key)

section \<open>Segments\<close>

text \<open>C36: \<open>add_new_segment\<close> on a well-formed list with at least one chunk succeeds, appends one
  segment with the sorted chunks under a fresh id, keeps the list well-formed and every
  connection pointer valid, and raises \<open>last_seg_offset\<close> to the end of the highest chunk.\<close>

theorem add_new_segment_appends:
  assumes "wf_segs i" "wf_conns i" "cs \<noteq> []"
  shows "\<exists>i' s. add_new_segment i r cs n = Inr (i', seg_id s) \<and> segs i' = segs i @ [s]
    \<and> seg_chunks s = sort_key start_byte cs \<and> seg_size s = n \<and> recovery_segment s = r
    \<and> (\<forall>t \<in> set (segs i). seg_id t < seg_id s) \<and> wf_segs i' \<and> wf_conns i'
    \<and> last_seg_offset i' = max (last_seg_offset i) (last_byte (last (sort_key start_byte cs)))"
proof -
  obtain i' q where a: "add_new_segment i r cs n = Inr (i', q)"
    by (simp add: add_new_segment_Inr [OF assms(1,3)])
  note a' = a [unfolded add_new_segment_Inr [OF assms(1,3)]]
  have "\<forall>t \<in> set (segs i). seg_id t < segment_count i + 1"
    using assms(1) by (auto simp: wf_segs_def)
  then show ?thesis
    using a a' add_new_segment_wf [OF assms(1) a] add_new_segment_conns [OF assms(1,2) a]
    by (intro exI [of _ i'] exI [of _ "last (segs i')"]) (auto simp: sorting_chunks_eq_sort_key)
qed

theorem add_new_segment_appends_witness:
  "\<exists>i' s. add_new_segment empty_offset_info False [mk_chunk 5 2, mk_chunk 0 5] 7 = Inr (i', seg_id s)
    \<and> segs i' = segs empty_offset_info @ [s]
    \<and> seg_chunks s = sort_key start_byte [mk_chunk 5 2, mk_chunk 0 5] \<and> seg_size s = 7
    \<and> recovery_segment s = False
    \<and> (\<forall>t \<in> set (segs empty_offset_info). seg_id t < seg_id s) \<and> wf_segs i' \<and> wf_conns i'
    \<and> last_seg_offset i' = max (last_seg_offset empty_offset_info)
        (last_byte (last (sort_key start_byte [mk_chunk 5 2, mk_chunk 0 5])))"
  by (rule add_new_segment_appends) simp_all

text \<open>C37: the loop that frees finished segments removes exactly the finished ones at the head,
  counts them, and leaves a well-formed list with valid connection pointers.\<close>

theorem delete_finished_heads_frees:
  assumes "wf_segs i" "wf_conns i"
  shows "segs (delete_finished_heads i) = dropWhile seg_finished (segs i)
    \<and> completed_segment_count (delete_finished_heads i)
        = completed_segment_count i + int (length (takeWhile seg_finished (segs i)))
    \<and> wf_segs (delete_finished_heads i) \<and> wf_conns (delete_finished_heads i)"
  using assms
  by (simp add: delete_finished_heads_segs delete_finished_heads_count delete_finished_heads_wf
      delete_finished_heads_conns)

definition finished_sample :: offset_info where
  "finished_sample = empty_offset_info\<lparr>num_segments := 1, segment_count := 1, last_seg_offset := 9,
     segs := [\<lparr>seg_id = 1, recovery_segment = False, seg_chunks = [mk_chunk 0 10], seg_size = 10,
               subseg = (\<lambda>_. None)\<rparr>]\<rparr>"

theorem delete_finished_heads_frees_witness:
  "segs (delete_finished_heads finished_sample) = dropWhile seg_finished (segs finished_sample)
    \<and> completed_segment_count (delete_finished_heads finished_sample)
        = completed_segment_count finished_sample
          + int (length (takeWhile seg_finished (segs finished_sample)))
    \<and> wf_segs (delete_finished_heads finished_sample) \<and> wf_conns (delete_finished_heads finished_sample)"
  by (rule delete_finished_heads_frees)
     (simp_all add: finished_sample_def empty_offset_info_def wf_segs_def wf_conns_def)

text \<open>\<open>get_first_next_segment_assigned_to_conn\<close> answers with the first later segment in which
  the connection has a subsegment, and with NULL exactly when there is none.\<close>

theorem get_first_next_finds:
  assumes "wf_segs i" "segs i = pre @ s # post"
  shows "get_first_next_segment_assigned_to_conn i (Some (seg_id s)) k
    = Inr (map_option seg_id (find (\<lambda>t. subseg t k \<noteq> None) post))"
proof -
  have d: "distinct (map seg_id (segs i))" using assms(1) strict_sorted_iff by (auto simp: wf_segs_def)
  have "after_seg (pre @ s # post) (seg_id s) = post" if "distinct (map seg_id (pre @ s # post))"
    using that by (induction pre) auto
  then show ?thesis
    using d assms seg_at_ok [OF assms(1), of s]
    by (simp add: get_first_next_segment_assigned_to_conn_def)
qed

definition three_segments :: offset_info where
  "three_segments = empty_offset_info\<lparr>num_segments := 3, segment_count := 3, last_seg_offset := 29,
     segs := map (\<lambda>n. \<lparr>seg_id = n, recovery_segment = False, seg_chunks = [mk_chunk (10 * n - 10) 10],
       seg_size = 10, subseg = (\<lambda>k. if k = LTE \<and> n = 2 then None
         else Some \<lparr>ss_chunks = [mk_chunk (10 * n - (if k = LTE then 10 else 5)) 5], ss_size = 5\<rparr>)\<rparr>) [1, 2, 3]\<rparr>"

theorem get_first_next_finds_witness:
  "get_first_next_segment_assigned_to_conn three_segments (Some 1) LTE = Inr (Some 3)"
proof -
  let ?s = "hd (segs three_segments)" and ?p = "tl (segs three_segments)"
  have "get_first_next_segment_assigned_to_conn three_segments (Some (seg_id ?s)) LTE
      = Inr (map_option seg_id (find (\<lambda>t. subseg t LTE \<noteq> None) ?p))"
    by (rule get_first_next_finds [where pre = "[]"])
       (simp_all add: three_segments_def empty_offset_info_def wf_segs_def)
  then show ?thesis by (simp add: three_segments_def)
qed

section \<open>Dividing a segment\<close>


definition one_segment :: proc where
  "one_segment = sample\<lparr>offset_info := sample_offsets\<lparr>num_segments := 1, segment_count := 1,
     last_seg_offset := 39, segs := [\<lparr>seg_id = 1, recovery_segment = False,
       seg_chunks = [mk_chunk 0 10, mk_chunk 10 30], seg_size = 40, subseg = (\<lambda>_. None)\<rparr>]\<rparr>\<rparr>"


text \<open>with one connection (\<open>-n 1\<close>, or a server without ranges) \<open>get_fast_conn_index\<close> reads
  \<open>conn[1]\<close> past the array that \<open>gb_new\<close> allocated, and with it every division of a segment.\<close>

theorem single_connection_out_of_bounds:
  assumes "num_connections (conf p) = 1" "segs (offset_info p) \<noteq> []"
  shows "add_new_subsegment p k t a m = Inl OutOfBounds"
  using assms get_fast_conn_index_single [of p]
  by (simp add: add_new_subsegment_def conn_ok_def Let_def)

theorem single_connection_out_of_bounds_witness:
  "add_new_subsegment (one_segment\<lparr>conf := sample_conf\<lparr>num_connections := 1\<rparr>\<rparr>) LTE 3 1 1 = Inl OutOfBounds"
  by (rule single_connection_out_of_bounds) (simp_all add: one_segment_def)

section \<open>Position\<close>

text \<open>C15: with both connections at work, the in-order offset is the smallest byte that some
  connection still has to download, and it never moves back.\<close>

theorem update_inorder_offset_least:
  assumes "conn_ok p WIFI" "\<forall>s \<in> set (segs (offset_info p)). \<forall>k. has_first s k"
    and "\<forall>k. currentbyte (conn p k) \<noteq> lastbyte (conn p k) + 1"
    and "update_inorder_offset p = Inr p'"
  shows "inorder_offset p' = Min (pending_starts p LTE \<union> pending_starts p WIFI)
    \<and> inorder_offset p \<le> inorder_offset p'"
  using update_inorder_offset_both_active [OF assms] update_inorder_offset_mono [OF assms(4)] by simp

definition two_at_work :: proc where
  "two_at_work = sample\<lparr>conn := (\<lambda>k. sample_conn\<lparr>currentbyte := (if k = LTE then 2 else 7),
       lastbyte := (if k = LTE then 4 else 9)\<rparr>),
     offset_info := three_segments\<lparr>connection := (\<lambda>_. Some 1)\<rparr>\<rparr>"

theorem update_inorder_offset_least_witness:
  "\<exists>p'. update_inorder_offset two_at_work = Inr p'
    \<and> inorder_offset p' = Min (pending_starts two_at_work LTE \<union> pending_starts two_at_work WIFI)
    \<and> inorder_offset two_at_work \<le> inorder_offset p'"
proof -
  have "\<exists>p'. update_inorder_offset two_at_work = Inr p'"
    by (simp add: update_inorder_offset_def find_inorder_offset_def is_using_only_one_link_def mark_idle_def
        upd_off_def min_start_of_def first_start_def two_at_work_def three_segments_def sample_defs
        conn_ok_def Let_def mk_chunk_def)
  then obtain p' where r: "update_inorder_offset two_at_work = Inr p'" ..
  have "inorder_offset p' = Min (pending_starts two_at_work LTE \<union> pending_starts two_at_work WIFI)
    \<and> inorder_offset two_at_work \<le> inorder_offset p'"
    by (rule update_inorder_offset_least [OF _ _ _ r])
       (auto simp: two_at_work_def three_segments_def sample_defs conn_ok_def has_first_def)
  with r show ?thesis by blast
qed

text \<open>outside single-link use the bottleneck is either the next chunk of the finishing
  connection, counted whole, or the chunk the other connection is in, counted from its current
  byte.\<close>

theorem get_bn_chunk_info_cases:
  assumes "get_bn_chunk_info p cur = Inr (c, n, k)" "\<not> is_using_only_one_link p"
  shows "k = cur \<and> get_next_chunk_dwnd_by_conn p cur = Inr (Some c) \<and> n = csize c
       \<or> k = other cur \<and> get_chunk_being_dwnd_by_conn p (other cur) = Inr (Some c)
         \<and> n = last_byte c - currentbyte (conn p (other cur)) + 1"
  using assms by (rule get_bn_chunk_info_link)

theorem get_bn_chunk_info_cases_witness:
  "\<exists>c n k. get_bn_chunk_info two_at_work LTE = Inr (c, n, k)
    \<and> (k = LTE \<and> get_next_chunk_dwnd_by_conn two_at_work LTE = Inr (Some c) \<and> n = csize c
       \<or> k = other LTE \<and> get_chunk_being_dwnd_by_conn two_at_work (other LTE) = Inr (Some c)
         \<and> n = last_byte c - currentbyte (conn two_at_work (other LTE)) + 1)"
proof -
  have "\<exists>c n k. get_bn_chunk_info two_at_work LTE = Inr (c, n, k)"
    by (simp add: get_bn_chunk_info_def get_next_chunk_dwnd_by_conn_def get_chunk_being_dwnd_by_conn_def
        get_segment_being_dwnd_by_conn_def is_using_only_one_link_def two_at_work_def three_segments_def
        sample_defs conn_at_def conn_ok_def Let_def mk_chunk_def empty_offset_info_def)
  then obtain c n k where r: "get_bn_chunk_info two_at_work LTE = Inr (c, n, k)" by blast
  have "\<not> is_using_only_one_link two_at_work"
    by (simp add: is_using_only_one_link_def two_at_work_def three_segments_def empty_offset_info_def)
  from get_bn_chunk_info_cases [OF r this] r show ?thesis by blast
qed

text \<open>in single-link use the search for the chunk being downloaded wants a chunk that ends
  strictly after the current byte; at the last byte of the last chunk it finds none, and the
  code then reads through the NULL it returned.\<close>

theorem bn_chunk_null_deref:
  assumes "is_using_only_one_link p" "conn_ok p cur" "conn_ok p (other cur)"
    and "segs (offset_info p) = s # ss" "subseg s cur = Some b"
    and "\<forall>c \<in> set (ss_chunks b). last_byte c \<le> currentbyte (conn p cur)"
  shows "get_bn_chunk_info p cur = Inl NullDeref"
proof -
  have n: "\<exists>x. get_next_chunk_dwnd_by_conn p cur = Inr x"
    using assms(2) by (simp add: get_next_chunk_dwnd_by_conn_def conn_at_def)
  have o: "\<exists>y. get_chunk_being_dwnd_by_conn p (other cur) = Inr y"
    using assms(3) by (auto simp: get_chunk_being_dwnd_by_conn_def get_segment_being_dwnd_by_conn_def
        conn_at_def find_Some_iff split: option.splits dest!: find_SomeD)
  have c: "get_chunk_being_dwnd_by_conn p cur = Inr None"
    using assms(4,5,2,6) by (rule chunk_being_dwnd_none)
  from n o show ?thesis using assms(1) by (auto simp: get_bn_chunk_info_def c)
qed

theorem bn_chunk_null_deref_witness:
  "get_bn_chunk_info (two_at_work\<lparr>conn := (\<lambda>_. sample_conn\<lparr>currentbyte := 4, lastbyte := 4\<rparr>),
     offset_info := three_segments\<lparr>conn_idle := (\<lambda>k. k = WIFI)\<rparr>\<rparr>) LTE = Inl NullDeref"
  by (rule bn_chunk_null_deref [where s = "hd (segs three_segments)" and ss = "tl (segs three_segments)"
        and b = "\<lparr>ss_chunks = [mk_chunk 0 5], ss_size = 5\<rparr>"])
     (simp_all add: two_at_work_def three_segments_def sample_defs is_using_only_one_link_def conn_ok_def)

end
