(* ===== verification/Player.thy ===== *)
theory Player
  imports Position
begin

text \<open>
  The video player as the scheduler sees it (\<^verbatim>\<open>player_time.c\<close>, and \<open>mark_qos_start_time\<close> of
  \<^verbatim>\<open>gb.c\<close>): whether it is playing, judged from two readings of its frame counter, its
  position, and how long the downloaded bytes and the whole video last.
\<close>

section \<open>Operations\<close>

definition UNKNOWN_PLAYER_STATE :: int where "UNKNOWN_PLAYER_STATE = - 1"
definition PLAYER_PAUSED :: int where "PLAYER_PAUSED = 0"
definition PLAYER_PLAYING :: int where "PLAYER_PLAYING = 1"

text \<open>
  \<open>fps <= LOW_FPS_THRESHOLD\<close> (0) is the pause test. \<open>num_vframe_decoded\<close> is static: when the
  player's output holds no count, the last one stands.
\<close>

definition get_player_state :: "env \<Rightarrow> proc \<Rightarrow> int \<times> proc" where
  "get_player_state E p =
     (let p1 = p\<lparr>tick := Suc (tick p)\<rparr> in
      case env_vframes E (tick p) of
        None \<Rightarrow> (UNKNOWN_PLAYER_STATE, p1)
      | Some r \<Rightarrow>
          (let num = (case r of None \<Rightarrow> st_num_vframe p1 | Some n \<Rightarrow> n);
               (now, p2) = gettime E p1;
               fps = of_ll (num - st_last_num_vframe p2) / (now - st_last_recorded p2)
           in (if fps \<le> of_ll 0 then PLAYER_PAUSED else PLAYER_PLAYING,
               p2\<lparr>st_num_vframe := num, st_last_num_vframe := num, st_last_recorded := now\<rparr>)))"

definition estimate_cur_player_pos_offset :: "env \<Rightarrow> proc \<Rightarrow> (int \<times> proc) res" where
  "estimate_cur_player_pos_offset E p =
     (let (pos, p1) = get_cur_player_pos E p
      in bindR (cast_ll (pos * of_ll (qos_bytes_per_second p1))) (\<lambda>n. Inr (n, p1)))"

definition get_remaining_playable_time :: "env \<Rightarrow> proc \<Rightarrow> (dbl \<times> proc) res" where
  "get_remaining_playable_time E p =
     bindR (update_last_downloaded_byte p) (\<lambda>p1.
       let (pos, p2) = get_cur_player_pos E p1
       in Inr (of_ll (last_downloaded_byte p1) / of_ll (qos_bytes_per_second p1) - pos, p2))"

text \<open>\<open>video_duration\<close> is static: it is computed while it is 0.0 and kept from then on.\<close>

definition get_remaining_playback_time :: "env \<Rightarrow> proc \<Rightarrow> dbl \<times> proc" where
  "get_remaining_playback_time E p =
     (let p1 = (if dbl_eq (st_video_duration p) (of_ll 0)
                then p\<lparr>st_video_duration := of_ll (g_size p) / of_ll (qos_bytes_per_second p)\<rparr>
                else p);
          (pos, p2) = get_cur_player_pos E p1
      in (st_video_duration p1 - pos, p2))"

definition mark_qos_start_time :: "env \<Rightarrow> proc \<Rightarrow> proc" where
  "mark_qos_start_time E p =
     (let (now, p1) = gettime E p in
      if qos_start_flag p1 then p1
      else let (pos, p2) = get_cur_player_pos E p1 in
        if pos > of_ll 0 then p2\<lparr>qos_start_time := now, qos_start_flag := True\<rparr> else p2)"

section \<open>What they change\<close>

text \<open>
  Asking the player changes the frame counters, the video duration and the tick, nothing that
  the download works on: the \<open>core\<close> of the process is the same.
\<close>

definition same_core :: "proc \<Rightarrow> proc \<Rightarrow> bool" where
  "same_core p q \<longleftrightarrow>
     conn p = conn q \<and> conf p = conf q \<and> bytes_done p = bytes_done q \<and> g_size p = g_size q
     \<and> ready p = ready q \<and> run p = run q \<and> segs (offset_info p) = segs (offset_info q)
     \<and> connection (offset_info p) = connection (offset_info q)
     \<and> num_segments (offset_info p) = num_segments (offset_info q)
     \<and> segment_count (offset_info p) = segment_count (offset_info q)
     \<and> completed_segment_count (offset_info p) = completed_segment_count (offset_info q)
     \<and> last_seg_offset (offset_info p) = last_seg_offset (offset_info q)
     \<and> init_seg_size (offset_info p) = init_seg_size (offset_info q)
     \<and> remaining_chunks (offset_info p) = remaining_chunks (offset_info q)
     \<and> conn_idle (offset_info p) = conn_idle (offset_info q)
     \<and> inorder_offset p = inorder_offset q \<and> outfile p = outfile q \<and> rx p = rx q \<and> wire p = wire q"

lemma same_core_refl [simp, intro]: "same_core p p"
  by (simp add: same_core_def)

lemma same_core_trans [trans]: "same_core p q \<Longrightarrow> same_core q r \<Longrightarrow> same_core p r"
  by (simp add: same_core_def)

lemma same_core_tick [simp]: "same_core p (q\<lparr>tick := n\<rparr>) \<longleftrightarrow> same_core p q"
  by (simp add: same_core_def)

named_theorems core_intros \<open>operations that leave the core unchanged\<close>

lemma gettime_core [core_intros]: "same_core p (snd (gettime E p))"
  by (simp add: gettime_def)

lemma get_cur_player_pos_core [core_intros]: "same_core p (snd (get_cur_player_pos E p))"
  by (simp add: get_cur_player_pos_def)

lemma get_player_state_core [core_intros]: "same_core p (snd (get_player_state E p))"
  by (simp add: get_player_state_def gettime_def same_core_def Let_def split: option.splits)

lemma get_remaining_playable_time_core [core_intros]:
  "get_remaining_playable_time E p = Inr (t, q) \<Longrightarrow> same_core p q"
  by (auto simp: get_remaining_playable_time_def update_last_downloaded_byte_def same_core_def
        get_cur_player_pos_def bindR_eq_Inr split: if_splits)

lemma get_remaining_playback_time_core [core_intros]:
  "same_core p (snd (get_remaining_playback_time E p))"
  by (simp add: get_remaining_playback_time_def get_cur_player_pos_def same_core_def Let_def)

lemma mark_qos_start_time_core [core_intros]: "same_core p (mark_qos_start_time E p)"
  by (simp add: mark_qos_start_time_def gettime_def get_cur_player_pos_def same_core_def Let_def)

section \<open>What they answer\<close>

lemma get_player_state_cases:
  "fst (get_player_state E p) \<in> {UNKNOWN_PLAYER_STATE, PLAYER_PAUSED, PLAYER_PLAYING}"
  by (auto simp: get_player_state_def gettime_def Let_def split: option.splits)

text \<open>
  While the clock advances, the player counts as playing exactly when it decoded a frame since
  the last reading.
\<close>

lemma get_player_state_playing:
  assumes "env_vframes E (tick p) = Some (Some n)"
    and "env_time E (Suc (tick p)) = Fin t" "st_last_recorded p = Fin u" "u < t"
  shows "fst (get_player_state E p) = PLAYER_PLAYING \<longleftrightarrow> n > st_last_num_vframe p"
proof -
  have "0 < t - u" using assms(4) by simp
  then have "(of_int (n - st_last_num_vframe p) / (t - u) \<le> 0) \<longleftrightarrow> n - st_last_num_vframe p \<le> 0"
    by (simp only: divide_le_0_iff of_int_le_0_iff) auto
  then show ?thesis
    using assms by (simp add: get_player_state_def gettime_def Let_def of_ll_def
        PLAYER_PLAYING_def PLAYER_PAUSED_def)
qed

lemma get_remaining_playback_time_fresh:
  assumes "st_video_duration p = Fin 0" "0 < qos_bytes_per_second p"
  shows "fst (get_remaining_playback_time E p)
    = Fin (of_int (g_size p) / of_int (qos_bytes_per_second p)) - env_player_pos E (tick p)"
  using assms by (simp add: get_remaining_playback_time_def get_cur_player_pos_def dbl_eq_def of_ll_def)

lemma get_remaining_playback_time_stale:
  assumes "st_video_duration p = Fin d" "d \<noteq> 0"
  shows "fst (get_remaining_playback_time E p) = Fin d - env_player_pos E (tick p)"
  using assms by (simp add: get_remaining_playback_time_def get_cur_player_pos_def dbl_eq_def of_ll_def)

end
