(* ===== verification/Machine.thy ===== *)
theory Machine
  imports Prelude
begin

text \<open>
  State machines: the states reachable from the initial ones by a step relation, and the
  interface under which an invariant holds in all of them. The radio model and the download
  loop are instances.
\<close>

inductive reach :: "('s \<Rightarrow> bool) \<Rightarrow> ('s \<Rightarrow> 's \<Rightarrow> bool) \<Rightarrow> 's \<Rightarrow> bool"
  for init :: "'s \<Rightarrow> bool" and step :: "'s \<Rightarrow> 's \<Rightarrow> bool" where
  start: "init s \<Longrightarrow> reach init step s"
| step: "reach init step s \<Longrightarrow> step s t \<Longrightarrow> reach init step t"

locale machine =
  fixes init :: "'s \<Rightarrow> bool"
    and step :: "'s \<Rightarrow> 's \<Rightarrow> bool"
    and inv :: "'s \<Rightarrow> bool"
  assumes init_inv: "init s \<Longrightarrow> inv s"
    and step_inv: "step s t \<Longrightarrow> inv s \<Longrightarrow> inv t"
begin

lemma reach_inv: "reach init step s \<Longrightarrow> inv s"
  by (induction rule: reach.induct) (auto intro: init_inv step_inv)

lemma steps_inv: "step\<^sup>*\<^sup>* s t \<Longrightarrow> inv s \<Longrightarrow> inv t"
  by (induction rule: rtranclp_induct) (auto intro: step_inv)

end

text \<open>
  A machine with a quantity that no step decreases: it is at least as large at the end of a
  run as at its start.
\<close>

locale monotone_machine = machine +
  fixes meas :: "'s \<Rightarrow> int"
  assumes step_mono: "step s t \<Longrightarrow> inv s \<Longrightarrow> meas s \<le> meas t"
begin

lemma steps_mono: "step\<^sup>*\<^sup>* s t \<Longrightarrow> inv s \<Longrightarrow> meas s \<le> meas t"
proof (induction rule: rtranclp_induct)
  case (step t u)
  have "inv t" using step.hyps(1) step.prems by (rule steps_inv)
  then have "meas t \<le> meas u" using step.hyps(2) by (intro step_mono)
  with step show ?case by simp
qed simp

end

text \<open>A run with the number of its steps that count as active.\<close>

inductive counted_run :: "('s \<Rightarrow> 's \<Rightarrow> bool) \<Rightarrow> ('s \<Rightarrow> 's \<Rightarrow> bool) \<Rightarrow> nat \<Rightarrow> 's \<Rightarrow> 's \<Rightarrow> bool"
  for step :: "'s \<Rightarrow> 's \<Rightarrow> bool" and active :: "'s \<Rightarrow> 's \<Rightarrow> bool" where
  none: "counted_run step active 0 s s"
| one_more: "counted_run step active n s t \<Longrightarrow> step t u \<Longrightarrow> counted_run step active (if active t u then Suc n else n) s u"

text \<open>
  A machine whose quantity is bounded and grows in every active step, but for one that ends the
  activity: the number of active steps is bounded.
\<close>

locale progress_machine = monotone_machine +
  fixes bound :: "'s \<Rightarrow> int"
    and active :: "'s \<Rightarrow> 's \<Rightarrow> bool"
    and over :: "'s \<Rightarrow> bool"
  assumes meas_bound: "inv s \<Longrightarrow> meas s \<le> bound s"
    and bound_step: "step s t \<Longrightarrow> inv s \<Longrightarrow> bound t = bound s"
    and over_step: "step s t \<Longrightarrow> inv s \<Longrightarrow> over s \<Longrightarrow> over t"
    and active_not_over: "active s t \<Longrightarrow> \<not> over s"
    and active_grows: "step s t \<Longrightarrow> inv s \<Longrightarrow> active s t \<Longrightarrow> meas s < meas t \<or> over t"
begin

lemma counted_run_inv: "counted_run step active n s t \<Longrightarrow> inv s \<Longrightarrow> inv t \<and> bound t = bound s"
  by (induction rule: counted_run.induct) (auto intro: step_inv simp: bound_step)

lemma active_steps_grow:
  "counted_run step active n s t \<Longrightarrow> inv s \<Longrightarrow> int n \<le> meas t - meas s + (if over t then 1 else 0)"
proof (induction rule: counted_run.induct)
  case (one_more n s t u)
  have t: "inv t" using counted_run_inv [OF one_more.hyps(1)] one_more.prems by simp
  show ?case
    using one_more step_mono [OF one_more.hyps(2) t] over_step [OF one_more.hyps(2) t]
      active_grows [OF one_more.hyps(2) t] active_not_over [of t u]
    by (auto split: if_splits)
qed simp

lemma active_steps_bounded: "counted_run step active n s t \<Longrightarrow> inv s \<Longrightarrow> int n \<le> bound s - meas s + 1"
  using active_steps_grow [of n s t] counted_run_inv [of n s t] meas_bound [of t] by (auto split: if_splits)

end

end
