(* ===== verification/Energy.thy ===== *)
theory Energy
  imports Player Machine
begin

text \<open>
  The energy-saving mode (\<^verbatim>\<open>energy.c\<close>, the desktop configuration: \<open>OS_ANDROID\<close> is not
  defined): the radio state machine, the energy a link mode costs, the ranking of the modes,
  the deadline tests and \<open>choose_link_mode\<close>. A link mode is C's number: \<open>DUAL_LINK_MODE\<close> 0,
  \<open>LTE_SINGLE_LINK_MODE\<close> 1, \<open>WIFI_SINGLE_LINK_MODE\<close> 2.
\<close>

section \<open>Constants\<close>

definition DUAL_LINK_MODE :: int where "DUAL_LINK_MODE = 0"
definition LTE_SINGLE_LINK_MODE :: int where "LTE_SINGLE_LINK_MODE = 1"
definition WIFI_SINGLE_LINK_MODE :: int where "WIFI_SINGLE_LINK_MODE = 2"

definition LTE_IDLE_STATE :: int where "LTE_IDLE_STATE = 0"
definition LTE_TAIL_STATE :: int where "LTE_TAIL_STATE = 1"
definition LTE_ACTIVE_STATE :: int where "LTE_ACTIVE_STATE = 2"

definition LTE_TAIL_STATE_TIMEOUT_SEC :: dbl where "LTE_TAIL_STATE_TIMEOUT_SEC = Fin (112 / 10)"

definition MAX_NUM_EST_QMISS :: int where "MAX_NUM_EST_QMISS = 2"

lemmas mode_defs = DUAL_LINK_MODE_def LTE_SINGLE_LINK_MODE_def WIFI_SINGLE_LINK_MODE_def
lemmas lte_state_defs = LTE_IDLE_STATE_def LTE_TAIL_STATE_def LTE_ACTIVE_STATE_def

section \<open>Goodput of a link mode\<close>

text \<open>Both links together are credited with \<open>DUAL_LINK_BAG_EFF\<close> (0.8) of the sum.\<close>

definition estimate_link_mode_goodput :: "proc \<Rightarrow> int \<Rightarrow> int res" where
  "estimate_link_mode_goodput p link_mode =
     (if link_mode = LTE_SINGLE_LINK_MODE then bindR (conn_at p LTE) (\<lambda>c. Inr (ewma_bytes_per_second c))
      else if link_mode = WIFI_SINGLE_LINK_MODE then bindR (conn_at p WIFI) (\<lambda>c. Inr (ewma_bytes_per_second c))
      else if link_mode = DUAL_LINK_MODE then
        bindR (conn_at p LTE) (\<lambda>a. bindR (conn_at p WIFI) (\<lambda>b.
          cast_ll (Fin (8 / 10) * of_ll (ewma_bytes_per_second a + ewma_bytes_per_second b))))
      else Inl AssertFail)"

definition download_time_next_portion_link_mode :: "proc \<Rightarrow> int \<Rightarrow> int \<Rightarrow> dbl res" where
  "download_time_next_portion_link_mode p n link_mode =
     bindR (estimate_link_mode_goodput p link_mode) (\<lambda>g. Inr (of_ll n / of_ll g))"

section \<open>The LTE radio\<close>

text \<open>
  \<open>update_lte_state\<close>: the state and the start of the tail are static; the goodput is
  converted to \<open>int\<close>. The result is the new state and the tail's start time.
\<close>

definition update_lte_state :: "env \<Rightarrow> proc \<Rightarrow> (int \<times> dbl \<times> proc) res" where
  "update_lte_state E p =
     (let (now, p1) = gettime E p in
      bindR (conn_at p1 LTE) (\<lambda>c.
        let goodput = to_int (c_bytes_per_second c);
            s = st_lte_state p1;
            p2 = (if s = LTE_IDLE_STATE then
                    (if goodput > 0 then p1\<lparr>st_lte_state := LTE_ACTIVE_STATE\<rparr> else p1)
                  else if s = LTE_TAIL_STATE then
                    (if goodput > 0 then p1\<lparr>st_lte_state := LTE_ACTIVE_STATE\<rparr>
                     else if now - st_tail_start p1 > LTE_TAIL_STATE_TIMEOUT_SEC
                          then p1\<lparr>st_lte_state := LTE_IDLE_STATE\<rparr> else p1)
                  else if s = LTE_ACTIVE_STATE then
                    (if goodput = 0
                     then p1\<lparr>st_lte_state := LTE_TAIL_STATE, st_tail_start := now\<rparr> else p1)
                  else p1)
        in Inr (st_lte_state p2, st_tail_start p2, p2)))"

section \<open>Energy of a link mode\<close>

definition LTE_POW_ALPHA :: dbl where "LTE_POW_ALPHA = Fin (1672 / 100)"
definition LTE_POW_BETA :: dbl where "LTE_POW_BETA = Fin (20222 / 10)"
definition WIFI_POW_ALPHA :: dbl where "WIFI_POW_ALPHA = Fin (2419 / 100)"
definition WIFI_POW_BETA :: dbl where "WIFI_POW_BETA = Fin (3609 / 10)"
definition LTE_TAIL_POW :: dbl where "LTE_TAIL_POW = Fin 1350"

definition one_mil :: int where "one_mil = 1000000"

text \<open>\<open>(double) (alpha * mbps + beta) * bytes / goodput\<close>\<close>

definition link_energy :: "dbl \<Rightarrow> dbl \<Rightarrow> int \<Rightarrow> int \<Rightarrow> dbl" where
  "link_energy alpha beta goodput bytes =
     (alpha * (of_ll goodput / of_ll one_mil) + beta) * of_ll bytes / of_ll goodput"

definition transfer_energy :: "int \<Rightarrow> int \<Rightarrow> int \<Rightarrow> int \<Rightarrow> dbl res" where
  "transfer_energy link_mode lte wifi data_size =
     (if link_mode = DUAL_LINK_MODE then
        bindR (chk_ll (lte * data_size)) (\<lambda>m. bindR (cdiv m (lte + wifi)) (\<lambda>sub_lte.
          Inr (link_energy LTE_POW_ALPHA LTE_POW_BETA lte sub_lte
               + link_energy WIFI_POW_ALPHA WIFI_POW_BETA wifi (data_size - sub_lte))))
      else if link_mode = LTE_SINGLE_LINK_MODE then
        Inr (link_energy LTE_POW_ALPHA LTE_POW_BETA lte data_size)
      else if link_mode = WIFI_SINGLE_LINK_MODE then
        Inr (link_energy WIFI_POW_ALPHA WIFI_POW_BETA wifi data_size)
      else Inl AssertFail)"

definition remaining_tail :: "env \<Rightarrow> int \<Rightarrow> dbl \<Rightarrow> proc \<Rightarrow> (dbl \<times> proc) res" where
  "remaining_tail E s tail_start p =
     (if s = LTE_ACTIVE_STATE then Inr (LTE_TAIL_STATE_TIMEOUT_SEC, p)
      else if s = LTE_TAIL_STATE then let (now, p1) = gettime E p in Inr (now - tail_start, p1)
      else if s = LTE_IDLE_STATE then Inr (of_ll 0, p)
      else Inl AssertFail)"

definition get_energy_consumption :: "env \<Rightarrow> proc \<Rightarrow> int \<Rightarrow> int \<Rightarrow> int \<Rightarrow> int \<Rightarrow> (dbl \<times> proc) res" where
  "get_energy_consumption E p link_mode lte wifi data_size =
     bindR (update_lte_state E p) (\<lambda>(s, tail_start, p1).
     bindR (assertR (lte \<noteq> 0 \<or> wifi \<noteq> 0)) (\<lambda>_.
       if data_size > 0 then
         bindR (transfer_energy link_mode lte wifi data_size) (\<lambda>e.
         bindR (remaining_tail E s tail_start p1) (\<lambda>(t, p2).
           Inr (e + LTE_TAIL_POW * t, p2)))
       else Inr (of_ll 0, p1)))"

section \<open>Ranking the modes\<close>

function min_index_loop :: "dbl list \<Rightarrow> nat \<Rightarrow> nat \<Rightarrow> nat \<Rightarrow> nat" where
  "min_index_loop a n i best =
     (if i < n then min_index_loop a n (Suc i) (if a ! i < a ! best then i else best) else best)"
  by pat_completeness auto
termination by (relation "measure (\<lambda>(a, n, i, best). n - i)") auto

function max_index_loop :: "dbl list \<Rightarrow> nat \<Rightarrow> nat \<Rightarrow> nat \<Rightarrow> nat" where
  "max_index_loop a n i best =
     (if i < n then max_index_loop a n (Suc i) (if a ! i > a ! best then i else best) else best)"
  by pat_completeness auto
termination by (relation "measure (\<lambda>(a, n, i, best). n - i)") auto

declare min_index_loop.simps [simp del] max_index_loop.simps [simp del]

definition get_min_value_index_double_array :: "dbl list \<Rightarrow> nat \<Rightarrow> nat" where
  "get_min_value_index_double_array a n = min_index_loop a n 1 0"

definition get_max_value_index_double_array :: "dbl list \<Rightarrow> nat \<Rightarrow> nat" where
  "get_max_value_index_double_array a n = max_index_loop a n 1 0"

text \<open>The three entries of \<open>energy_sorted_link_modes\<close>, which the caller zeroes.\<close>

definition get_three_sorted_index :: "dbl list \<Rightarrow> nat list" where
  "get_three_sorted_index e =
     (let lo = get_min_value_index_double_array e 3;
          hi = get_max_value_index_double_array e 3
      in [lo, (case find (\<lambda>m. m \<noteq> lo \<and> m \<noteq> hi) [0, 1, 2] of Some m \<Rightarrow> m | None \<Rightarrow> 0), hi])"

definition get_energy_sorted_link_modes :: "env \<Rightarrow> proc \<Rightarrow> int \<Rightarrow> (nat list \<times> proc) res" where
  "get_energy_sorted_link_modes E p next_seg_size =
     bindR (estimate_link_mode_goodput p LTE_SINGLE_LINK_MODE) (\<lambda>lte.
     bindR (estimate_link_mode_goodput p WIFI_SINGLE_LINK_MODE) (\<lambda>wifi.
     bindR (get_energy_consumption E p DUAL_LINK_MODE lte wifi next_seg_size) (\<lambda>(e0, p0).
     bindR (get_energy_consumption E p0 LTE_SINGLE_LINK_MODE lte 0 next_seg_size) (\<lambda>(e1, p1).
     bindR (get_energy_consumption E p1 WIFI_SINGLE_LINK_MODE 0 wifi next_seg_size) (\<lambda>(e2, p2).
       Inr (get_three_sorted_index [e0, e1, e2], p2))))))"

section \<open>Deadline tests\<close>

definition does_qmiss_until_next_portion_in_link_mode :: "env \<Rightarrow> proc \<Rightarrow> int \<Rightarrow> int \<Rightarrow> (bool \<times> proc) res" where
  "does_qmiss_until_next_portion_in_link_mode E p n link_mode =
     bindR (estimate_link_mode_goodput p link_mode) (\<lambda>g.
       let t = of_ll n / of_ll g;
           (remaining, p1) = get_remaining_playback_time E p
       in if single_link_mode_flag (offset_info p1)
          then Inr (t > Fin (9 / 10) * remaining + of_ll 0, p1)
          else Inr (t > Fin (8 / 10) * remaining + of_ll 0, p1))"

definition does_qmiss_until_the_end_of_file_in_dual_link_mode :: "env \<Rightarrow> proc \<Rightarrow> (bool \<times> proc) res" where
  "does_qmiss_until_the_end_of_file_in_dual_link_mode E p =
     (let file_duration = of_ll (g_size p) / of_ll (qos_bytes_per_second p);
          (pos, p1) = get_cur_player_pos E p
      in bindR (estimate_link_mode_goodput p1 DUAL_LINK_MODE) (\<lambda>g.
         bindR (get_remaining_file_size p1) (\<lambda>r.
           Inr (of_ll r / of_ll g > (file_duration - pos) - of_ll 2, p1))))"

definition does_qos_miss_until_bn_chunk :: "env \<Rightarrow> proc \<Rightarrow> link \<Rightarrow> (bool \<times> proc) res" where
  "does_qos_miss_until_bn_chunk E p cur =
     bindR (get_bn_chunk_info p cur) (\<lambda>(bn, bn_size, k).
     bindR (conn_at p k) (\<lambda>c.
     bindR (get_remaining_playable_time E p) (\<lambda>(playable, p1).
       Inr (playable < Fin 1 * (of_ll bn_size / of_ll (c_bytes_per_second c)) + Fin (1 / 2), p1))))"

text \<open>
  The two earlier tests that the code keeps but no longer calls. Their messages ask for the
  player's position once more.
\<close>

definition infinite_time :: dbl where "infinite_time = Fin (10 ^ 10)"

definition does_qmiss_until_next_portion_in_link_mode_old ::
  "env \<Rightarrow> proc \<Rightarrow> int \<Rightarrow> int \<Rightarrow> (bool \<times> proc) res" where
  "does_qmiss_until_next_portion_in_link_mode_old E p n link_mode =
     bindR (get_start_byte_next_segment (offset_info p)) (\<lambda>start.
     bindR (estimate_link_mode_goodput p link_mode) (\<lambda>g.
     bindR (estimate_cur_player_pos_offset E p) (\<lambda>(pos, p1).
       let t = of_ll n / of_ll g;
           position_diff = start - pos;
           diff = qos_bytes_per_second p1 - g
       in if n < 0 then Inr (False, p1)
          else let deadline = (if diff > 0 then of_ll position_diff / of_ll diff else infinite_time)
            in bindR (estimate_cur_player_pos_offset E p1) (\<lambda>(_, p2).
                 Inr (if single_link_mode_flag (offset_info p2)
                      then t > Fin (9 / 10) * deadline else t > Fin (8 / 10) * deadline, p2)))))"

definition does_qos_miss_until_bn_chunk_old :: "env \<Rightarrow> proc \<Rightarrow> link \<Rightarrow> (bool \<times> proc) res" where
  "does_qos_miss_until_bn_chunk_old E p cur =
     bindR (get_bn_chunk_info p cur) (\<lambda>(bn, bn_size, k).
     bindR (conn_at p k) (\<lambda>c.
     bindR (estimate_cur_player_pos_offset E p) (\<lambda>(pos, p1).
       let t = of_ll bn_size / of_ll (c_bytes_per_second c);
           bytes_diff = (last_byte bn - bn_size) - pos
       in if bytes_diff < 0 then Inr (True, p1)
          else let diff = to_int (qos_bytes_per_second p1 - c_bytes_per_second c);
                   deadline = (if diff > 0 then of_ll bytes_diff / of_ll diff else infinite_time)
            in bindR (estimate_cur_player_pos_offset E p1) (\<lambda>(_, p2).
                 Inr (\<not> t < Fin (9 / 10) * deadline, p2)))))"

section \<open>Choosing the link mode\<close>

text \<open>
  The loop over the ranked modes. Both branches of its body end in \<open>break\<close>, so the first mode
  decides.
\<close>

fun try_link_modes :: "env \<Rightarrow> proc \<Rightarrow> int \<Rightarrow> nat list \<Rightarrow> proc res" where
  "try_link_modes E p remaining [] = Inr p"
| "try_link_modes E p remaining (m # ms) =
     (if int m \<noteq> DUAL_LINK_MODE then
        bindR (does_qmiss_until_next_portion_in_link_mode E p remaining (int m)) (\<lambda>(miss, p1).
          Inr (if \<not> miss then p1\<lparr>st_link_mode := int m\<rparr> else p1))
      else Inr (p\<lparr>st_link_mode := DUAL_LINK_MODE\<rparr>))"

definition consider_link_modes :: "env \<Rightarrow> proc \<Rightarrow> int \<Rightarrow> proc res" where
  "consider_link_modes E p remaining =
     bindR (get_energy_sorted_link_modes E p remaining) (\<lambda>(ms, p1). try_link_modes E p1 remaining ms)"

definition choose_link_mode_playing :: "env \<Rightarrow> proc \<Rightarrow> link \<Rightarrow> int \<Rightarrow> proc res" where
  "choose_link_mode_playing E p index remaining =
     (if st_link_mode p = LTE_SINGLE_LINK_MODE \<or> st_link_mode p = WIFI_SINGLE_LINK_MODE then
        bindR (does_qmiss_until_next_portion_in_link_mode E p remaining (st_link_mode p)) (\<lambda>(miss, p1).
          if miss then
            (let p2 = p1\<lparr>st_num_est_qmiss := st_num_est_qmiss p1 + 1\<rparr> in
             if st_num_est_qmiss p2 \<ge> MAX_NUM_EST_QMISS
             then Inr (p2\<lparr>st_num_est_qmiss := 0, st_link_mode := DUAL_LINK_MODE\<rparr>)
             else Inr p2)
          else consider_link_modes E (p1\<lparr>st_num_est_qmiss := 0\<rparr>) remaining)
      else
        bindR (does_qos_miss_until_bn_chunk E p index) (\<lambda>(miss, p1).
          if \<not> miss then consider_link_modes E p1 remaining else Inr p1))"

definition choose_link_mode :: "env \<Rightarrow> proc \<Rightarrow> link \<Rightarrow> (int \<times> proc) res" where
  "choose_link_mode E p index =
     bindR (get_remaining_file_size p) (\<lambda>remaining.
       if remaining \<le> 0 then Inr (st_link_mode p, p)
       else let (player, p1) = get_player_state E p in
         bindR (if player = PLAYER_PLAYING then choose_link_mode_playing E p1 index remaining
                else Inr (p1\<lparr>st_link_mode := DUAL_LINK_MODE\<rparr>)) (\<lambda>p2.
           Inr (st_link_mode p2,
                upd_off (\<lambda>i. i\<lparr>single_link_mode_flag := (st_link_mode p2 \<noteq> DUAL_LINK_MODE)\<rparr>) p2)))"

end
