(* ===== verification/Energy_Laws.thy ===== *)
theory Energy_Laws
  imports Energy
begin

text \<open>
  What the energy-saving mode guarantees: the radio follows its three-state machine, the
  ranking puts a cheapest mode first, the link mode and the single-link flag agree, and a
  single-link mode is left for a missed deadline only after two misses in a row.
\<close>

section \<open>The radio as an abstract machine\<close>

datatype radio = Radio_Idle | Radio_Tail dbl | Radio_Active

fun radio_next :: "radio \<Rightarrow> int \<Rightarrow> dbl \<Rightarrow> radio" where
  "radio_next Radio_Idle g now = (if g > 0 then Radio_Active else Radio_Idle)"
| "radio_next (Radio_Tail t) g now =
     (if g > 0 then Radio_Active
      else if now - t > LTE_TAIL_STATE_TIMEOUT_SEC then Radio_Idle else Radio_Tail t)"
| "radio_next Radio_Active g now = (if g = 0 then Radio_Tail now else Radio_Active)"

definition radio_of :: "proc \<Rightarrow> radio" where
  "radio_of p = (if st_lte_state p = LTE_IDLE_STATE then Radio_Idle
     else if st_lte_state p = LTE_TAIL_STATE then Radio_Tail (st_tail_start p) else Radio_Active)"

definition radio_valid :: "proc \<Rightarrow> bool" where
  "radio_valid p \<longleftrightarrow> st_lte_state p \<in> {LTE_IDLE_STATE, LTE_TAIL_STATE, LTE_ACTIVE_STATE}"

lemma update_lte_state_refines:
  assumes "update_lte_state E p = Inr (s, ts, q)" "radio_valid p"
  shows "radio_of q = radio_next (radio_of p) (to_int (c_bytes_per_second (conn p LTE))) (env_time E (tick p))"
    and "radio_valid q" and "s = st_lte_state q" and "ts = st_tail_start q"
    and "tick q = Suc (tick p)" and "same_core p q"
  using assms
  by (auto simp: update_lte_state_def gettime_def Let_def bindR_eq_Inr radio_of_def radio_valid_def
      same_core_def lte_state_defs split: if_splits)

text \<open>A run of the radio: the goodputs the scheduler sees, one call each.\<close>

fun lte_run :: "env \<Rightarrow> proc \<Rightarrow> int list \<Rightarrow> proc res" where
  "lte_run E p [] = Inr p"
| "lte_run E p (g # gs) =
     bindR (update_lte_state E (upd_conn LTE (\<lambda>c. c\<lparr>c_bytes_per_second := g\<rparr>) p))
       (\<lambda>(_, _, q). lte_run E q gs)"

inductive radio_step :: "radio \<times> rat \<Rightarrow> radio \<times> rat \<Rightarrow> bool" where
  "t \<le> u \<Longrightarrow> radio_step (r, t) (radio_next r g (Fin u), u)"

inductive_cases radio_stepE: "radio_step s s'"

definition radio_init :: "radio \<times> rat \<Rightarrow> bool" where
  "radio_init s \<longleftrightarrow> fst s = Radio_Idle"

text \<open>A tail never starts in the future.\<close>

definition radio_inv :: "radio \<times> rat \<Rightarrow> bool" where
  "radio_inv s \<longleftrightarrow> (\<forall>d. fst s = Radio_Tail d \<longrightarrow> (\<exists>x. d = Fin x \<and> x \<le> snd s))"

interpretation radio: monotone_machine radio_init radio_step radio_inv "\<lambda>s. \<lfloor>snd s\<rfloor>"
proof
  fix s t :: "radio \<times> rat"
  show "radio_init s \<Longrightarrow> radio_inv s" by (simp add: radio_init_def radio_inv_def)
  show "radio_inv t" if "radio_step s t" "radio_inv s"
  proof -
    from that(1) obtain r a g b where "s = (r, a)" "t = (radio_next r g (Fin b), b)" "a \<le> b"
      by (auto elim: radio_stepE)
    then show ?thesis using that(2) by (cases r) (force simp: radio_inv_def split: if_splits)+
  qed
  show "\<lfloor>snd s\<rfloor> \<le> \<lfloor>snd t\<rfloor>" if "radio_step s t"
    using that by (auto elim!: radio_stepE intro: floor_mono)
qed

lemma lte_run_steps:
  assumes "lte_run E p gs = Inr q" "radio_valid p"
    and "\<And>n. env_time E n = Fin (f n)" "mono f" "t \<le> f (tick p)"
  shows "\<exists>u. radio_step\<^sup>*\<^sup>* (radio_of p, t) (radio_of q, u) \<and> u \<le> f (tick q) \<and> radio_valid q"
  using assms(1,2,5)
proof (induction gs arbitrary: p t)
  case Nil
  then show ?case by auto
next
  case (Cons g gs)
  let ?p = "upd_conn LTE (\<lambda>c. c\<lparr>c_bytes_per_second := g\<rparr>) p"
  from Cons.prems(1) obtain s ts r where r: "update_lte_state E ?p = Inr (s, ts, r)" "lte_run E r gs = Inr q"
    by (auto simp: bindR_eq_Inr)
  have v: "radio_valid ?p" "radio_of ?p = radio_of p"
    using Cons.prems(2) by (simp_all add: radio_valid_def radio_of_def upd_conn_def)
  note ref = update_lte_state_refines [OF r(1) v(1)]
  have step: "radio_step (radio_of p, t) (radio_of r, f (tick p))"
    unfolding ref(1) v(2) assms(3) upd_conn_simps using Cons.prems(3) by (rule radio_step.intros)
  have "f (tick p) \<le> f (tick r)" using ref(5) assms(4) by (simp add: monoD)
  from Cons.IH [OF r(2) ref(2) this] obtain u where
    "radio_step\<^sup>*\<^sup>* (radio_of r, f (tick p)) (radio_of q, u)" "u \<le> f (tick q)" "radio_valid q" by blast
  with step show ?case by (meson converse_rtranclp_into_rtranclp)
qed

lemma lte_run_inv:
  assumes "lte_run E p gs = Inr q" "st_lte_state p = LTE_IDLE_STATE"
    and "\<And>n. env_time E n = Fin (f n)" "mono f"
  shows "radio_valid q" "radio_inv (radio_of q, f (tick q))"
proof -
  have v: "radio_valid p" "radio_of p = Radio_Idle"
    using assms(2) by (simp_all add: radio_valid_def radio_of_def)
  obtain u where u: "radio_step\<^sup>*\<^sup>* (radio_of p, f (tick p)) (radio_of q, u)" "u \<le> f (tick q)" "radio_valid q"
    using lte_run_steps [OF assms(1) v(1) assms(3,4), of "f (tick p)"] by auto
  show "radio_valid q" by (rule u(3))
  have "radio_inv (radio_of q, u)"
    using u(1) by (rule radio.steps_inv) (simp add: radio_inv_def v)
  with u(2) show "radio_inv (radio_of q, f (tick q))" by (force simp: radio_inv_def)
qed

text \<open>What the radio is, told from the goodputs alone: how many were zero at the end, and when these began.\<close>

definition silent :: "int list \<Rightarrow> nat" where
  "silent gs = length (takeWhile (\<lambda>g. g = 0) (rev gs))"

definition radio_after :: "(nat \<Rightarrow> rat) \<Rightarrow> int list \<Rightarrow> radio" where
  "radio_after f gs =
     (if silent gs = length gs then Radio_Idle else if silent gs = 0 then Radio_Active
      else let began = f (length gs - silent gs) in
        if Fin (f (length gs - 1)) - Fin began > LTE_TAIL_STATE_TIMEOUT_SEC then Radio_Idle else Radio_Tail (Fin began))"

lemma silent_snoc [simp]: "silent (gs @ [g]) = (if g = 0 then Suc (silent gs) else 0)"
  by (simp add: silent_def)

lemma silent_le: "silent gs \<le> length gs"
  using length_takeWhile_le [of "\<lambda>g. g = 0" "rev gs"] by (simp add: silent_def)

lemma radio_after_snoc:
  assumes "0 \<le> g" "mono f"
  shows "radio_next (radio_after f gs) g (Fin (f (length gs))) = radio_after f (gs @ [g])"
proof (cases "g = 0")
  case True
  have m: "f (length gs - 1) \<le> f (length gs)" using assms(2) by (simp add: monoD)
  consider "silent gs = length gs" | "silent gs = 0" "gs \<noteq> []" | "0 < silent gs" "silent gs < length gs"
    using silent_le [of gs] by fastforce
  then show ?thesis
    by cases (use True m in \<open>auto simp: radio_after_def Let_def LTE_TAIL_STATE_TIMEOUT_SEC_def\<close>)
next
  case False
  then show ?thesis using assms(1) by (cases "radio_after f gs") (simp_all add: radio_after_def)
qed

lemma lte_run_snoc: "lte_run E p (gs @ [g]) = bindR (lte_run E p gs) (\<lambda>q. lte_run E q [g])"
proof (induction gs arbitrary: p)
  case (Cons h gs)
  then show ?case by (auto simp: bindR_assoc intro!: bindR_cong)
qed simp

lemma lte_run_history:
  assumes "\<And>n. env_time E n = Fin (f n)" "mono f" "st_lte_state p = LTE_IDLE_STATE"
    and "lte_run E p gs = Inr q" "\<forall>g \<in> set gs. 0 \<le> g \<and> in_int g"
  shows "radio_of q = radio_after (\<lambda>n. f (tick p + n)) gs \<and> radio_valid q \<and> tick q = tick p + length gs"
  using assms(4,5)
proof (induction gs arbitrary: q rule: rev_induct)
  case Nil
  then show ?case using assms(3) by (auto simp: radio_of_def radio_valid_def radio_after_def silent_def)
next
  case (snoc g gs)
  then obtain r where r: "lte_run E p gs = Inr r" "lte_run E r [g] = Inr q" by (auto simp: lte_run_snoc bindR_eq_Inr)
  have IH: "radio_of r = radio_after (\<lambda>n. f (tick p + n)) gs" "radio_valid r" "tick r = tick p + length gs"
    using snoc.IH [OF r(1)] snoc.prems(2) by simp_all
  let ?r = "upd_conn LTE (\<lambda>c. c\<lparr>c_bytes_per_second := g\<rparr>) r"
  obtain s ts where u: "update_lte_state E ?r = Inr (s, ts, q)" using r(2) by (auto simp: bindR_eq_Inr)
  have v: "radio_valid ?r" "radio_of ?r = radio_of r" using IH(2) by (simp_all add: radio_valid_def radio_of_def upd_conn_def)
  have g: "0 \<le> g" "to_int g = g" using snoc.prems(2) by (simp_all add: to_int_id)
  have m: "mono (\<lambda>n. f (tick p + n))" using assms(2) by (auto simp: mono_def)
  show ?case
    using update_lte_state_refines [OF u v(1)] radio_after_snoc [OF g(1) m, of gs] IH
    by (simp add: v g assms(1))
qed

section \<open>The cheapest mode comes first\<close>

lemma min_index_3:
  "get_min_value_index_double_array [x, y, z] 3
     = (if z < (if y < x then y else x) then 2 else if y < x then 1 else 0)"
  by (simp add: get_min_value_index_double_array_def min_index_loop.simps numeral_3_eq_3 numeral_2_eq_2)

lemma max_index_3:
  "get_max_value_index_double_array [x, y, z] 3
     = (if (if x < y then y else x) < z then 2 else if x < y then 1 else 0)"
  by (simp add: get_max_value_index_double_array_def max_index_loop.simps numeral_3_eq_3 numeral_2_eq_2)

lemma three_sorted_index_sorted:
  fixes x y z :: dbl
  assumes "x \<noteq> NaN" "y \<noteq> NaN" "z \<noteq> NaN"
  shows "\<exists>a b c. get_three_sorted_index [x, y, z] = [a, b, c]
    \<and> [x, y, z] ! a \<le> [x, y, z] ! b \<and> [x, y, z] ! b \<le> [x, y, z] ! c
    \<and> (\<not> (x = y \<and> y = z) \<longrightarrow> set [a, b, c] = {0, 1, 2})"
proof -
  have c: "y < x \<and> \<not> x < y \<or> x < y \<and> \<not> y < x \<or> x = y"
    "z < y \<and> \<not> y < z \<or> y < z \<and> \<not> z < y \<or> y = z"
    "z < x \<and> \<not> x < z \<or> x < z \<and> \<not> z < x \<or> x = z"
    using assms by (cases x; cases y; cases z; auto)+
  show ?thesis
    using assms
    by (cases x; cases y; cases z)
       (auto simp: get_three_sorted_index_def min_index_3 max_index_3 Let_def)
qed

lemma three_sorted_index_ties: "x \<noteq> NaN \<Longrightarrow> get_three_sorted_index [x, x, x] = [0, 1, 0]"
  by (cases x) (simp_all add: get_three_sorted_index_def min_index_3 max_index_3)

lemma get_three_sorted_index_range: "set (get_three_sorted_index [x, y, z]) \<subseteq> {0, 1, 2}"
  by (auto simp: get_three_sorted_index_def min_index_3 max_index_3 Let_def
      split: option.splits dest!: find_SomeD)

section \<open>What choosing a mode changes\<close>

lemma update_lte_state_core [core_intros]: "update_lte_state E p = Inr (s, ts, q) \<Longrightarrow> same_core p q"
  by (auto simp: update_lte_state_def gettime_def Let_def bindR_eq_Inr same_core_def split: if_splits)

text \<open>The variables of \<open>choose_link_mode\<close> and the flag: the other functions leave them alone.\<close>

definition same_choice :: "proc \<Rightarrow> proc \<Rightarrow> bool" where
  "same_choice p q \<longleftrightarrow> st_link_mode p = st_link_mode q \<and> st_num_est_qmiss p = st_num_est_qmiss q
     \<and> single_link_mode_flag (offset_info p) = single_link_mode_flag (offset_info q)"

lemma same_choice_trans [trans]: "same_choice p q \<Longrightarrow> same_choice q r \<Longrightarrow> same_choice p r"
  by (simp add: same_choice_def)

lemma update_lte_state_choice: "update_lte_state E p = Inr (s, ts, q) \<Longrightarrow> same_choice p q"
  by (auto simp: update_lte_state_def gettime_def Let_def bindR_eq_Inr same_choice_def split: if_splits)

lemma remaining_tail_frame:
  "remaining_tail E s ts p = Inr (t, q) \<Longrightarrow> same_core p q \<and> same_choice p q"
  by (auto simp: remaining_tail_def gettime_def same_core_def same_choice_def split: if_splits)

lemma get_energy_consumption_frame:
  assumes "get_energy_consumption E p m a b n = Inr (e, q)"
  shows "same_core p q \<and> same_choice p q"
proof -
  from assms obtain s ts p1 where 1: "update_lte_state E p = Inr (s, ts, p1)"
    and "q = p1 \<or> (\<exists>t. remaining_tail E s ts p1 = Inr (t, q))"
    by (auto simp: get_energy_consumption_def bindR_eq_Inr split: if_splits)
  with update_lte_state_core [OF 1] update_lte_state_choice [OF 1] show ?thesis
    by (auto dest!: remaining_tail_frame intro: same_core_trans same_choice_trans)
qed

lemma get_energy_sorted_link_modes_frame:
  assumes "get_energy_sorted_link_modes E p n = Inr (ms, q)"
  shows "same_core p q \<and> same_choice p q \<and> ms \<noteq> [] \<and> set ms \<subseteq> {0, 1, 2}"
proof -
  from assms obtain x y z a b c d p0 p1 where
    "get_energy_consumption E p DUAL_LINK_MODE a b n = Inr (x, p0)"
    "get_energy_consumption E p0 LTE_SINGLE_LINK_MODE a 0 n = Inr (y, p1)"
    "get_energy_consumption E p1 WIFI_SINGLE_LINK_MODE 0 b n = Inr (z, q)"
    "ms = get_three_sorted_index [x, y, z]"
    by (auto simp: get_energy_sorted_link_modes_def bindR_eq_Inr)
  then show ?thesis
    using get_three_sorted_index_range [of x y z]
    by (auto dest!: get_energy_consumption_frame intro: same_core_trans same_choice_trans
        simp: get_three_sorted_index_def Let_def)
qed

lemma does_qmiss_frame:
  assumes "does_qmiss_until_next_portion_in_link_mode E p n m = Inr (b, q)"
  shows "same_core p q \<and> same_choice p q"
  using assms get_remaining_playback_time_core [of p E]
  by (auto simp: does_qmiss_until_next_portion_in_link_mode_def bindR_eq_Inr Let_def same_choice_def
      get_remaining_playback_time_def get_cur_player_pos_def split: if_splits prod.splits)

lemma does_qos_miss_until_bn_chunk_frame:
  assumes "does_qos_miss_until_bn_chunk E p cur = Inr (b, q)"
  shows "same_core p q \<and> same_choice p q"
proof -
  from assms obtain t where t: "get_remaining_playable_time E p = Inr (t, q)"
    by (auto simp: does_qos_miss_until_bn_chunk_def bindR_eq_Inr)
  then have "same_choice p q"
    by (auto simp: get_remaining_playable_time_def update_last_downloaded_byte_def same_choice_def
        get_cur_player_pos_def bindR_eq_Inr split: if_splits)
  with get_remaining_playable_time_core [OF t] show ?thesis by simp
qed

definition mode_ok :: "int \<Rightarrow> bool" where
  "mode_ok m \<longleftrightarrow> m \<in> {DUAL_LINK_MODE, LTE_SINGLE_LINK_MODE, WIFI_SINGLE_LINK_MODE}"

lemma same_core_statics [simp]:
  "same_core p (q\<lparr>st_link_mode := m\<rparr>) \<longleftrightarrow> same_core p q"
  "same_core p (q\<lparr>st_num_est_qmiss := n\<rparr>) \<longleftrightarrow> same_core p q"
  by (simp_all add: same_core_def)

lemma try_link_modes_result:
  assumes "try_link_modes E p r (m # ms) = Inr q"
  shows "same_core p q" "st_link_mode q = st_link_mode p \<or> st_link_mode q = int m"
    "int m = DUAL_LINK_MODE \<Longrightarrow> st_link_mode q = DUAL_LINK_MODE"
    "single_link_mode_flag (offset_info q) = single_link_mode_flag (offset_info p)"
proof -
  have "same_core p q \<and> (st_link_mode q = st_link_mode p \<or> st_link_mode q = int m)
    \<and> (int m = DUAL_LINK_MODE \<longrightarrow> st_link_mode q = DUAL_LINK_MODE)
    \<and> single_link_mode_flag (offset_info q) = single_link_mode_flag (offset_info p)"
  proof (cases "int m = DUAL_LINK_MODE")
    case True
    with assms have "q = p\<lparr>st_link_mode := DUAL_LINK_MODE\<rparr>" by simp
    with True show ?thesis by simp
  next
    case False
    with assms obtain b p1 where 1: "does_qmiss_until_next_portion_in_link_mode E p r (int m) = Inr (b, p1)"
      and q: "q = (if \<not> b then p1\<lparr>st_link_mode := int m\<rparr> else p1)" by (auto simp: bindR_eq_Inr)
    from does_qmiss_frame [OF 1] False show ?thesis by (simp add: q same_choice_def)
  qed
  then show "same_core p q" "st_link_mode q = st_link_mode p \<or> st_link_mode q = int m"
    "int m = DUAL_LINK_MODE \<Longrightarrow> st_link_mode q = DUAL_LINK_MODE"
    "single_link_mode_flag (offset_info q) = single_link_mode_flag (offset_info p)" by simp_all
qed

lemma consider_link_modes_result:
  assumes "consider_link_modes E p r = Inr q"
  shows "same_core p q \<and> (st_link_mode q = st_link_mode p \<or> mode_ok (st_link_mode q))"
proof -
  from assms obtain ms p1 where 1: "get_energy_sorted_link_modes E p r = Inr (ms, p1)"
    "try_link_modes E p1 r ms = Inr q" by (auto simp: consider_link_modes_def bindR_eq_Inr)
  note f = get_energy_sorted_link_modes_frame [OF 1(1)]
  then obtain m ms' where ms: "ms = m # ms'" "m \<in> {0, 1, 2}" by (cases ms) auto
  note t = try_link_modes_result [OF 1(2) [unfolded ms]]
  show ?thesis
    using f t(1,2) ms(2) same_core_trans [of p p1 q] by (auto simp: mode_ok_def mode_defs same_choice_def)
qed

lemma choose_link_mode_playing_result:
  assumes "choose_link_mode_playing E p k r = Inr q"
  shows "same_core p q \<and> (st_link_mode q = st_link_mode p \<or> mode_ok (st_link_mode q))"
proof (cases "st_link_mode p = LTE_SINGLE_LINK_MODE \<or> st_link_mode p = WIFI_SINGLE_LINK_MODE")
  case True
  with assms obtain b p1 where 1: "does_qmiss_until_next_portion_in_link_mode E p r (st_link_mode p) = Inr (b, p1)"
    by (auto simp: choose_link_mode_playing_def bindR_eq_Inr)
  note f = does_qmiss_frame [OF 1]
  let ?z = "p1\<lparr>st_num_est_qmiss := 0\<rparr>"
  have z: "same_core p ?z" "st_link_mode ?z = st_link_mode p"
    using f by (simp_all add: same_core_def same_choice_def)
  show ?thesis
  proof (cases b)
    case True
    with assms f 1 \<open>st_link_mode p = _ \<or> _\<close> show ?thesis
      by (auto simp: choose_link_mode_playing_def Let_def same_choice_def mode_ok_def split: if_splits)
  next
    case False
    with assms 1 \<open>st_link_mode p = _ \<or> _\<close> have "consider_link_modes E ?z r = Inr q"
      by (auto simp: choose_link_mode_playing_def)
    from consider_link_modes_result [OF this] z show ?thesis
      by (metis same_core_trans)
  qed
next
  case False
  with assms obtain b p1 where 1: "does_qos_miss_until_bn_chunk E p k = Inr (b, p1)"
    and 2: "(if \<not> b then consider_link_modes E p1 r else Inr p1) = Inr q"
    by (auto simp: choose_link_mode_playing_def bindR_eq_Inr)
  note f = does_qos_miss_until_bn_chunk_frame [OF 1]
  show ?thesis
  proof (cases b)
    case False
    with 2 have "consider_link_modes E p1 r = Inr q" by simp
    from consider_link_modes_result [OF this] f show ?thesis
      by (metis same_core_trans same_choice_def)
  qed (use 2 f in \<open>auto simp: same_choice_def\<close>)
qed

lemma choose_link_mode_result:
  assumes "choose_link_mode E p k = Inr (m, q)"
  shows "m = st_link_mode q" "same_core p q" "mode_ok (st_link_mode p) \<Longrightarrow> mode_ok m"
    "last_seg_offset (offset_info p) + 1 < g_size p \<Longrightarrow>
       single_link_mode_flag (offset_info q) \<longleftrightarrow> m \<noteq> DUAL_LINK_MODE"
proof -
  obtain r where r: "get_remaining_file_size p = Inr r"
    using assms by (auto simp: choose_link_mode_def bindR_eq_Inr)
  then have rv: "r = g_size p - (last_seg_offset (offset_info p) + 1)"
    by (auto simp: get_remaining_file_size_def get_start_byte_next_segment_def bindR_eq_Inr split: if_splits)
  obtain s p1 where s: "get_player_state E p = (s, p1)" by fastforce
  have s1: "same_core p p1" "st_link_mode p1 = st_link_mode p"
    using get_player_state_core [of p E] s
    by (auto simp: get_player_state_def gettime_def Let_def split: option.splits)
  let ?R = "m = st_link_mode q \<and> same_core p q \<and> (mode_ok (st_link_mode p) \<longrightarrow> mode_ok m)
    \<and> (0 < r \<longrightarrow> (single_link_mode_flag (offset_info q) \<longleftrightarrow> m \<noteq> DUAL_LINK_MODE))"
  have ?R
  proof (cases "r \<le> 0")
    case True
    with assms r show ?thesis by (auto simp: choose_link_mode_def)
  next
    case False
    with assms r s obtain p2 where
      2: "(if s = PLAYER_PLAYING then choose_link_mode_playing E p1 k r
           else Inr (p1\<lparr>st_link_mode := DUAL_LINK_MODE\<rparr>)) = Inr p2"
      and q: "m = st_link_mode p2"
        "q = upd_off (\<lambda>i. i\<lparr>single_link_mode_flag := (st_link_mode p2 \<noteq> DUAL_LINK_MODE)\<rparr>) p2"
      by (auto simp: choose_link_mode_def bindR_eq_Inr)
    have "same_core p1 p2 \<and> (st_link_mode p2 = st_link_mode p1 \<or> mode_ok (st_link_mode p2))"
    proof (cases "s = PLAYER_PLAYING")
      case True
      with 2 show ?thesis using choose_link_mode_playing_result by simp
    next
      case False
      with 2 show ?thesis by (auto simp: mode_ok_def)
    qed
    moreover have "same_core p2 q" "st_link_mode q = st_link_mode p2"
      by (simp_all add: q same_core_def upd_off_def)
    ultimately show ?thesis
      using s1 by (auto simp: q intro: same_core_trans)
  qed
  then show "m = st_link_mode q" "same_core p q" "mode_ok (st_link_mode p) \<Longrightarrow> mode_ok m"
    "last_seg_offset (offset_info p) + 1 < g_size p \<Longrightarrow>
       single_link_mode_flag (offset_info q) \<longleftrightarrow> m \<noteq> DUAL_LINK_MODE"
    using rv by auto
qed

end
