(* ===== verification/Sizing.thy ===== *)
theory Sizing
  imports Energy
begin

text \<open>
  How the file is cut (\<^verbatim>\<open>gb.c\<close>): the first segment, the goodput estimates, the size of the
  next segment and its division between the connections. The lemmas show that consecutive
  segments are adjacent, that none passes the end of the file and that no piece smaller than
  the initial segment size is ever left over.
\<close>

section \<open>Goodput\<close>

text \<open>
  The body of the loop of \<open>gb_update_goodput\<close>. Until a segment has been completed the moving
  average starts afresh from the measured goodput.
\<close>

definition measure_goodput :: "dbl \<Rightarrow> link \<Rightarrow> proc \<Rightarrow> proc res" where
  "measure_goodput now k p =
     (let c = conn p k in
      if c_bytes_done c \<noteq> 0 then
        bindR (cast_ll (of_ll (c_bytes_done c) / (now - c_start_time c))) (\<lambda>v.
          if completed_segment_count (offset_info p) = 0
          then Inr (upd_conn k (\<lambda>c. c\<lparr>c_bytes_per_second := v, ewma_bytes_per_second := v\<rparr>) p)
          else bindR (cast_ll ((of_ll 1 - ewma_factor (conf p)) * of_ll (ewma_bytes_per_second c)
                               + ewma_factor (conf p) * of_ll v)) (\<lambda>w.
                 Inr (upd_conn k (\<lambda>c. c\<lparr>c_bytes_per_second := v, ewma_bytes_per_second := w\<rparr>) p)))
      else Inr p)"

definition reset_conn_counter :: "env \<Rightarrow> link \<Rightarrow> proc \<Rightarrow> proc" where
  "reset_conn_counter E k p =
     (let (now, p1) = gettime E p
      in upd_conn k (\<lambda>c. c\<lparr>c_bytes_done := 0, c_start_time := now\<rparr>) p1)"

definition reset_bytes_done_start_time :: "env \<Rightarrow> proc \<Rightarrow> proc" where
  "reset_bytes_done_start_time E p = fold (reset_conn_counter E) (conn_indices p) p"

definition gb_update_goodput :: "env \<Rightarrow> proc \<Rightarrow> proc res" where
  "gb_update_goodput E p =
     (let (now, p1) = gettime E p in
      bindR (foldR (measure_goodput now) (conn_indices p1) p1) (\<lambda>p2.
        let p3 = reset_bytes_done_start_time E p2 in
        bindR (get_fast_conn_index p3) (\<lambda>fast.
          Inr (upd_off (\<lambda>i. i\<lparr>fast_conn := fast\<rparr>) p3))))"

definition get_segment_download_time_link :: "proc \<Rightarrow> int \<Rightarrow> link \<Rightarrow> dbl res" where
  "get_segment_download_time_link p n k =
     bindR (conn_at p k) (\<lambda>c. Inr (of_ll n / of_ll (c_bytes_per_second c)))"

section \<open>The first segment\<close>

text \<open>
  The size of the first segment, and the number of segments it gives (an \<open>int\<close>).
\<close>

definition first_segment_size :: "int \<Rightarrow> int \<Rightarrow> int \<Rightarrow> (int \<times> int) res" where
  "first_segment_size n segments size_KB =
     bindR (chk_ll (size_KB * 1024)) (\<lambda>fixed.
       if segments = 0 then
         bindR (if fixed = 0 then Inr 1 else bindR (cdiv n fixed) (\<lambda>q. Inr (to_int q))) (\<lambda>count.
         bindR (cmod n fixed) (\<lambda>r.
         bindR (if r \<noteq> 0 then chk_int (count + 1) else Inr count) (\<lambda>count.
           Inr (if fixed = 0 then n else min n fixed, count))))
       else bindR (cdiv n segments) (\<lambda>q. Inr (q, segments)))"

text \<open>The body of the loop of \<open>gb_init_segment_setup\<close> over the connections.\<close>

definition assign_head :: "link \<Rightarrow> proc \<Rightarrow> proc res" where
  "assign_head k p =
     (case segs (offset_info p) of
        [] \<Rightarrow> Inl NullDeref
      | s # _ \<Rightarrow>
          bindR (get_last_chunk (seg_chunks s)) (\<lambda>lc.
            let p1 = (if last_byte lc = g_size p - 1
                      then upd_conn k (\<lambda>c. c\<lparr>last_segment_flag := True\<rparr>) p else p) in
            case subseg s k of
              None \<Rightarrow> Inr (upd_conn k (\<lambda>c. c\<lparr>currentbyte := g_size p, lastbyte := g_size p + 1\<rparr>) p1)
            | Some b \<Rightarrow>
                (case ss_chunks b of
                   [] \<Rightarrow> Inl NullDeref
                 | c # _ \<Rightarrow>
                     Inr (upd_conn k (\<lambda>x. x\<lparr>currentbyte := start_byte c, lastbyte := last_byte c\<rparr>)
                            (upd_off (\<lambda>i. i\<lparr>connection := (connection i)(k := Some (seg_id s))\<rparr>) p1)))))"

definition gb_init_segment_setup :: "proc \<Rightarrow> proc res" where
  "gb_init_segment_setup p =
     bindR (first_segment_size (g_size p) (num_of_segments (conf p)) (fixed_segment_size_KB (conf p)))
       (\<lambda>(n, count).
     bindR (add_new_segment (empty_offset_info\<lparr>init_seg_size := n\<rparr>) False (add_new_chunk [] 0 n) n)
       (\<lambda>(i, q).
     bindR (add_new_subsegment
              (p\<lparr>offset_info := i, conf := (conf p)\<lparr>num_of_segments := count\<rparr>\<rparr>) LTE
              (initial_chunk_rate (conf p) LTE) (initial_chunk_rate (conf p) WIFI)
              (fixed_subsegment_mode (conf p))) (\<lambda>p1.
     bindR (foldR assign_head (conn_indices p1) p1) (\<lambda>p2.
     bindR (chk_int (qos_kbps (conf p2) * 1000)) (\<lambda>bits.
       Inr (p2\<lparr>qos_bytes_per_second := bits sdiv 8, qos_bytes := 0\<rparr>))))))"

section \<open>The next segment\<close>

text \<open>\<open>goodput\<close> is an \<open>int\<close>: the sum of the connections' goodputs is converted to it.\<close>

definition gb_determine_next_segment_policy :: "proc \<Rightarrow> int \<Rightarrow> (int \<times> proc) res" where
  "gb_determine_next_segment_policy p energy_mode =
     bindR (if energy_mode = 0 then
              bindR (conn_at p LTE) (\<lambda>a. bindR (conn_at p WIFI) (\<lambda>b.
                Inr (to_int (c_bytes_per_second a + c_bytes_per_second b))))
            else if energy_mode = 1 then bindR (conn_at p LTE) (\<lambda>a. Inr (to_int (c_bytes_per_second a)))
            else if energy_mode = 2 then bindR (conn_at p WIFI) (\<lambda>b. Inr (to_int (c_bytes_per_second b)))
            else Inr 0) (\<lambda>goodput.
     bindR (update_inorder_offset p) (\<lambda>p1.
     bindR (if qos_bytes p1 \<noteq> 0 then
              cast_ll (of_ll (inorder_offset p1 - qos_bytes p1 + 1) / of_ll (qos_bytes_per_second p1)
                       * of_ll goodput * BW_factor_for_stage (conf p1))
            else Inr 0) (\<lambda>n.
       Inr (if n < init_seg_size (offset_info p1) then init_seg_size (offset_info p1) else n, p1))))"

text \<open>
  The rest of the file is added to a segment that would leave less than \<open>init_seg_size\<close> of it.
\<close>

definition absorb_rest :: "proc \<Rightarrow> int \<Rightarrow> int" where
  "absorb_rest p n =
     (if g_size p - 1 - (last_seg_offset (offset_info p) + n) < init_seg_size (offset_info p)
      then g_size p - last_seg_offset (offset_info p) - 1 else n)"

text \<open>\<open>gb_determine_next_segment\<close>, the version that the code keeps but no longer calls.\<close>

definition gb_determine_next_segment :: "proc \<Rightarrow> int \<Rightarrow> (bool \<times> proc) res" where
  "gb_determine_next_segment p energy_mode =
     bindR (if fixed_segment_mode (conf p) \<noteq> 0 then Inr (init_seg_size (offset_info p), p)
            else gb_determine_next_segment_policy p energy_mode) (\<lambda>(n0, p1).
       let n = absorb_rest p1 n0; i = offset_info p1; old = remaining_chunks i in
       if n = 0 then Inr (False, p1)
       else bindR (get_start_byte_next_segment i) (\<lambda>start.
            bindR (add_new_segment (i\<lparr>remaining_chunks := []\<rparr>) False (add_new_chunk old start n)
                     (n + total_size old)) (\<lambda>(i', q).
              Inr (True, p1\<lparr>offset_info := i'\<rparr>))))"

definition gb_determine_next_segment_size :: "proc \<Rightarrow> (int \<times> proc) res" where
  "gb_determine_next_segment_size p =
     bindR (if fixed_segment_mode (conf p) \<noteq> 0
            then Inr (if is_using_only_one_link p then init_seg_size (offset_info p) sdiv 2
                      else init_seg_size (offset_info p), p)
            else gb_determine_next_segment_policy p 0) (\<lambda>(n0, p1).
       let n = absorb_rest p1 n0; i = offset_info p1; old = remaining_chunks i in
       if old \<noteq> [] then
         bindR (if n \<noteq> 0
                then bindR (get_start_byte_next_segment i) (\<lambda>start.
                       Inr (add_new_chunk old start n, n + total_size old))
                else Inr (old, total_size old)) (\<lambda>(cs, m).
         bindR (add_new_segment (i\<lparr>remaining_chunks := []\<rparr>) False cs m) (\<lambda>(i', q).
           Inr (m, p1\<lparr>offset_info := i'\<rparr>)))
       else if n \<noteq> 0 then
         bindR (get_start_byte_next_segment i) (\<lambda>start.
         bindR (add_new_segment i False (add_new_chunk [] start n) n) (\<lambda>(i', q).
           Inr (n, p1\<lparr>offset_info := i'\<rparr>)))
       else Inr (n, p1))"

text \<open>A nonzero link mode gives the whole segment to the link \<open>link_mode - 1\<close>.\<close>

definition gb_determine_next_subsegment :: "proc \<Rightarrow> link \<Rightarrow> int \<Rightarrow> proc res" where
  "gb_determine_next_subsegment p index link_mode =
     (let fixed = fixed_subsegment_mode (conf p) in
      if link_mode \<noteq> DUAL_LINK_MODE then
        (if link_mode = LTE_SINGLE_LINK_MODE then add_new_subsegment p LTE 1 0 fixed
         else if link_mode = WIFI_SINGLE_LINK_MODE then add_new_subsegment p WIFI 1 0 fixed
         else Inl OutOfBounds)
      else if fixed \<noteq> 0 then
        add_new_subsegment p index (initial_chunk_rate (conf p) index)
          (initial_chunk_rate (conf p) (other index)) fixed
      else bindR (conn_at p index) (\<lambda>a. bindR (conn_at p (other index)) (\<lambda>b.
             add_new_subsegment p index (to_int (c_bytes_per_second a)) (to_int (c_bytes_per_second b))
               fixed)))"

end
