(* ===== verification/Sizing_Laws.thy ===== *)
theory Sizing_Laws
  imports Sizing
begin

text \<open>
  What the cutting of the file guarantees: the next segment begins right after the last byte
  handed out, does not pass the end of the file and leaves either nothing or at least one
  initial segment; the first segment is divided between both connections; the moving average
  of the goodput stays between its old value and the new sample.
\<close>

section \<open>The next segment\<close>

lemma absorb_rest_bounds:
  assumes "0 \<le> n" "0 \<le> init_seg_size (offset_info p)" "last_seg_offset (offset_info p) < g_size p"
  shows "0 \<le> absorb_rest p n" and "last_seg_offset (offset_info p) + absorb_rest p n < g_size p"
    and "last_seg_offset (offset_info p) + absorb_rest p n = g_size p - 1
       \<or> init_seg_size (offset_info p) \<le> g_size p - 1 - (last_seg_offset (offset_info p) + absorb_rest p n)"
  using assms by (auto simp: absorb_rest_def)

lemma mk_chunk_bytes: "chunk_bytes (mk_chunk a n) = [a..a + n - 1]"
  by (simp add: chunk_bytes_def mk_chunk_def)

text \<open>What \<open>update_inorder_offset\<close> leaves alone, so that the size can be chosen after it.\<close>

lemma update_inorder_offset_keeps:
  assumes "update_inorder_offset p = Inr p'"
  obtains f x where "p' = p\<lparr>offset_info := (offset_info p)\<lparr>conn_idle := f\<rparr>, inorder_offset := x\<rparr>"
  using assms by (auto simp: update_inorder_offset_def Let_def bindR_eq_Inr mark_idle_def upd_off_def)

lemma policy_Inr:
  assumes "gb_determine_next_segment_policy p m = Inr (n, p')"
  obtains g r where "update_inorder_offset p = Inr p'"
    "(if qos_bytes p' \<noteq> 0
      then cast_ll (of_ll (inorder_offset p' - qos_bytes p' + 1) / of_ll (qos_bytes_per_second p')
                    * of_ll g * BW_factor_for_stage (conf p'))
      else Inr 0) = Inr r"
    "n = max r (init_seg_size (offset_info p'))"
  using assms unfolding gb_determine_next_segment_policy_def
proof (elim bindR_InrE, goal_cases)
  case (1 g p1 r)
  then have "p1 = p'" "n = max r (init_seg_size (offset_info p'))" by (auto simp: max_def)
  with 1 that [of g r] show thesis by metis
qed

lemma policy_keeps:
  assumes "gb_determine_next_segment_policy p m = Inr (n, p')"
  obtains f x where "p' = p\<lparr>offset_info := (offset_info p)\<lparr>conn_idle := f\<rparr>, inorder_offset := x\<rparr>"
    and "init_seg_size (offset_info p) \<le> n"
proof -
  obtain r where u: "update_inorder_offset p = Inr p'" and n: "n = max r (init_seg_size (offset_info p'))"
    using assms by (rule policy_Inr)
  show thesis using u by (rule update_inorder_offset_keeps) (use n in \<open>auto intro!: that\<close>)
qed

lemma policy_init_size:
  assumes "gb_determine_next_segment_policy p m = Inr (n, p')" "qos_bytes p = 0"
    "0 \<le> init_seg_size (offset_info p)"
  shows "n = init_seg_size (offset_info p)" and "update_inorder_offset p = Inr p'"
proof -
  obtain f x where "p' = p\<lparr>offset_info := (offset_info p)\<lparr>conn_idle := f\<rparr>, inorder_offset := x\<rparr>"
    using assms(1) by (rule policy_keeps)
  then have k: "qos_bytes p' = 0" "init_seg_size (offset_info p') = init_seg_size (offset_info p)"
    using assms(2) by simp_all
  from assms(1) show "n = init_seg_size (offset_info p)"
    by (rule policy_Inr) (use k assms(3) in simp)
  from assms(1) show "update_inorder_offset p = Inr p'" by (rule policy_Inr)
qed

text \<open>The state after a segment of \<open>n\<close> bytes was appended.\<close>

definition fresh_segment :: "offset_info \<Rightarrow> int \<Rightarrow> segment" where
  "fresh_segment i n = \<lparr>seg_id = segment_count i + 1, recovery_segment = False,
     seg_chunks = [mk_chunk (last_seg_offset i + 1) n], seg_size = n, subseg = (\<lambda>_. None)\<rparr>"

definition with_segment :: "offset_info \<Rightarrow> int \<Rightarrow> offset_info" where
  "with_segment i n = i\<lparr>segs := segs i @ [fresh_segment i n], num_segments := num_segments i + 1,
     segment_count := segment_count i + 1, last_seg_offset := last_seg_offset i + n\<rparr>"

lemma add_fresh_segment:
  assumes "wf_segs i" "0 < n"
  shows "add_new_segment i False (add_new_chunk [] (last_seg_offset i + 1) n) n
       = Inr (with_segment i n, segment_count i + 1)"
  using assms add_new_segment_Inr [OF assms(1), of "add_new_chunk [] (last_seg_offset i + 1) n" False n]
  by (simp add: add_new_chunk_def with_segment_def fresh_segment_def mk_chunk_def)

lemma next_segment_size_cases:
  assumes wf: "wf_segs (offset_info p)" and rem: "remaining_chunks (offset_info p) = []"
    and init: "0 \<le> init_seg_size (offset_info p)" and last: "last_seg_offset (offset_info p) < g_size p"
    and r: "gb_determine_next_segment_size p = Inr (n, p')"
  obtains f x p1 where "p1 = p\<lparr>offset_info := (offset_info p)\<lparr>conn_idle := f\<rparr>, inorder_offset := x\<rparr>"
    "p' = (if n = 0 then p1 else p1\<lparr>offset_info := with_segment (offset_info p1) n\<rparr>)"
    "0 \<le> n" "last_seg_offset (offset_info p) + n < g_size p"
    "last_seg_offset (offset_info p) + n = g_size p - 1
     \<or> init_seg_size (offset_info p) \<le> g_size p - 1 - (last_seg_offset (offset_info p) + n)"
proof -
  obtain n0 p1 where s: "(if fixed_segment_mode (conf p) \<noteq> 0
            then Inr (if is_using_only_one_link p then init_seg_size (offset_info p) sdiv 2
                      else init_seg_size (offset_info p), p)
            else gb_determine_next_segment_policy p 0) = Inr (n0, p1)"
    and rest: "(let n = absorb_rest p1 n0; i = offset_info p1; old = remaining_chunks i in
       if old \<noteq> [] then
         bindR (if n \<noteq> 0
                then bindR (get_start_byte_next_segment i) (\<lambda>start.
                       Inr (add_new_chunk old start n, n + total_size old))
                else Inr (old, total_size old)) (\<lambda>(cs, m).
         bindR (add_new_segment (i\<lparr>remaining_chunks := []\<rparr>) False cs m) (\<lambda>(i', q).
           Inr (m, p1\<lparr>offset_info := i'\<rparr>)))
       else if n \<noteq> 0 then
         bindR (get_start_byte_next_segment i) (\<lambda>start.
         bindR (add_new_segment i False (add_new_chunk [] start n) n) (\<lambda>(i', q).
           Inr (n, p1\<lparr>offset_info := i'\<rparr>)))
       else Inr (n, p1)) = Inr (n, p')"
    using r unfolding gb_determine_next_segment_size_def by (auto elim!: bindR_InrE)
  have "\<exists>f x. p1 = p\<lparr>offset_info := (offset_info p)\<lparr>conn_idle := f\<rparr>, inorder_offset := x\<rparr>" and n0: "0 \<le> n0"
  proof -
    show "\<exists>f x. p1 = p\<lparr>offset_info := (offset_info p)\<lparr>conn_idle := f\<rparr>, inorder_offset := x\<rparr>"
    proof (cases "fixed_segment_mode (conf p) \<noteq> 0")
      case True
      then have "p1 = p" using s by simp
      then show ?thesis by (intro exI [of _ "conn_idle (offset_info p)"] exI [of _ "inorder_offset p"]) simp
    next
      case False
      then have "gb_determine_next_segment_policy p 0 = Inr (n0, p1)" using s by simp
      then show ?thesis by (rule policy_keeps) blast
    qed
    show "0 \<le> n0"
    proof (cases "fixed_segment_mode (conf p) \<noteq> 0")
      case True
      then show ?thesis using s init by (auto split: if_splits)
    next
      case False
      then have "gb_determine_next_segment_policy p 0 = Inr (n0, p1)" using s by simp
      then show ?thesis by (rule policy_keeps) (use init in simp)
    qed
  qed
  then obtain f x where p1: "p1 = p\<lparr>offset_info := (offset_info p)\<lparr>conn_idle := f\<rparr>, inorder_offset := x\<rparr>"
    by blast
  have wf1: "wf_segs (offset_info p1)" using wf by (simp add: p1)
  have b: "0 \<le> init_seg_size (offset_info p1)" "last_seg_offset (offset_info p1) < g_size p1"
    using init last by (simp_all add: p1)
  note bounds = absorb_rest_bounds [OF n0 b]
  have rem1: "remaining_chunks (offset_info p1) = []" using rem by (simp add: p1)
  have "n = absorb_rest p1 n0
      \<and> p' = (if n = 0 then p1 else p1\<lparr>offset_info := with_segment (offset_info p1) n\<rparr>)"
  proof (cases "absorb_rest p1 n0 = 0")
    case True
    then show ?thesis using rest by (simp add: Let_def rem1)
  next
    case False
    then have pos: "0 < absorb_rest p1 n0" using bounds(1) by simp
    have "get_start_byte_next_segment (offset_info p1) = Inr (last_seg_offset (offset_info p1) + 1)"
      using rest False by (auto simp: Let_def rem1 get_start_byte_next_segment_def split: if_splits)
    then show ?thesis
      using rest False by (auto simp: Let_def rem1 add_fresh_segment [OF wf1 pos])
  qed
  with bounds show thesis by (intro that [of p1 x f]) (auto simp: p1)
qed

section \<open>The moving average\<close>

lemma trunc_rat_between:
  assumes "of_int a \<le> r" "r \<le> of_int b"
  shows "a \<le> trunc_rat r \<and> trunc_rat r \<le> b"
  using assms by (auto simp: trunc_rat_def le_floor_iff ceiling_le_iff floor_le_iff le_ceiling_iff)

lemma weighted_between:
  fixes f :: rat
  assumes "0 \<le> f" "f \<le> 1" "a \<le> x" "x \<le> b" "a \<le> y" "y \<le> b"
  shows "a \<le> (1 - f) * x + f * y" and "(1 - f) * x + f * y \<le> b"
proof -
  have "(1 - f) * a + f * a \<le> (1 - f) * x + f * y"
    using assms by (intro add_mono mult_left_mono) simp_all
  then show "a \<le> (1 - f) * x + f * y" by (simp add: algebra_simps)
  have "(1 - f) * x + f * y \<le> (1 - f) * b + f * b"
    using assms by (intro add_mono mult_left_mono) simp_all
  then show "(1 - f) * x + f * y \<le> b" by (simp add: algebra_simps)
qed

lemma measure_goodput_average:
  assumes "ewma_factor (conf p) = Fin f" "0 \<le> f" "f \<le> 1"
    and "measure_goodput now k p = Inr p'"
    and "c_bytes_done (conn p k) \<noteq> 0" "completed_segment_count (offset_info p) \<noteq> 0"
  shows "min (ewma_bytes_per_second (conn p k)) (c_bytes_per_second (conn p' k))
           \<le> ewma_bytes_per_second (conn p' k)
       \<and> ewma_bytes_per_second (conn p' k)
           \<le> max (ewma_bytes_per_second (conn p k)) (c_bytes_per_second (conn p' k))"
proof -
  let ?e = "ewma_bytes_per_second (conn p k)"
  obtain v w where w: "cast_ll ((of_ll 1 - ewma_factor (conf p)) * of_ll ?e
      + ewma_factor (conf p) * of_ll v) = Inr w"
    and p': "p' = upd_conn k (\<lambda>c. c\<lparr>c_bytes_per_second := v, ewma_bytes_per_second := w\<rparr>) p"
    using assms(4-6) by (auto simp: measure_goodput_def Let_def elim!: bindR_InrE)
  let ?r = "(1 - f) * of_int ?e + f * of_int v"
  have w': "w = trunc_rat ?r"
    using w by (simp add: assms(1) of_ll_def cast_ll_def split: if_splits)
  have "of_int (min ?e v) \<le> ?r" "?r \<le> of_int (max ?e v)"
    using weighted_between [OF assms(2,3), of "of_int (min ?e v)" "of_int ?e" "of_int (max ?e v)" "of_int v"]
    by simp_all
  then have "min ?e v \<le> w \<and> w \<le> max ?e v" unfolding w' by (rule trunc_rat_between)
  then show ?thesis by (simp add: p')
qed

end
