(* ===== verification/Scheduling_Theorems.thy ===== *)
theory Scheduling_Theorems
  imports Energy_Laws Sizing_Laws Samples
begin

text \<open>
  The theorems about the decisions of the scheduler: the player's state, the radio, the ranking
  and the choice of a link mode, the goodput estimates and the size of the next segment.
\<close>

section \<open>The player\<close>

text \<open>while the clock advances, the player counts as playing exactly when it decoded at
  least one frame since the last reading.\<close>

theorem player_playing_iff_frames:
  assumes "env_vframes E (tick p) = Some (Some n)"
    and "env_time E (Suc (tick p)) = Fin t" "st_last_recorded p = Fin u" "u < t"
  shows "fst (get_player_state E p) = PLAYER_PLAYING \<longleftrightarrow> n > st_last_num_vframe p"
  using assms by (rule get_player_state_playing)

theorem player_playing_iff_frames_witness:
  "fst (get_player_state sample_env sample) = PLAYER_PLAYING \<longleftrightarrow> 1 > st_last_num_vframe sample"
  by (rule player_playing_iff_frames [where t = 1 and u = 0]) (simp_all add: sample_defs)

text \<open>\<open>video_duration\<close> is static, so a second download in the same process is judged by the
  duration of the first video, whatever its own size and bit rate are.\<close>

theorem playback_time_of_first_video:
  assumes "st_video_duration p = Fin d" "d \<noteq> 0"
  shows "fst (get_remaining_playback_time E (p\<lparr>g_size := n, qos_bytes_per_second := r\<rparr>))
    = Fin d - env_player_pos E (tick p)"
  using get_remaining_playback_time_stale [of "p\<lparr>g_size := n, qos_bytes_per_second := r\<rparr>" d E] assms
  by simp

theorem playback_time_of_first_video_witness:
  "fst (get_remaining_playback_time sample_env
      (sample\<lparr>st_video_duration := Fin 60\<rparr>\<lparr>g_size := 500, qos_bytes_per_second := 1\<rparr>))
    = Fin 60 - env_player_pos sample_env (tick (sample\<lparr>st_video_duration := Fin 60\<rparr>))"
  by (rule playback_time_of_first_video) simp_all

section \<open>The radio\<close>

text \<open>C13: from idle, under a clock that does not go back, what \<open>update_lte_state\<close> keeps of the radio follows from the goodputs it was
  called with: it is idle when none was positive, active when the last was; otherwise the tail began at the first silent call after the
  last positive goodput, whose time is kept, and the radio is idle once that is longer ago than the timeout.\<close>

theorem radio_follows_traffic:
  assumes "lte_run E p gs = Inr q" "st_lte_state p = LTE_IDLE_STATE"
    and "\<And>n. env_time E n = Fin (f n)" "mono f" "\<forall>g \<in> set gs. 0 \<le> g \<and> in_int g"
  shows "let z = silent gs; began = tick p + (length gs - z); last_call = tick p + (length gs - 1)
    in st_lte_state q =
         (if z = length gs then LTE_IDLE_STATE
          else if z = 0 then LTE_ACTIVE_STATE
          else if Fin (f last_call - f began) > LTE_TAIL_STATE_TIMEOUT_SEC then LTE_IDLE_STATE
          else LTE_TAIL_STATE)
       \<and> (st_lte_state q = LTE_TAIL_STATE \<longrightarrow> st_tail_start q = Fin (f began))"
  using lte_run_history [OF assms(3,4,2,1,5)]
  by (auto simp: radio_after_def radio_of_def radio_valid_def Let_def lte_state_defs split: if_splits)

theorem radio_follows_traffic_witness:
  "\<exists>q. lte_run sample_env sample [5, 0, 7, 0, 0] = Inr q \<and> st_lte_state q = LTE_TAIL_STATE \<and> st_tail_start q = Fin 3"
proof -
  have "\<exists>q. lte_run sample_env sample [5, 0, 7, 0, 0] = Inr q"
    by (simp add: update_lte_state_def gettime_def Let_def conn_at_def conn_ok_def sample_defs
        upd_conn_def lte_state_defs to_int_def LTE_TAIL_STATE_TIMEOUT_SEC_def)
  then obtain q where r: "lte_run sample_env sample [5, 0, 7, 0, 0] = Inr q" ..
  have m: "mono (rat_of_nat)" by (simp add: mono_def)
  have "tick sample = 0" by (simp add: sample_defs)
  then show ?thesis
    using radio_follows_traffic [OF r _ _ m] r
    by (simp add: sample_env_def sample_def lte_state_defs silent_def in_int_def int_min_def int_max_def Let_def
        LTE_TAIL_STATE_TIMEOUT_SEC_def)
qed

text \<open>in every run of the radio from idle under a clock that does not go back, the state is
  one of the three, and a tail never started in the future.\<close>

theorem radio_run_invariant:
  assumes "lte_run E p gs = Inr q" "st_lte_state p = LTE_IDLE_STATE"
    and "\<And>n. env_time E n = Fin (f n)" "mono f"
  shows "radio_valid q \<and> radio_inv (radio_of q, f (tick q))"
  using lte_run_inv [OF assms] by simp

theorem radio_run_invariant_witness:
  "\<exists>q. lte_run sample_env sample [5, 0, 0, 7, 0] = Inr q
    \<and> radio_valid q \<and> radio_inv (radio_of q, of_nat (tick q))"
proof -
  have "\<exists>q. lte_run sample_env sample [5, 0, 0, 7, 0] = Inr q"
    by (simp add: update_lte_state_def gettime_def Let_def conn_at_def conn_ok_def sample_defs
        upd_conn_def lte_state_defs to_int_def LTE_TAIL_STATE_TIMEOUT_SEC_def)
  then obtain q where r: "lte_run sample_env sample [5, 0, 0, 7, 0] = Inr q" ..
  have "radio_valid q \<and> radio_inv (radio_of q, of_nat (tick q))"
    by (rule radio_run_invariant [OF r]) (simp_all add: sample_defs lte_state_defs mono_def)
  with r show ?thesis by blast
qed

section \<open>Ranking the link modes\<close>

text \<open>for three energies that are numbers, the ranking lists them in increasing order of
  energy, and names all three modes unless the three energies are equal.\<close>

theorem ranking_sorted:
  assumes "x \<noteq> NaN" "y \<noteq> NaN" "z \<noteq> NaN"
  shows "\<exists>a b c. get_three_sorted_index [x, y, z] = [a, b, c]
    \<and> [x, y, z] ! a \<le> [x, y, z] ! b \<and> [x, y, z] ! b \<le> [x, y, z] ! c
    \<and> (\<not> (x = y \<and> y = z) \<longrightarrow> set [a, b, c] = {0, 1, 2})"
  using assms by (rule three_sorted_index_sorted)

theorem ranking_sorted_witness:
  "\<exists>a b c. get_three_sorted_index [Fin 3, Fin 1, Fin 2] = [a, b, c]
    \<and> [Fin 3, Fin 1, Fin 2] ! a \<le> [Fin 3, Fin 1, Fin 2] ! b
    \<and> [Fin 3, Fin 1, Fin 2] ! b \<le> [Fin 3, Fin 1, Fin 2] ! c
    \<and> (\<not> (Fin 3 = Fin 1 \<and> Fin 1 = Fin 2) \<longrightarrow> set [a, b, c] = {0, 1, 2})"
  by (rule ranking_sorted) simp_all

text \<open>when the three energies are equal the ranking names mode 0 twice and never mode 2.\<close>

theorem ranking_ties:
  assumes "x \<noteq> NaN"
  shows "get_three_sorted_index [x, x, x] = [0, 1, 0]"
  using assms by (rule three_sorted_index_ties)

theorem ranking_ties_witness: "get_three_sorted_index [Fin 0, Fin 0, Fin 0] = [0, 1, 0]"
  by (rule ranking_ties) simp

text \<open>the ranking aborts on its \<open>assert\<close> when one of the links has a measured average of 0:
  the single-link energy of that link is asked for with both goodputs 0.\<close>

theorem ranking_aborts_on_zero_goodput:
  assumes "conn_ok p WIFI"
    and "ewma_bytes_per_second (conn p LTE) = 0 \<or> ewma_bytes_per_second (conn p WIFI) = 0"
  shows "\<exists>e. get_energy_sorted_link_modes E p n = Inl e"
proof (rule ccontr)
  assume "\<nexists>e. get_energy_sorted_link_modes E p n = Inl e"
  then obtain ms q where "get_energy_sorted_link_modes E p n = Inr (ms, q)"
    by (cases "get_energy_sorted_link_modes E p n") auto
  then obtain e0 p0 e1 p1 e2 p2 where
    "get_energy_consumption E p0 LTE_SINGLE_LINK_MODE (ewma_bytes_per_second (conn p LTE)) 0 n = Inr (e1, p1)"
    "get_energy_consumption E p1 WIFI_SINGLE_LINK_MODE 0 (ewma_bytes_per_second (conn p WIFI)) n = Inr (e2, p2)"
    by (auto simp: get_energy_sorted_link_modes_def estimate_link_mode_goodput_def mode_defs conn_at_def
        elim!: bindR_InrE split: if_splits)
  then show False using assms(2) by (auto simp: get_energy_consumption_def elim!: bindR_InrE)
qed

theorem ranking_aborts_on_zero_goodput_witness:
  "\<exists>e. get_energy_sorted_link_modes sample_env
     (sample\<lparr>conn := (\<lambda>k. sample_conn\<lparr>ewma_bytes_per_second := (if k = LTE then 30 else 0)\<rparr>)\<rparr>) 50 = Inl e"
  by (rule ranking_aborts_on_zero_goodput) (simp_all add: sample_defs conn_ok_def)

section \<open>Choosing a link mode\<close>

text \<open>\<open>choose_link_mode\<close> returns its static mode, stays within the three modes, sets the
  single-link flag exactly for the single-link modes while the file is not all handed out, and
  changes nothing that the download works on.\<close>

theorem choose_link_mode_flag:
  assumes "choose_link_mode E p k = Inr (m, q)" "mode_ok (st_link_mode p)"
    and "last_seg_offset (offset_info p) + 1 < g_size p"
  shows "m = st_link_mode q \<and> mode_ok m \<and> same_core p q
    \<and> (single_link_mode_flag (offset_info q) \<longleftrightarrow> m \<noteq> DUAL_LINK_MODE)"
  using choose_link_mode_result [OF assms(1)] assms(2,3) by blast

definition energy_sample :: proc where
  "energy_sample = sample\<lparr>st_last_num_vframe := 5, offset_info := sample_offsets\<lparr>num_segments := 1,
     segment_count := 1, last_seg_offset := 39, segs := [\<lparr>seg_id = 1, recovery_segment = False,
       seg_chunks = [mk_chunk 0 40], seg_size = 40, subseg = (\<lambda>_. None)\<rparr>]\<rparr>\<rparr>"

theorem choose_link_mode_flag_witness:
  "\<exists>m q. choose_link_mode sample_env energy_sample LTE = Inr (m, q)
    \<and> m = st_link_mode q \<and> mode_ok m \<and> same_core energy_sample q
    \<and> (single_link_mode_flag (offset_info q) \<longleftrightarrow> m \<noteq> DUAL_LINK_MODE)"
proof -
  have "\<exists>m q. choose_link_mode sample_env energy_sample LTE = Inr (m, q)"
    by (simp add: choose_link_mode_def get_remaining_file_size_def get_start_byte_next_segment_def
        get_player_state_def gettime_def Let_def energy_sample_def sample_defs of_ll_def
        PLAYER_PLAYING_def PLAYER_PAUSED_def)
  then obtain m q where r: "choose_link_mode sample_env energy_sample LTE = Inr (m, q)" by blast
  have "m = st_link_mode q \<and> mode_ok m \<and> same_core energy_sample q
    \<and> (single_link_mode_flag (offset_info q) \<longleftrightarrow> m \<noteq> DUAL_LINK_MODE)"
    by (rule choose_link_mode_flag [OF r]) (simp_all add: energy_sample_def sample_defs mode_ok_def mode_defs)
  with r show ?thesis by blast
qed

text \<open>a single-link mode is left for a predicted deadline miss only at the second prediction
  in a row; the first one is counted and the mode stays.\<close>

theorem choose_link_mode_hysteresis:
  assumes "st_link_mode p \<in> {LTE_SINGLE_LINK_MODE, WIFI_SINGLE_LINK_MODE}"
    and "get_remaining_file_size p = Inr r" "0 < r"
    and "get_player_state E p = (PLAYER_PLAYING, p1)"
    and "does_qmiss_until_next_portion_in_link_mode E p1 r (st_link_mode p) = Inr (True, p2)"
  shows "\<exists>m q. choose_link_mode E p k = Inr (m, q)
    \<and> (if st_num_est_qmiss p + 1 \<ge> 2 then m = DUAL_LINK_MODE \<and> st_num_est_qmiss q = 0
       else m = st_link_mode p \<and> st_num_est_qmiss q = st_num_est_qmiss p + 1)"
proof -
  have s: "st_link_mode p1 = st_link_mode p" "st_num_est_qmiss p1 = st_num_est_qmiss p"
    using assms(4) by (auto simp: get_player_state_def gettime_def Let_def split: option.splits)
  have "same_choice p1 p2" using does_qmiss_frame [OF assms(5)] by simp
  then have s2: "st_link_mode p2 = st_link_mode p" "st_num_est_qmiss p2 = st_num_est_qmiss p"
    using s by (simp_all add: same_choice_def)
  show ?thesis
    using assms s s2
    by (auto simp: choose_link_mode_def choose_link_mode_playing_def Let_def MAX_NUM_EST_QMISS_def upd_off_def)
qed

definition single_sample :: proc where
  "single_sample = energy_sample\<lparr>st_link_mode := LTE_SINGLE_LINK_MODE, st_last_num_vframe := 0,
     qos_bytes_per_second := 50\<rparr>"

theorem choose_link_mode_hysteresis_witness:
  "\<exists>m q. choose_link_mode sample_env single_sample WIFI = Inr (m, q)
    \<and> (if st_num_est_qmiss single_sample + 1 \<ge> 2 then m = DUAL_LINK_MODE \<and> st_num_est_qmiss q = 0
       else m = st_link_mode single_sample \<and> st_num_est_qmiss q = st_num_est_qmiss single_sample + 1)"
proof -
  let ?p1 = "snd (get_player_state sample_env single_sample)"
  have s: "get_player_state sample_env single_sample = (PLAYER_PLAYING, ?p1)"
    by (simp add: get_player_state_def gettime_def Let_def single_sample_def energy_sample_def sample_defs of_ll_def
        PLAYER_PLAYING_def PLAYER_PAUSED_def)
  have "\<exists>p2. does_qmiss_until_next_portion_in_link_mode sample_env ?p1 60 (st_link_mode single_sample)
      = Inr (True, p2)"
    by (simp add: does_qmiss_until_next_portion_in_link_mode_def estimate_link_mode_goodput_def
        get_remaining_playback_time_def get_cur_player_pos_def get_player_state_def gettime_def Let_def
        single_sample_def energy_sample_def sample_defs of_ll_def mode_defs conn_at_def conn_ok_def dbl_eq_def)
  then obtain p2 where m: "does_qmiss_until_next_portion_in_link_mode sample_env ?p1 60
      (st_link_mode single_sample) = Inr (True, p2)" ..
  show ?thesis
    by (rule choose_link_mode_hysteresis [OF _ _ _ s m])
       (simp_all add: single_sample_def energy_sample_def sample_defs get_remaining_file_size_def
          get_start_byte_next_segment_def mode_defs)
qed

section \<open>Goodput\<close>

text \<open>once a segment is complete, the moving average of a connection that received data lies
  between its old value and the new sample, also after the truncation to \<open>long long\<close>.\<close>

theorem moving_average_between:
  assumes "ewma_factor (conf p) = Fin f" "0 \<le> f" "f \<le> 1"
    and "measure_goodput now k p = Inr p'"
    and "c_bytes_done (conn p k) \<noteq> 0" "completed_segment_count (offset_info p) \<noteq> 0"
  shows "min (ewma_bytes_per_second (conn p k)) (c_bytes_per_second (conn p' k))
           \<le> ewma_bytes_per_second (conn p' k)
       \<and> ewma_bytes_per_second (conn p' k)
           \<le> max (ewma_bytes_per_second (conn p k)) (c_bytes_per_second (conn p' k))"
  using assms by (rule measure_goodput_average)

theorem moving_average_between_witness:
  "\<exists>p p'. measure_goodput (Fin 2) LTE p = Inr p'
    \<and> min (ewma_bytes_per_second (conn p LTE)) (c_bytes_per_second (conn p' LTE))
           \<le> ewma_bytes_per_second (conn p' LTE)
    \<and> ewma_bytes_per_second (conn p' LTE)
           \<le> max (ewma_bytes_per_second (conn p LTE)) (c_bytes_per_second (conn p' LTE))"
proof -
  let ?p = "sample\<lparr>conn := (\<lambda>_. sample_conn\<lparr>c_bytes_done := 101\<rparr>),
    offset_info := sample_offsets\<lparr>completed_segment_count := 1\<rparr>\<rparr>"
  have "\<exists>p'. measure_goodput (Fin 2) LTE ?p = Inr p'"
    by (simp add: measure_goodput_def sample_defs Let_def cast_ll_def of_ll_def trunc_rat_def in_ll_def
        ll_min_def ll_max_def floor_divide_of_int_eq)
  then obtain p' where r: "measure_goodput (Fin 2) LTE ?p = Inr p'" ..
  have "min (ewma_bytes_per_second (conn ?p LTE)) (c_bytes_per_second (conn p' LTE))
           \<le> ewma_bytes_per_second (conn p' LTE)
    \<and> ewma_bytes_per_second (conn p' LTE)
           \<le> max (ewma_bytes_per_second (conn ?p LTE)) (c_bytes_per_second (conn p' LTE))"
    by (rule moving_average_between [OF _ _ _ r, where f = "1 / 2"]) (simp_all add: sample_defs)
  with r show ?thesis by blast
qed

section \<open>The next segment\<close>

text \<open>C9: with nothing left over, \<open>gb_determine_next_segment_size\<close> appends at most one segment; it
  starts right after the last byte handed out, ends before the end of the file, and leaves
  either nothing or at least one initial segment.\<close>

theorem next_segment_adjacent:
  assumes wf: "wf_segs (offset_info p)" and rem: "remaining_chunks (offset_info p) = []"
    and init: "0 \<le> init_seg_size (offset_info p)" and last: "last_seg_offset (offset_info p) < g_size p"
    and r: "gb_determine_next_segment_size p = Inr (n, p')"
  shows "0 \<le> n
    \<and> segs (offset_info p') = segs (offset_info p) @ (if n = 0 then [] else [fresh_segment (offset_info p) n])
    \<and> bytes_of (seg_chunks (fresh_segment (offset_info p) n))
        = [last_seg_offset (offset_info p) + 1 .. last_seg_offset (offset_info p) + n]
    \<and> last_seg_offset (offset_info p') = last_seg_offset (offset_info p) + n
    \<and> last_seg_offset (offset_info p') < g_size p
    \<and> (last_seg_offset (offset_info p') = g_size p - 1
       \<or> init_seg_size (offset_info p) \<le> g_size p - 1 - last_seg_offset (offset_info p'))"
  by (rule next_segment_size_cases [OF wf rem init last r])
     (auto simp: with_segment_def fresh_segment_def chunk_bytes_def)

theorem next_segment_adjacent_witness:
  "\<exists>n p'. gb_determine_next_segment_size energy_sample = Inr (n, p')
    \<and> segs (offset_info p') = segs (offset_info energy_sample)
        @ (if n = 0 then [] else [fresh_segment (offset_info energy_sample) n])"
proof -
  have "\<exists>n p'. gb_determine_next_segment_size energy_sample = Inr (n, p')"
    by (simp add: gb_determine_next_segment_size_def energy_sample_def sample_defs absorb_rest_def
        get_start_byte_next_segment_def add_new_segment_def is_using_only_one_link_def Let_def
        add_new_chunk_def)
  then obtain n p' where r: "gb_determine_next_segment_size energy_sample = Inr (n, p')" by blast
  have "0 \<le> n
    \<and> segs (offset_info p') = segs (offset_info energy_sample)
        @ (if n = 0 then [] else [fresh_segment (offset_info energy_sample) n])
    \<and> bytes_of (seg_chunks (fresh_segment (offset_info energy_sample) n))
        = [last_seg_offset (offset_info energy_sample) + 1 .. last_seg_offset (offset_info energy_sample) + n]
    \<and> last_seg_offset (offset_info p') = last_seg_offset (offset_info energy_sample) + n
    \<and> last_seg_offset (offset_info p') < g_size energy_sample
    \<and> (last_seg_offset (offset_info p') = g_size energy_sample - 1
       \<or> init_seg_size (offset_info energy_sample) \<le> g_size energy_sample - 1 - last_seg_offset (offset_info p'))"
    by (rule next_segment_adjacent [OF _ _ _ _ r]) (simp_all add: energy_sample_def sample_defs wf_segs_def)
  with r show ?thesis by blast
qed

text \<open>\<open>qos_bytes\<close> is only ever set to 0 (by \<open>gb_init_segment_setup\<close>), and then the policy that
  should scale the segment with the goodput and the player's progress always answers with the
  initial segment size.\<close>

theorem policy_is_constant:
  assumes "gb_determine_next_segment_policy p m = Inr (n, p')" "qos_bytes p = 0"
    "0 \<le> init_seg_size (offset_info p)"
  shows "n = init_seg_size (offset_info p)"
  using policy_init_size [OF assms] by simp

theorem policy_is_constant_witness:
  "\<exists>n p'. gb_determine_next_segment_policy energy_sample 1 = Inr (n, p')
    \<and> n = init_seg_size (offset_info energy_sample)"
proof -
  have "\<exists>n p'. gb_determine_next_segment_policy energy_sample 1 = Inr (n, p')"
    by (simp add: gb_determine_next_segment_policy_def update_inorder_offset_def find_inorder_offset_def
        is_using_only_one_link_def mark_idle_def upd_off_def min_start_of_def energy_sample_def sample_defs
        conn_at_def conn_ok_def Let_def)
  then obtain n p' where r: "gb_determine_next_segment_policy energy_sample 1 = Inr (n, p')" by blast
  have "n = init_seg_size (offset_info energy_sample)"
    by (rule policy_is_constant [OF r]) (simp_all add: energy_sample_def sample_defs)
  with r show ?thesis by blast
qed

text \<open>with no number of segments and no segment size configured, the code means to use one
  segment (it tests for size 0 twice) and then divides by that 0.\<close>

theorem unset_segment_size_traps:
  "first_segment_size n 0 0 = Inl DivByZero"
  by (simp add: first_segment_size_def chk_ll_def in_ll_def ll_min_def ll_max_def cmod_def)

end
