(* ===== verification/Text.thy ===== *)
theory Text
  imports Types
begin

unbundle bit_operations_syntax

text \<open>
  Text handling: the C library calls on strings that the code uses, decimal numbers, the URL
  escapes of \<^verbatim>\<open>http.c\<close> and the base64 of its \<open>Authorization\<close> header. A C string is the list
  of its characters; a write past the end of its array is \<open>OutOfBounds\<close>.
\<close>

definition MAX_STRING :: nat where "MAX_STRING = 1024"
definition MAX_QUERY :: nat where "MAX_QUERY = 2048"

section \<open>Numbers\<close>

abbreviation digit :: "nat \<Rightarrow> char" where
  "digit n \<equiv> char_of (48 + n)"

fun show_nat :: "nat \<Rightarrow> string" where
  "show_nat n = (if n < 10 then [digit n] else show_nat (n div 10) @ [digit (n mod 10)])"

declare show_nat.simps [simp del]

text \<open>\<open>%lld\<close> of \<open>printf\<close>\<close>

definition show_int :: "int \<Rightarrow> string" where
  "show_int x = (if x < 0 then CHR ''-'' # show_nat (nat (- x)) else show_nat (nat x))"

definition is_space :: "char \<Rightarrow> bool" where
  "is_space c \<longleftrightarrow> c = CHR '' '' \<or> (9 \<le> (of_char c :: nat) \<and> (of_char c :: nat) \<le> 13)"

definition digit_val :: "char \<Rightarrow> nat option" where
  "digit_val c = (let n = (of_char c :: nat) in
     if 48 \<le> n \<and> n \<le> 57 then Some (n - 48)
     else if 97 \<le> n \<and> n \<le> 102 then Some (n - 87)
     else if 65 \<le> n \<and> n \<le> 70 then Some (n - 55)
     else None)"

definition is_digit :: "nat \<Rightarrow> char \<Rightarrow> bool" where
  "is_digit base c \<longleftrightarrow> (case digit_val c of None \<Rightarrow> False | Some d \<Rightarrow> d < base)"

text \<open>The number that a run of digits denotes, and the text after it.\<close>

fun scan_digits :: "nat \<Rightarrow> int \<Rightarrow> string \<Rightarrow> int \<times> string" where
  "scan_digits base acc [] = (acc, [])"
| "scan_digits base acc (c # cs) =
     (case digit_val c of
        None \<Rightarrow> (acc, c # cs)
      | Some d \<Rightarrow> if d < base then scan_digits base (acc * int base + int d) cs else (acc, c # cs))"

text \<open>
  The number conversions of \<open>scanf\<close> on text that has no leading space: \<open>None\<close> is a matching
  failure. \<open>scan_i\<close> is \<open>%i\<close> (the prefix chooses the base), \<open>scan_x\<close> is \<open>%x\<close>.
\<close>

definition scan_unsigned :: "nat \<Rightarrow> string \<Rightarrow> int option" where
  "scan_unsigned base s = (case s of
      [] \<Rightarrow> None
    | c # _ \<Rightarrow> if is_digit base c then Some (fst (scan_digits base 0 s)) else None)"

definition hex_prefix :: "string \<Rightarrow> bool" where
  "hex_prefix s \<longleftrightarrow> (case s of a # b # _ \<Rightarrow> a = CHR ''0'' \<and> (b = CHR ''x'' \<or> b = CHR ''X'') | _ \<Rightarrow> False)"

definition scan_signed :: "(string \<Rightarrow> int option) \<Rightarrow> string \<Rightarrow> int option" where
  "scan_signed f s = (case s of
      [] \<Rightarrow> None
    | c # cs \<Rightarrow> if c = CHR ''-'' then map_option uminus (f cs)
                else if c = CHR ''+'' then f cs else f s)"

definition scan_i :: "string \<Rightarrow> int option" where
  "scan_i = scan_signed (\<lambda>s.
     if hex_prefix s then scan_unsigned 16 (drop 2 s)
     else case s of
         [] \<Rightarrow> None
       | c # _ \<Rightarrow> if c = CHR ''0'' then scan_unsigned 8 s else scan_unsigned 10 s)"

definition scan_x :: "string \<Rightarrow> int option" where
  "scan_x = scan_signed (\<lambda>s. if hex_prefix s then scan_unsigned 16 (drop 2 s) else scan_unsigned 16 s)"

definition skip_space :: "string \<Rightarrow> string" where
  "skip_space = dropWhile is_space"

section \<open>Searching\<close>

text \<open>
  \<open>strchr\<close>, \<open>strrchr\<close> and \<open>strstr\<close> as splits: the text before the first (last) occurrence and
  the text from it on.
\<close>

definition strchr :: "string \<Rightarrow> char \<Rightarrow> (string \<times> string) option" where
  "strchr s c = (if c \<in> set s then Some (takeWhile (\<lambda>x. x \<noteq> c) s, dropWhile (\<lambda>x. x \<noteq> c) s) else None)"

definition strrchr :: "string \<Rightarrow> char \<Rightarrow> (string \<times> string) option" where
  "strrchr s c =
     (if c \<in> set s
      then let n = length (takeWhile (\<lambda>x. x \<noteq> c) (rev s))
           in Some (take (length s - n - 1) s, drop (length s - n - 1) s)
      else None)"

fun strstr :: "string \<Rightarrow> string \<Rightarrow> (string \<times> string) option" where
  "strstr [] pat = (if pat = [] then Some ([], []) else None)"
| "strstr (c # cs) pat =
     (if take (length pat) (c # cs) = pat then Some ([], c # cs)
      else map_option (\<lambda>(a, b). (c # a, b)) (strstr cs pat))"

text \<open>\<open>strncpy\<close> into an array of \<open>MAX_STRING\<close>: a longer text is left without a terminator.\<close>

definition copy_string :: "string \<Rightarrow> string res" where
  "copy_string s = (if length s < MAX_STRING then Inr s else Inl OutOfBounds)"

section \<open>URL escapes (\<^verbatim>\<open>http.c\<close>)\<close>

fun encode_from :: "nat \<Rightarrow> string \<Rightarrow> string" where
  "encode_from j [] = []"
| "encode_from j (c # cs) =
     (if j \<ge> MAX_STRING - 1 then []
      else if c = CHR '' '' then
        (if j \<ge> MAX_STRING - 3 then [] else ''%20'' @ encode_from (j + 3) cs)
      else c # encode_from (j + 1) cs)"

definition http_encode :: "string \<Rightarrow> string" where
  "http_encode s = encode_from 0 s"

text \<open>
  \<open>http_decode\<close>: \<open>sscanf\<close> returns -1 at the end of the text, which counts as a match although
  \<open>k\<close> is not set; a match skips two characters even where fewer follow.
\<close>

fun decode_loop :: "string \<Rightarrow> string res" where
  "decode_loop [] = Inr []"
| "decode_loop (c # cs) =
     (if c = CHR ''%'' then
        (case skip_space cs of
           [] \<Rightarrow> Inl Uninit
         | t \<Rightarrow>
             (case scan_x (take 2 t) of
                None \<Rightarrow> bindR (decode_loop cs) (\<lambda>r. Inr (c # r))
              | Some k \<Rightarrow>
                  (case cs of
                     _ # _ # rest \<Rightarrow> bindR (decode_loop rest) (\<lambda>r. Inr (char_of (nat (k mod 256)) # r))
                   | _ \<Rightarrow> Inl OutOfBounds)))
      else bindR (decode_loop cs) (\<lambda>r. Inr (c # r)))"

definition http_decode :: "string \<Rightarrow> string res" where
  "http_decode s = bindR (decode_loop s) (\<lambda>t. Inr (takeWhile (\<lambda>c. c \<noteq> CHR 0x00) t))"

section \<open>Base64 (\<open>http_connect\<close>)\<close>

definition base64_encode :: string where
  "base64_encode = ''ABCDEFGHIJKLMNOPQRSTUVWXYZabcdefghijklmnopqrstuvwxyz0123456789+/''"

abbreviation b64 :: "nat \<Rightarrow> char" where
  "b64 n \<equiv> base64_encode ! n"

definition b64_group :: "nat \<Rightarrow> nat \<Rightarrow> nat \<Rightarrow> string" where
  "b64_group x y z =
     [b64 (drop_bit 2 x), b64 (push_bit 4 (x AND 3) OR drop_bit 4 y),
      if y = 0 then CHR ''='' else b64 (push_bit 2 (y AND 15) OR drop_bit 6 z),
      if z = 0 then CHR ''='' else b64 (z AND 63)]"

text \<open>
  One turn of the loop per three characters; the buffer is zero after the text. A character
  above 127 is negative, and so would be its index into the table.
\<close>

fun b64_loop :: "nat list \<Rightarrow> string" where
  "b64_loop [] = []"
| "b64_loop [x] = b64_group x 0 0"
| "b64_loop [x, y] = b64_group x y 0"
| "b64_loop (x # y # z # rest) = b64_group x y z @ b64_loop rest"

definition http_auth :: "string \<Rightarrow> string \<Rightarrow> string res" where
  "http_auth user pass =
     (let auth = map of_char (take (MAX_STRING - 1) (user @ '':'' @ pass)) :: nat list;
          r = b64_loop auth
      in if (\<exists>c \<in> set auth. c \<ge> 128) \<or> length r \<ge> MAX_STRING then Inl OutOfBounds else Inr r)"

section \<open>Numbers: printing and reading\<close>

lemma digit_val_digit [simp]: "n < 10 \<Longrightarrow> digit_val (digit n) = Some n"
  by (simp add: digit_val_def)

lemma scan_digits_show_nat:
  "scan_digits 10 0 (show_nat n @ ys) = scan_digits 10 (int n) ys"
proof (induction n arbitrary: ys rule: show_nat.induct)
  case (1 n)
  show ?case
  proof (cases "n < 10")
    case False
    then have "scan_digits 10 0 (show_nat n @ ys) = scan_digits 10 (int (n div 10)) (digit (n mod 10) # ys)"
      using 1 by (simp add: show_nat.simps [of n])
    also have "\<dots> = scan_digits 10 (int (n div 10) * 10 + int (n mod 10)) ys" by simp
    also have "int (n div 10) * 10 + int (n mod 10) = int n"
      by (metis div_mult_mod_eq of_nat_add of_nat_mult of_nat_numeral)
    finally show ?thesis .
  qed (simp add: show_nat.simps [of n])
qed

lemma scan_digits_stop:
  "ys = [] \<or> \<not> is_digit base (hd ys) \<Longrightarrow> scan_digits base acc ys = (acc, ys)"
  by (cases ys) (auto simp: is_digit_def split: option.splits)

lemma show_nat_digits: "c \<in> set (show_nat n) \<Longrightarrow> is_digit 10 c"
proof (induction n rule: show_nat.induct)
  case (1 n)
  then show ?case
    by (cases "n < 10") (auto simp: show_nat.simps [of n] is_digit_def)
qed

lemma show_nat_not_Nil [simp]: "show_nat n \<noteq> []"
  by (simp add: show_nat.simps [of n])

lemma show_int_nonneg: "0 \<le> n \<Longrightarrow> show_int n = show_nat (nat n)"
  by (simp add: show_int_def)

lemma scan_unsigned_show:
  assumes "0 \<le> n"
  shows "scan_unsigned 10 (show_int n) = Some n"
proof -
  obtain d ds where s: "show_nat (nat n) = d # ds" by (cases "show_nat (nat n)") auto
  have "is_digit 10 d" using show_nat_digits [of d "nat n"] by (simp add: s)
  moreover have "scan_digits 10 0 (d # ds) = (n, [])"
    using scan_digits_show_nat [of "nat n" "[]"] assms by (simp add: s)
  ultimately show ?thesis by (simp add: scan_unsigned_def show_int_nonneg assms s)
qed

interpretation decimal: codec "\<lambda>n. 0 \<le> n" show_int "scan_unsigned 10" Some
  by unfold_locales (simp_all add: scan_unsigned_show)

lemma digit_eq_zero: "n < 10 \<Longrightarrow> digit n = CHR ''0'' \<longleftrightarrow> n = 0"
proof
  assume "n < 10" "digit n = CHR ''0''"
  then have "digit_val (digit n) = digit_val CHR ''0''" by simp
  moreover have "digit_val CHR ''0'' = Some 0" by (simp add: digit_val_def)
  ultimately show "n = 0" using \<open>n < 10\<close> by simp
qed (simp add: char_of_def bit_0)

lemma show_nat_first: "0 < n \<Longrightarrow> hd (show_nat n) \<noteq> CHR ''0''"
proof (induction n rule: show_nat.induct)
  case (1 n)
  show ?case
  proof (cases "n < 10")
    case True
    then show ?thesis using 1(2) by (simp add: show_nat.simps [of n] digit_eq_zero)
  next
    case False
    then show ?thesis using 1 by (simp add: show_nat.simps [of n])
  qed
qed

section \<open>Escaping and unescaping\<close>

definition escape_char :: "char \<Rightarrow> string" where
  "escape_char c = (if c = CHR '' '' then ''%20'' else [c])"

lemma encode_from_room:
  "j + length (concat (map escape_char s)) < MAX_STRING \<Longrightarrow>
   encode_from j s = concat (map escape_char s)"
  by (induction j s rule: encode_from.induct) (auto simp: escape_char_def MAX_STRING_def)

lemma encode_from_length: "j < MAX_STRING \<Longrightarrow> j + length (encode_from j s) < MAX_STRING"
proof (induction j s rule: encode_from.induct)
  case (2 j c cs)
  show ?case
  proof (cases "j < MAX_STRING - 1")
    case True
    then show ?thesis using 2 by (cases "c = CHR '' ''") (auto simp: MAX_STRING_def)
  qed (use 2 in auto)
qed simp

lemma encode_from_no_space: "CHR '' '' \<notin> set (encode_from j s)"
  by (induction j s rule: encode_from.induct) auto

lemma decode_loop_escape:
  assumes "CHR ''%'' \<notin> set s"
  shows "decode_loop (concat (map escape_char s)) = Inr s"
  using assms
proof (induction s)
  case (Cons c s)
  show ?case
  proof (cases "c = CHR '' ''")
    case True
    have "decode_loop (escape_char c @ concat (map escape_char s))
        = bindR (decode_loop (concat (map escape_char s))) (\<lambda>r. Inr (char_of (nat (32 mod 256)) # r))"
      by (simp add: True escape_char_def skip_space_def is_space_def scan_x_def scan_signed_def
          hex_prefix_def scan_unsigned_def is_digit_def digit_val_def)
    then show ?thesis using Cons True by (simp add: char_of_def bit_0)
  next
    case False
    then show ?thesis using Cons by (auto simp: escape_char_def)
  qed
qed simp

lemma http_decode_encode_room:
  assumes "CHR ''%'' \<notin> set s" "CHR 0x00 \<notin> set s" "length (concat (map escape_char s)) < MAX_STRING"
  shows "http_decode (http_encode s) = Inr s"
proof -
  have "takeWhile (\<lambda>c. c \<noteq> CHR 0x00) s = s"
    using assms(2) by (simp add: takeWhile_eq_all_conv) blast
  then show ?thesis
    using assms encode_from_room [of 0 s] by (simp add: http_encode_def http_decode_def decode_loop_escape)
qed

interpretation escapes: codec "\<lambda>s. CHR ''%'' \<notin> set s \<and> CHR 0x00 \<notin> set s \<and> length (concat (map escape_char s)) < MAX_STRING"
  http_encode http_decode Inr
  by unfold_locales (auto simp: http_decode_encode_room)

section \<open>Base64 decoded\<close>

definition b64_index :: "char \<Rightarrow> nat" where
  "b64_index c = length (takeWhile (\<lambda>d. d \<noteq> c) base64_encode)"

fun b64_decode :: "string \<Rightarrow> nat list" where
  "b64_decode (a # b # c # d # rest) =
     (let x = b64_index a * 4 + b64_index b div 16;
          y = b64_index b mod 16 * 16 + b64_index c div 4;
          z = b64_index c mod 4 * 64 + b64_index d
      in if c = CHR ''='' then [x] else if d = CHR ''='' then [x, y] else x # y # z # b64_decode rest)"
| "b64_decode s = []"

lemma b64_table: "length base64_encode = 64" "distinct base64_encode" "CHR ''='' \<notin> set base64_encode"
  by (simp_all add: base64_encode_def)

lemma takeWhile_nth: "distinct xs \<Longrightarrow> n < length xs \<Longrightarrow> length (takeWhile (\<lambda>d. d \<noteq> xs ! n) xs) = n"
proof (induction xs arbitrary: n)
  case (Cons x xs)
  show ?case
  proof (cases n)
    case (Suc m)
    with Cons.prems have "x \<noteq> xs ! m" by auto
    then show ?thesis using Suc Cons by simp
  qed simp
qed simp

lemma b64_index_b64 [simp]: "n < 64 \<Longrightarrow> b64_index (b64 n) = n"
  using takeWhile_nth [of base64_encode n] by (simp add: b64_index_def b64_table)

lemma b64_not_pad [simp]: "n < 64 \<Longrightarrow> b64 n \<noteq> CHR ''=''"
  using b64_table nth_mem [of n base64_encode] by metis

lemma push_or: "b < 2 ^ k \<Longrightarrow> push_bit k a OR b = a * 2 ^ k + (b :: nat)"
proof -
  assume "b < 2 ^ k"
  then have "take_bit k b = b" by (simp add: take_bit_nat_eq_self)
  then have "push_bit k a AND b = push_bit k a AND take_bit k b" by simp
  also have "\<dots> = 0" by (auto simp: bit_eq_iff bit_simps)
  finally show ?thesis by (simp add: disjunctive_add_eq_or [symmetric] push_bit_eq_mult)
qed

lemma and_low: "x AND 3 = x mod 4" "x AND 15 = x mod 16" "x AND 63 = x mod (64 :: nat)"
proof -
  have "x AND mask n = x mod 2 ^ n" for n by (simp add: take_bit_eq_mask [symmetric] take_bit_eq_mod)
  from this [of 2] this [of 4] this [of 6]
  show "x AND 3 = x mod 4" "x AND 15 = x mod 16" "x AND 63 = x mod 64"
    by (simp_all add: mask_eq_exp_minus_1)
qed

lemma b64_group_arith:
  assumes "x < 256" "y < 256" "z < 256"
  shows "b64_group x y z =
    [b64 (x div 4), b64 (x mod 4 * 16 + y div 16),
     if y = 0 then CHR ''='' else b64 (y mod 16 * 4 + z div 64),
     if z = 0 then CHR ''='' else b64 (z mod 64)]"
  using assms push_or [of "drop_bit 4 y" 4 "x mod 4"] push_or [of "drop_bit 6 z" 2 "y mod 16"]
  by (auto simp: b64_group_def and_low drop_bit_eq_div push_bit_eq_mult)

lemma b64_bounds:
  assumes "x < (256 :: nat)" "y < 256" "z < 256"
  shows "x div 4 < 64" "x mod 4 * 16 + y div 16 < 64" "y mod 16 * 4 + z div 64 < 64" "z mod 64 < 64"
proof -
  have "x mod 4 < 4" "y div 16 < 16" "y mod 16 < 16" "z div 64 < 4" using assms by auto
  then show "x mod 4 * 16 + y div 16 < 64" "y mod 16 * 4 + z div 64 < 64" by linarith+
qed (use assms in auto)

lemma b64_decode_loop:
  assumes "\<forall>x \<in> set xs. 0 < x \<and> x < 256"
  shows "b64_decode (b64_loop xs) = xs"
  using assms
proof (induction xs rule: b64_loop.induct)
  case (2 x)
  then show ?case using b64_bounds [of x 0 0] by (simp add: b64_group_arith Let_def)
next
  case (3 x y)
  have "(x mod 4 * 16 + y div 16) mod 16 * 16 + y mod 16 * 4 div 4 = y"
    and "x div 4 * 4 + (x mod 4 * 16 + y div 16) div 16 = x" using 3 by auto
  then show ?case using 3 b64_bounds [of x y 0] by (simp add: b64_group_arith Let_def)
next
  case (4 x y z rest)
  have "y div 16 < 16" "z div 64 < 4" using 4 by auto
  then have "y div 16 div 16 = 0" "y div 16 mod 16 = y div 16" "z div 64 div 4 = 0" "z div 64 mod 4 = z div 64"
    by simp_all
  then show ?case using 4 b64_bounds [of x y z] by (auto simp: b64_group_arith Let_def)
qed simp

lemma http_auth_decodes:
  assumes "http_auth user pass = Inr r" "CHR 0x00 \<notin> set user" "CHR 0x00 \<notin> set pass"
  shows "map char_of (b64_decode r) = take (MAX_STRING - 1) (user @ '':'' @ pass)"
proof -
  let ?a = "take (MAX_STRING - 1) (user @ '':'' @ pass)"
  have r: "r = b64_loop (map of_char ?a)" and small: "\<forall>c \<in> set (map of_char ?a). c < (128 :: nat)"
    using assms(1) by (auto simp: http_auth_def Let_def not_le split: if_splits)
  have "0 < (of_char c :: nat)" if "c \<in> set ?a" for c
  proof (rule gr0I)
    assume "of_char c = (0 :: nat)"
    then have "char_of (of_char c :: nat) = (char_of (0 :: nat) :: char)" by (rule arg_cong)
    then have "c = char_of (0 :: nat)" by simp
    also have "\<dots> = CHR 0x00" by (simp add: char_of_def)
    finally have "c = CHR 0x00" .
    moreover have "c \<in> set (user @ '':'' @ pass)" using that by (rule in_set_takeD)
    ultimately show False using assms(2,3) by simp
  qed
  with small have "\<forall>x \<in> set (map of_char ?a). 0 < x \<and> x < (256 :: nat)" by force
  then have "b64_decode r = map of_char ?a" unfolding r by (rule b64_decode_loop)
  then show ?thesis by (simp add: comp_def)
qed

end
