(* ===== verification/Url.thy ===== *)
theory Url
  imports Text
begin

text \<open>
  URLs (\<^verbatim>\<open>conn.c\<close>): \<open>conn_set\<close> takes an URL apart into the fields of a connection and \<open>conn_url\<close>
  puts one together. The lemmas show that a URL made by \<open>conn_url\<close> is taken apart into the
  fields it was made from.
\<close>

definition PROTO_HTTP :: int where "PROTO_HTTP = 1"
definition PROTO_DEFAULT :: int where "PROTO_DEFAULT = PROTO_HTTP"

section \<open>Operations\<close>

text \<open>Host and path, then directory and file: the last slash before a question mark divides.\<close>

definition split_dir_file :: "string \<Rightarrow> (string \<times> string) res" where
  "split_dir_file dir =
     (case strrchr (takeWhile (\<lambda>c. c \<noteq> CHR ''?'') dir) (CHR ''/'') of
        None \<Rightarrow> Inl NullDeref
      | Some (pre, post) \<Rightarrow> Inr (pre @ ''/'', tl post @ dropWhile (\<lambda>c. c \<noteq> CHR ''?'') dir))"

definition split_user :: "string \<Rightarrow> string \<times> string \<times> string" where
  "split_user host =
     (let (user, host) = (case strrchr host (CHR ''@'') of
            Some (a, b) \<Rightarrow> (a, tl b)
          | None \<Rightarrow> ('''', host))
      in case strchr user (CHR '':'') of
           Some (a, b) \<Rightarrow> (a, tl b, host)
         | None \<Rightarrow> (user, '''', host))"

definition split_port :: "int \<Rightarrow> string \<Rightarrow> string \<times> int" where
  "split_port old host =
     (case strchr host (CHR '':'') of
        Some (a, b) \<Rightarrow> (a, case scan_i (skip_space (tl b)) of
                              Some v \<Rightarrow> to_int (max ll_min (min ll_max v))
                            | None \<Rightarrow> old)
      | None \<Rightarrow> (host, 80))"

definition conn_set_rest :: "conn_t \<Rightarrow> string \<Rightarrow> (conn_t \<times> bool) res" where
  "conn_set_rest c u =
     (let (host, dir) = (case strchr u (CHR ''/'') of
            None \<Rightarrow> (u, ''/'')
          | Some (a, b) \<Rightarrow> (a, http_encode (take (MAX_STRING - 1) b)))
      in bindR (split_dir_file dir) (\<lambda>(dir, file).
           let (user, pass, host) = split_user host;
               (host, n) = split_port (port c) host
           in Inr (c\<lparr>proto := PROTO_HTTP, c_host := host, c_dir := dir, c_file := file,
                     c_user := user, c_pass := pass, port := n\<rparr>, n > 0)))"

definition conn_set :: "conn_t \<Rightarrow> string \<Rightarrow> (conn_t \<times> bool) res" where
  "conn_set c set_url =
     (case strstr set_url ''://'' of
        None \<Rightarrow> bindR (copy_string set_url) (conn_set_rest c)
      | Some (_, rest) \<Rightarrow>
          if hd set_url = CHR ''h''
          then bindR (copy_string (drop 3 rest)) (conn_set_rest c)
          else Inr (c, False))"

definition conn_url_text :: "conn_t \<Rightarrow> string" where
  "conn_url_text c = ''http://''
     @ (if c_user c \<noteq> '''' \<and> c_user c \<noteq> ''anonymous'' then c_user c @ '':'' @ c_pass c @ ''@'' else '''')
     @ c_host c @ '':'' @ show_int (port c) @ c_dir c @ c_file c"

definition conn_url :: "conn_t \<Rightarrow> string res" where
  "conn_url c = (if proto c \<noteq> PROTO_HTTP then Inl Uninit else copy_string (conn_url_text c))"

section \<open>Splits\<close>

lemma strchr_split [simp]: "c \<notin> set a \<Longrightarrow> strchr (a @ c # b) c = Some (a, c # b)"
  by (induction a) (auto simp: strchr_def)

lemma strchr_None [simp]: "c \<notin> set a \<Longrightarrow> strchr a c = None"
  by (simp add: strchr_def)

lemma strrchr_split [simp]:
  assumes "c \<notin> set b"
  shows "strrchr (a @ c # b) c = Some (a, c # b)"
proof -
  have "takeWhile (\<lambda>x. x \<noteq> c) (rev (a @ c # b)) = rev b"
    using assms by (simp, subst takeWhile_append2) auto
  then show ?thesis by (simp add: strrchr_def del: rev_append)
qed

lemma strrchr_None [simp]: "c \<notin> set a \<Longrightarrow> strrchr a c = None"
  by (simp add: strrchr_def)

lemma show_int_pos: "0 < n \<Longrightarrow> show_int n = show_nat (nat n)"
  by (simp add: show_int_def)

lemma show_int_chars:
  "c \<in> set (show_int n) \<Longrightarrow> c = CHR ''-'' \<or> is_digit 10 c"
  by (auto simp: show_int_def dest: show_nat_digits split: if_splits)

lemma show_int_plain [simp]:
  "CHR ''/'' \<notin> set (show_int n)" "CHR ''@'' \<notin> set (show_int n)" "CHR ''?'' \<notin> set (show_int n)"
  by (auto dest!: show_int_chars simp: is_digit_def digit_val_def)

lemma scan_i_show_int:
  assumes "0 < n"
  shows "scan_i (skip_space (show_int n)) = Some n"
proof -
  obtain d ds where s: "show_nat (nat n) = d # ds" by (cases "show_nat (nat n)") auto
  have d: "is_digit 10 d" "d \<noteq> CHR ''0''"
    using show_nat_digits [of d "nat n"] show_nat_first [of "nat n"] assms by (simp_all add: s)
  then have "\<not> is_space d" "d \<noteq> CHR ''-''" "d \<noteq> CHR ''+''"
    by (auto simp: is_space_def is_digit_def digit_val_def Let_def split: if_splits)
  moreover have "scan_digits 10 0 (d # ds) = (n, [])"
    using scan_digits_show_nat [of "nat n" "[]"] assms by (simp add: s)
  ultimately show ?thesis using assms d
    by (simp add: show_int_pos s skip_space_def scan_i_def scan_signed_def hex_prefix_def
        scan_unsigned_def split: list.splits)
qed

section \<open>A made URL is taken apart into its parts\<close>

definition plain :: "string \<Rightarrow> string \<Rightarrow> bool" where
  "plain bad s \<longleftrightarrow> (\<forall>c \<in> set bad. c \<notin> set s)"

definition url_ok :: "conn_t \<Rightarrow> bool" where
  "url_ok c \<longleftrightarrow> proto c = PROTO_HTTP \<and> 0 < port c \<and> in_int (port c)
     \<and> plain ''/:@'' (c_host c) \<and> plain ''/:'' (c_user c) \<and> plain ''/'' (c_pass c)
     \<and> (c_user c = '''' \<longrightarrow> c_pass c = '''') \<and> c_user c \<noteq> ''anonymous''
     \<and> plain '' ?'' (c_dir c) \<and> c_dir c \<noteq> '''' \<and> hd (c_dir c) = CHR ''/'' \<and> last (c_dir c) = CHR ''/''
     \<and> plain '' /'' (c_file c) \<and> length (conn_url_text c) < MAX_STRING"

lemma split_dir_file_join:
  assumes "plain ''?'' (d @ ''/'')" "plain ''/'' f"
  shows "split_dir_file ((d @ ''/'') @ f) = Inr (d @ ''/'', f)"
proof -
  have "takeWhile (\<lambda>c. c \<noteq> CHR ''?'') ((d @ ''/'') @ f)
      = d @ CHR ''/'' # takeWhile (\<lambda>c. c \<noteq> CHR ''?'') f"
    using assms(1) by (subst takeWhile_append2) (auto simp: plain_def)
  moreover have "dropWhile (\<lambda>c. c \<noteq> CHR ''?'') ((d @ ''/'') @ f) = dropWhile (\<lambda>c. c \<noteq> CHR ''?'') f"
    using assms(1) by (subst dropWhile_append2) (auto simp: plain_def)
  moreover have "CHR ''/'' \<notin> set (takeWhile (\<lambda>c. c \<noteq> CHR ''?'') f)"
    using assms(2) by (auto simp: plain_def dest: set_takeWhileD)
  ultimately show ?thesis by (simp add: split_dir_file_def)
qed

lemma encode_plain: "CHR '' '' \<notin> set s \<Longrightarrow> length s < MAX_STRING \<Longrightarrow> http_encode s = s"
proof -
  assume s: "CHR '' '' \<notin> set s" "length s < MAX_STRING"
  then have "concat (map escape_char s) = s" by (induction s) (auto simp: escape_char_def)
  then show ?thesis using s encode_from_room [of 0 s] by (simp add: http_encode_def)
qed

lemma split_port_join:
  assumes "plain '':'' h" "0 < n" "in_int n"
  shows "split_port old (h @ CHR '':'' # show_int n) = (h, n)"
proof -
  have "max ll_min (min ll_max n) = n"
    using assms(2,3) by (simp add: in_int_def int_max_def ll_min_def ll_max_def)
  then show ?thesis using assms scan_i_show_int [OF assms(2)]
    by (simp add: split_port_def plain_def to_int_id)
qed

lemma conn_set_url:
  assumes "url_ok c"
  shows "bindR (conn_url c) (conn_set c') =
    Inr (c'\<lparr>proto := PROTO_HTTP, c_host := c_host c, c_dir := c_dir c, c_file := c_file c,
            c_user := c_user c, c_pass := c_pass c, port := port c\<rparr>, True)"
proof -
  note ok = assms [unfolded url_ok_def]
  let ?hp = "c_host c @ CHR '':'' # show_int (port c)"
  let ?cr = "if c_user c = '''' then '''' else c_user c @ CHR '':'' # c_pass c @ ''@''"
  let ?u = "(?cr @ ?hp) @ c_dir c @ c_file c"
  obtain d where d: "c_dir c = d @ ''/''" using ok by (metis append_butlast_last_id)
  obtain d' where d': "c_dir c = CHR ''/'' # d'" using ok by (metis list.collapse)
  have made: "conn_url_text c = ''http://'' @ ?u" using ok by (simp add: conn_url_text_def)
  have len: "length ?u + 7 < MAX_STRING" using ok by (simp add: made)
  have slash: "CHR ''/'' \<notin> set (?cr @ ?hp)" using ok by (auto simp: plain_def)
  have "strchr ?u (CHR ''/'') = Some (?cr @ ?hp, c_dir c @ c_file c)"
    using strchr_split [OF slash, of "d' @ c_file c"] by (simp add: d')
  moreover have "take (MAX_STRING - 1) (c_dir c @ c_file c) = c_dir c @ c_file c"
    using len by simp
  moreover have "http_encode (c_dir c @ c_file c) = c_dir c @ c_file c"
    using ok len by (intro encode_plain) (auto simp: plain_def)
  moreover have "split_dir_file (c_dir c @ c_file c) = Inr (c_dir c, c_file c)"
    using split_dir_file_join [of d "c_file c"] ok by (auto simp: d plain_def)
  moreover have "split_user (?cr @ ?hp) = (c_user c, c_pass c, ?hp)"
  proof (cases "c_user c = ''''")
    case True
    then show ?thesis using ok by (simp add: split_user_def plain_def)
  next
    case False
    have "strrchr ((c_user c @ CHR '':'' # c_pass c) @ CHR ''@'' # ?hp) (CHR ''@'')
        = Some (c_user c @ CHR '':'' # c_pass c, CHR ''@'' # ?hp)"
      using ok by (intro strrchr_split) (auto simp: plain_def)
    then show ?thesis using ok False by (simp add: split_user_def plain_def)
  qed
  moreover have "split_port (port c') ?hp = (c_host c, port c)"
    using ok by (intro split_port_join) (auto simp: plain_def)
  ultimately have rest: "conn_set_rest c' ?u = Inr (c'\<lparr>proto := PROTO_HTTP, c_host := c_host c,
      c_dir := c_dir c, c_file := c_file c, c_user := c_user c, c_pass := c_pass c, port := port c\<rparr>, True)"
    unfolding conn_set_rest_def using ok by simp
  have "bindR (conn_url c) (conn_set c') = conn_set c' (''http://'' @ ?u)"
    using ok by (simp add: conn_url_def copy_string_def made)
  also have "\<dots> = conn_set_rest c' ?u"
    using len by (simp add: conn_set_def copy_string_def)
  finally show ?thesis using rest by simp
qed

end
