(* ===== verification/Http.thy ===== *)
theory Http
  imports Url Sizing
begin

text \<open>
  Talking to the server (\<^verbatim>\<open>http.c\<close>, \<^verbatim>\<open>conn.c\<close> and the request and response functions of
  \<^verbatim>\<open>gb.c\<close>): the text of a request, reading the header of a response byte by byte, opening and
  closing a connection, the first exchange that learns the size of the file, and the thread
  that sets a connection up.
\<close>

section \<open>Requests\<close>

abbreviation crlf :: string where
  "crlf \<equiv> [CHR 0x0D, CHR 0x0A]"

definition http_addheader :: "string \<Rightarrow> http_t \<Rightarrow> http_t" where
  "http_addheader line h = h\<lparr>h_request := h_request h
     @ take (MAX_QUERY - length (h_request h) - 1) (take (MAX_STRING - 4) line @ crlf)\<rparr>"

definition range_line :: "int \<Rightarrow> int \<Rightarrow> string" where
  "range_line a b =
     (if b \<noteq> 0 then ''Range: bytes='' @ show_int a @ ''-'' @ show_int b
      else ''Range: bytes='' @ show_int a @ ''-'')"

definition http_get :: "string \<Rightarrow> http_t \<Rightarrow> http_t" where
  "http_get lurl h =
     (let h1 = http_addheader (''GET '' @ lurl @ '' HTTP/1.1'') (h\<lparr>h_request := ''''\<rparr>);
          h2 = http_addheader (''Host: '' @ h_host h1) h1;
          h3 = (if h_auth h2 \<noteq> '''' then http_addheader (''Authorization: Basic '' @ h_auth h2) h2 else h2)
      in http_addheader (range_line (h_firstbyte h3) (h_lastbyte h3)) h3)"

definition add_conf_headers :: "conf_t \<Rightarrow> http_t \<Rightarrow> http_t" where
  "add_conf_headers cf h =
     fold http_addheader (take (nat (add_header_count cf)) (add_header cf))
       (http_addheader (''User-Agent: '' @ user_agent cf) h)"

definition end_request :: "http_t \<Rightarrow> http_t" where
  "end_request h = http_addheader '''' (http_addheader ''Connection: keep-alive'' h)"

definition upd_http :: "link \<Rightarrow> (http_t \<Rightarrow> http_t) \<Rightarrow> proc \<Rightarrow> proc" where
  "upd_http k f = upd_conn k (\<lambda>c. c\<lparr>c_http := f (c_http c)\<rparr>)"

text \<open>\<open>write\<close> of the request text; it fails on a closed socket.\<close>

definition send_request :: "link \<Rightarrow> proc \<Rightarrow> proc" where
  "send_request k p =
     (let h = c_http (conn p k) in if h_fd h < 0 then p else p\<lparr>wire := wire p @ [(k, h)]\<rparr>)"

definition request_path :: "conn_t \<Rightarrow> string" where
  "request_path c = take (MAX_STRING - 1) (c_dir c @ c_file c)"

definition gb_get_request :: "link \<Rightarrow> int \<Rightarrow> int \<Rightarrow> proc \<Rightarrow> proc" where
  "gb_get_request k a b p =
     send_request k (upd_http k (\<lambda>h. end_request (add_conf_headers (conf p)
       (http_get (request_path (conn p k))
          (h\<lparr>h_request := '''', h_firstbyte := a, h_lastbyte := b\<rparr>)))) p)"

section \<open>Responses\<close>

text \<open>
  The header loop of \<open>gb_receive_http_header_response\<close> and \<open>http_exec\<close> on the bytes that the
  peer sends until it closes: carriage returns are dropped, an empty line ends the header.
  \<open>i\<close> counts the bytes of the current line. \<open>strncat\<close> is given the size of the array and not
  the room left in it.
\<close>

fun read_headers :: "string \<Rightarrow> nat \<Rightarrow> string \<Rightarrow> (bool \<times> string \<times> string) res" where
  "read_headers [] i hs = Inr (False, ''Connection gone.'' @ [CHR 0x0A], [])"
| "read_headers (c # cs) i hs =
     (if c = CHR 0x0D then read_headers cs i hs
      else if c = CHR 0x0A \<and> i = 0 then Inr (True, hs, cs)
      else let i' = (if c = CHR 0x0A then 0 else i + 1) in
        if c = CHR 0x00 then read_headers cs i' hs
        else if length hs + 1 \<ge> MAX_QUERY then Inl OutOfBounds
        else read_headers cs i' (hs @ [c]))"

text \<open>What a socket delivers: nothing when it is closed.\<close>

definition stream :: "proc \<Rightarrow> link \<Rightarrow> string" where
  "stream p k = (if h_fd (c_http (conn p k)) < 0 then [] else rx p k)"

definition gb_receive_http_header_response :: "link \<Rightarrow> proc \<Rightarrow> (bool \<times> proc) res" where
  "gb_receive_http_header_response k p =
     bindR (read_headers (stream p k) 0 []) (\<lambda>(ok, hs, rest).
       Inr (ok, (upd_http k (\<lambda>h. h\<lparr>h_headers := hs\<rparr>) p)\<lparr>rx := (rx p)(k := rest)\<rparr>))"

text \<open>\<open>sscanf\<close> with \<open>%Ns\<close>: skip space, then at most \<open>N\<close> characters that are not space.\<close>

definition scan_token :: "nat \<Rightarrow> string \<Rightarrow> string option" where
  "scan_token n s = (let t = take n (takeWhile (\<lambda>c. \<not> is_space c) (skip_space s))
     in if t = [] then None else Some t)"

text \<open>\<open>sscanf(headers, "%*s %3i", &status)\<close>\<close>

definition scan_status :: "string \<Rightarrow> int \<Rightarrow> int" where
  "scan_status hs old =
     (case scan_token (length hs) hs of
        None \<Rightarrow> old
      | Some _ \<Rightarrow>
          (case scan_i (take 3 (skip_space (dropWhile (\<lambda>c. \<not> is_space c) (skip_space hs)))) of
             None \<Rightarrow> old
           | Some v \<Rightarrow> v))"

definition http_exec :: "link \<Rightarrow> proc \<Rightarrow> (bool \<times> proc) res" where
  "http_exec k p =
     bindR (gb_receive_http_header_response k (send_request k (upd_http k end_request p))) (\<lambda>(ok, p1).
       if \<not> ok then Inr (False, p1)
       else let hs = h_headers (c_http (conn p1 k)) in
         case strchr hs (CHR 0x0A) of
           None \<Rightarrow> Inl NullDeref
         | Some (line, _) \<Rightarrow>
             Inr (True, upd_http k (\<lambda>h. h\<lparr>h_status := scan_status hs (h_status h), h_request := line\<rparr>) p1))"

definition lower :: "char \<Rightarrow> char" where
  "lower c = (let n = (of_char c :: nat) in if 65 \<le> n \<and> n \<le> 90 then char_of (n + 32) else c)"

text \<open>
  The loop of \<open>http_header\<close>; \<open>tok\<close> is the array \<open>s\<close>, which keeps the last token read.
\<close>

fun find_header :: "string \<Rightarrow> string option \<Rightarrow> char \<Rightarrow> string \<Rightarrow> string option res" where
  "find_header name tok prev [] = Inr None"
| "find_header name tok prev (c # cs) =
     (if prev = CHR 0x0A then
        (case (case scan_token 31 (c # cs) of Some t \<Rightarrow> Some t | None \<Rightarrow> tok) of
           None \<Rightarrow> Inl Uninit
         | Some t \<Rightarrow>
             if map lower t = map lower name then Inr (Some (drop (length name) (c # cs)))
             else find_header name (Some t) c cs)
      else find_header name tok c cs)"

definition http_header :: "http_t \<Rightarrow> string \<Rightarrow> string option res" where
  "http_header h name =
     (case h_headers h of [] \<Rightarrow> Inl Uninit | c # cs \<Rightarrow> find_header name None c cs)"

definition http_size :: "http_t \<Rightarrow> int res" where
  "http_size h = bindR (http_header h ''Content-Length:'') (\<lambda>r.
     case r of
       None \<Rightarrow> Inr (- 2)
     | Some t \<Rightarrow> (case scan_signed (scan_unsigned 10) (skip_space t) of
                    None \<Rightarrow> Inl Uninit
                  | Some v \<Rightarrow> Inr (max ll_min (min ll_max v))))"

section \<open>Connections\<close>

definition http_disconnect :: "http_t \<Rightarrow> http_t" where
  "http_disconnect h = h\<lparr>h_fd := - 1\<rparr>"

text \<open>Bytes that a closed socket had not delivered are lost.\<close>

definition conn_disconnect :: "link \<Rightarrow> proc \<Rightarrow> proc" where
  "conn_disconnect k p =
     (let p1 = (if proto (conn p k) = PROTO_HTTP
                then (upd_http k http_disconnect p)
                       \<lparr>rx := (if h_fd (c_http (conn p k)) > 0 then (rx p)(k := []) else rx p)\<rparr>
                else p)
      in upd_conn k (\<lambda>c. c\<lparr>c_fd := - 1\<rparr>) p1)"

text \<open>
  The \<open>auth\<close> array is overwritten from its start and gets no terminator of its own: what was
  longer before shows through.
\<close>

definition set_auth :: "string \<Rightarrow> string \<Rightarrow> string \<Rightarrow> string res" where
  "set_auth old user pass =
     (if user = '''' then Inr '''' else bindR (http_auth user pass) (\<lambda>r. Inr (r @ drop (length r) old)))"

definition http_connect :: "env \<Rightarrow> link \<Rightarrow> proc \<Rightarrow> (bool \<times> proc) res" where
  "http_connect E k p =
     (let c = conn p k; (fd, bytes) = env_connect E (tick p);
          p1 = (upd_http k (\<lambda>h. h\<lparr>h_host := c_host c, h_fd := fd\<rparr>) p)\<lparr>tick := Suc (tick p)\<rparr>
      in if fd = - 1 then Inr (False, p1)
         else bindR (set_auth (h_auth (c_http c)) (c_user c) (c_pass c)) (\<lambda>a.
                Inr (True, (upd_http k (\<lambda>h. h\<lparr>h_auth := a\<rparr>) p1)\<lparr>rx := (rx p)(k := bytes)\<rparr>)))"

definition conn_init :: "env \<Rightarrow> link \<Rightarrow> proc \<Rightarrow> (bool \<times> proc) res" where
  "conn_init E k p =
     (if proto (conn p k) = PROTO_HTTP then
        bindR (http_connect E k p) (\<lambda>(ok, p1).
          if \<not> ok then Inr (False, conn_disconnect k p1)
          else Inr (True, upd_conn k (\<lambda>c. c\<lparr>c_fd := h_fd (c_http c)\<rparr>) p1))
      else Inr (True, p))"

definition conn_setup :: "env \<Rightarrow> link \<Rightarrow> proc \<Rightarrow> (bool \<times> proc) res" where
  "conn_setup E k p =
     bindR (if h_fd (c_http (conn p k)) \<le> 0 then conn_init E k p else Inr (True, p)) (\<lambda>(ok, p1).
       if \<not> ok then Inr (False, p1)
       else if proto (conn p1 k) = PROTO_HTTP then
         let c = conn p1 k in
         Inr (True, upd_http k (\<lambda>h. add_conf_headers (conf p1) (http_get (request_path c)
                      (h\<lparr>h_firstbyte := currentbyte c, h_lastbyte := lastbyte c\<rparr>))) p1)
       else Inr (True, p1))"

definition conn_exec :: "link \<Rightarrow> proc \<Rightarrow> (bool \<times> proc) res" where
  "conn_exec k p =
     (if proto (conn p k) = PROTO_HTTP then
        bindR (http_exec k p) (\<lambda>(ok, p1).
          Inr (ok \<and> h_status (c_http (conn p1 k)) sdiv 100 = 2, p1))
      else Inr (False, p))"

section \<open>The first exchange: \<open>conn_info\<close>\<close>

definition MAX_REDIR :: nat where "MAX_REDIR = 5"

text \<open>The target of a redirect, as the URL given to \<open>conn_set\<close>.\<close>

definition redirect_url :: "conn_t \<Rightarrow> string \<Rightarrow> string res" where
  "redirect_url c s =
     (if strstr s ''://'' = None then bindR (conn_url c) (\<lambda>u. copy_string (u @ s))
      else if s \<noteq> [] \<and> hd s = CHR ''/''
      then copy_string (''http://'' @ c_host c @ '':'' @ show_int (port c) @ s)
      else copy_string s)"

text \<open>
  One turn of the loop: \<open>None\<close> for \<open>return 0\<close>, otherwise whether the server redirected.
\<close>

definition conn_info_turn :: "env \<Rightarrow> link \<Rightarrow> proc \<Rightarrow> (bool option \<times> proc) res" where
  "conn_info_turn E k p =
     bindR (conn_setup E k (upd_conn k (\<lambda>c. c\<lparr>currentbyte := 1\<rparr>) p)) (\<lambda>(ok, p1).
       if \<not> ok then Inr (None, p1)
       else bindR (conn_exec k p1) (\<lambda>(_, p2).
         let p3 = conn_disconnect k p2; c = conn p3 k in
         if h_status (c_http c) sdiv 100 \<noteq> 3 then Inr (Some False, p3)
         else bindR (http_header (c_http c) ''location:'') (\<lambda>r.
           case r of
             None \<Rightarrow> Inr (None, p3)
           | Some t \<Rightarrow>
               (case scan_token 255 t of
                  None \<Rightarrow> Inl Uninit
                | Some s \<Rightarrow>
                    bindR (redirect_url c s) (\<lambda>u.
                    bindR (conn_set (if strstr s ''://'' = None \<or> hd s = CHR ''/''
                                     then c\<lparr>c_http := (c_http c)\<lparr>h_headers := u\<rparr>\<rparr> else c) u) (\<lambda>(c', _).
                      Inr (Some True, upd_conn k (\<lambda>_. c') p3)))))))"

fun conn_info_loop :: "env \<Rightarrow> link \<Rightarrow> nat \<Rightarrow> proc \<Rightarrow> (bool option \<times> proc) res" where
  "conn_info_loop E k 0 p = Inr (Some True, p)"
| "conn_info_loop E k (Suc n) p =
     bindR (conn_info_turn E k p) (\<lambda>(r, p1).
       if r = Some True then conn_info_loop E k n p1 else Inr (r, p1))"

definition conn_info :: "env \<Rightarrow> link \<Rightarrow> proc \<Rightarrow> (bool \<times> proc) res" where
  "conn_info E k p =
     (if proto (conn p k) = PROTO_HTTP then
        bindR (conn_info_loop E k MAX_REDIR p) (\<lambda>(r, p1).
          if r = None then Inr (False, p1)
          else if r = Some True
          then Inr (False, upd_http k (\<lambda>h. h\<lparr>h_headers := ''Too many redirects.'' @ [CHR 0x0A]\<rparr>) p1)
          else let h = c_http (conn p1 k) in
            bindR (http_size h) (\<lambda>n.
              if h_status h = 206 \<and> n \<ge> 0
              then Inr (True, upd_conn k (\<lambda>c. c\<lparr>supported := True, c_size := n + 1\<rparr>) p1)
              else if h_status h = 200 \<or> h_status h = 206
              then Inr (True, upd_conn k (\<lambda>c. c\<lparr>supported := False, c_size := int_max\<rparr>) p1)
              else Inr (False, upd_http k (\<lambda>h. h\<lparr>h_headers := (case strchr (h_headers h) (CHR 0x0A) of
                     None \<Rightarrow> ''Unknown HTTP error.'' @ [CHR 0x0A]
                   | Some (line, _) \<Rightarrow> line)\<rparr>) (upd_conn k (\<lambda>c. c\<lparr>c_size := n\<rparr>) p1))))
      else Inr (True, p))"

section \<open>\<open>setup_thread\<close>\<close>

definition touch :: "env \<Rightarrow> link \<Rightarrow> proc \<Rightarrow> proc res" where
  "touch E k p = (let (now, p1) = gettime E p in
     bindR (cast_int now) (\<lambda>t. Inr (upd_conn k (\<lambda>c. c\<lparr>last_transfer := t\<rparr>) p1)))"

definition setup_thread :: "env \<Rightarrow> link \<Rightarrow> proc \<Rightarrow> proc res" where
  "setup_thread E k p =
     (let fail = (\<lambda>q. Inr (upd_conn k (\<lambda>c. c\<lparr>c_state := False\<rparr>) (conn_disconnect k q))) in
      bindR (conn_setup E k (p\<lparr>thread := (thread p)(k := False)\<rparr>)) (\<lambda>(ok, p1).
        if \<not> ok then fail p1
        else bindR (touch E k p1) (\<lambda>p2.
          bindR (conn_exec k p2) (\<lambda>(ok, p3).
            if \<not> ok then fail p3
            else bindR (touch E k p3) (\<lambda>p4.
              Inr (upd_conn k (\<lambda>c. c\<lparr>enabled := True, c_state := False\<rparr>) p4))))))"

end
