(* ===== verification/Http_Laws.thy ===== *)
theory Http_Laws
  imports Http
begin

text \<open>
  What the HTTP exchange guarantees: the \<open>Range\<close> line names exactly the bytes of a chunk, the
  request text is the concatenation of its lines when they fit and never outgrows its array,
  the header reader stops at the empty line and leaves the first byte of the body unread, and
  none of it touches the segments.
\<close>

section \<open>The \<open>Range\<close> line\<close>

text \<open>A server's reading of the line.\<close>

definition parse_range :: "string \<Rightarrow> (int \<times> int) option" where
  "parse_range s =
     (let pre = ''Range: bytes='' in
      if take (length pre) s = pre then
        (case scan_digits 10 0 (drop (length pre) s) of
           (a, c # rest) \<Rightarrow>
             (if c = CHR ''-'' \<and> scan_unsigned 10 rest \<noteq> None
              then Some (a, the (scan_unsigned 10 rest)) else None)
         | _ \<Rightarrow> None)
      else None)"

lemma parse_range_line:
  assumes "0 \<le> a" "0 < b"
  shows "parse_range (range_line a b) = Some (a, b)"
proof -
  have "digit_val (CHR ''-'') = None" by (simp add: digit_val_def)
  then have "scan_digits 10 0 (show_int a @ CHR ''-'' # show_int b) = (a, CHR ''-'' # show_int b)"
    using assms(1) scan_digits_show_nat [of "nat a"] by (simp add: show_int_nonneg)
  then show ?thesis
    using assms scan_unsigned_show [of b]
    by (simp add: parse_range_def range_line_def Let_def)
qed

interpretation ranges: codec "\<lambda>(a, b). 0 \<le> a \<and> 0 < b" "\<lambda>(a, b). range_line a b" parse_range Some
  by unfold_locales (auto simp: parse_range_line)

section \<open>The request text\<close>

definition request_lines :: "conf_t \<Rightarrow> conn_t \<Rightarrow> int \<Rightarrow> int \<Rightarrow> string list" where
  "request_lines cf c a b =
     [''GET '' @ request_path c @ '' HTTP/1.1'', ''Host: '' @ h_host (c_http c)]
     @ (if h_auth (c_http c) \<noteq> '''' then [''Authorization: Basic '' @ h_auth (c_http c)] else [])
     @ [range_line a b, ''User-Agent: '' @ user_agent cf]
     @ take (nat (add_header_count cf)) (add_header cf)
     @ [''Connection: keep-alive'', '''']"

definition joined :: "string list \<Rightarrow> string" where
  "joined ls = concat (map (\<lambda>l. l @ crlf) ls)"

lemma joined_simps [simp]: "joined [] = []" "joined (l # ls) = l @ crlf @ joined ls"
  "joined (ls @ ms) = joined ls @ joined ms"
  by (simp_all add: joined_def)

lemma http_addheader_frame [simp]:
  "h_host (http_addheader l h) = h_host h" "h_auth (http_addheader l h) = h_auth h"
  "h_firstbyte (http_addheader l h) = h_firstbyte h" "h_lastbyte (http_addheader l h) = h_lastbyte h"
  "h_fd (http_addheader l h) = h_fd h" "h_headers (http_addheader l h) = h_headers h"
  "h_status (http_addheader l h) = h_status h"
  by (simp_all add: http_addheader_def)

lemma http_addheader_length:
  assumes "length (h_request h) < MAX_QUERY"
  shows "length (h_request (http_addheader l h)) < MAX_QUERY"
proof -
  have "length (r @ take (n - length r - 1) t) < n" if "length r < n" for r t :: string and n
    using that by simp
  from this [OF assms] show ?thesis by (simp add: http_addheader_def del: take_append length_append)
qed

lemma fold_addheader:
  "length (h_request h) + length (joined ls) < MAX_QUERY \<Longrightarrow>
   \<forall>l \<in> set ls. length l \<le> MAX_STRING - 4 \<Longrightarrow>
   fold http_addheader ls h = h\<lparr>h_request := h_request h @ joined ls\<rparr>"
proof (induction ls arbitrary: h)
  case (Cons l ls)
  have "http_addheader l h = h\<lparr>h_request := h_request h @ l @ crlf\<rparr>"
    using Cons.prems by (simp add: http_addheader_def)
  then show ?case using Cons by simp
qed simp

lemma request_is_fold:
  assumes "h_request h = ''''"
  shows "end_request (add_conf_headers cf (http_get (request_path c)
           (h\<lparr>h_firstbyte := a, h_lastbyte := b\<rparr>)))
       = fold http_addheader (request_lines cf (c\<lparr>c_http := h\<rparr>) a b) (h\<lparr>h_firstbyte := a, h_lastbyte := b\<rparr>)"
  using assms
  by (cases h) (simp add: end_request_def add_conf_headers_def http_get_def request_lines_def Let_def request_path_def)

lemma request_text:
  assumes fits: "length (joined (request_lines (conf p) (conn p k) a b)) < MAX_QUERY"
    and short: "\<forall>l \<in> set (request_lines (conf p) (conn p k) a b). length l \<le> MAX_STRING - 4"
    and open_fd: "0 \<le> h_fd (c_http (conn p k))"
  shows "\<exists>h. wire (gb_get_request k a b p) = wire p @ [(k, h)]
     \<and> h_request h = joined (request_lines (conf p) (conn p k) a b)"
proof -
  let ?h = "(c_http (conn p k))\<lparr>h_request := ''''\<rparr>"
  let ?c = "(conn p k)\<lparr>c_http := ?h\<rparr>"
  have l: "request_lines (conf p) ?c a b = request_lines (conf p) (conn p k) a b"
    by (simp add: request_lines_def request_path_def)
  have "end_request (add_conf_headers (conf p) (http_get (request_path (conn p k))
      (?h\<lparr>h_firstbyte := a, h_lastbyte := b\<rparr>)))
    = (?h\<lparr>h_firstbyte := a, h_lastbyte := b\<rparr>)\<lparr>h_request := joined (request_lines (conf p) (conn p k) a b)\<rparr>"
    using fold_addheader [of "?h\<lparr>h_firstbyte := a, h_lastbyte := b\<rparr>"] fits short
    by (simp add: request_is_fold l)
  then show ?thesis
    using open_fd by (simp add: gb_get_request_def send_request_def upd_http_def Let_def)
qed

section \<open>The header reader\<close>

text \<open>The header of a response as the reader keeps it: its lines, each ended by a newline.\<close>

definition header_line :: "string \<Rightarrow> bool" where
  "header_line l \<longleftrightarrow> l \<noteq> [] \<and> (\<forall>c \<in> set l. c \<noteq> CHR 0x0D \<and> c \<noteq> CHR 0x0A \<and> c \<noteq> CHR 0x00)"

definition kept :: "string list \<Rightarrow> string" where
  "kept ls = concat (map (\<lambda>l. l @ [CHR 0x0A]) ls)"

lemma read_headers_run:
  assumes "\<forall>c \<in> set l. c \<noteq> CHR 0x0D \<and> c \<noteq> CHR 0x0A \<and> c \<noteq> CHR 0x00"
    and "length hs + length l < MAX_QUERY"
  shows "read_headers (l @ cs) i hs = read_headers cs (i + length l) (hs @ l)"
  using assms by (induction l arbitrary: i hs) auto

lemma read_headers_line:
  assumes "header_line l" "length hs + length l + 1 < MAX_QUERY"
  shows "read_headers (l @ crlf @ cs) i hs = read_headers cs 0 (hs @ l @ [CHR 0x0A])"
  using assms read_headers_run [of l hs "crlf @ cs" i] by (auto simp: header_line_def)

lemma read_headers_response:
  assumes "\<forall>l \<in> set ls. header_line l" "length hs + length (kept ls) < MAX_QUERY"
  shows "read_headers (joined ls @ crlf @ body) 0 hs = Inr (True, hs @ kept ls, body)"
  using assms
proof (induction ls arbitrary: hs)
  case (Cons l ls)
  have "length hs + length l + 1 < MAX_QUERY" using Cons.prems by (simp add: kept_def)
  then have "read_headers (joined (l # ls) @ crlf @ body) 0 hs
      = read_headers (joined ls @ crlf @ body) 0 (hs @ l @ [CHR 0x0A])"
    using read_headers_line [of l hs "joined ls @ crlf @ body" 0] Cons.prems by simp
  also have "\<dots> = Inr (True, (hs @ l @ [CHR 0x0A]) @ kept ls, body)"
    using Cons by (intro Cons.IH) (simp_all add: kept_def)
  finally show ?case by (simp add: kept_def)
qed (simp add: kept_def)

text \<open>Whatever the peer sends, what is left is what was not read.\<close>

lemma read_headers_suffix:
  "read_headers cs i hs = Inr (ok, hs', rest) \<Longrightarrow>
   (\<exists>used. cs = used @ rest) \<and> (\<not> ok \<longrightarrow> rest = [])"
proof (induction cs i hs rule: read_headers.induct)
  case (2 c cs i hs)
  show ?case
  proof (cases "c = CHR 0x0A \<and> i = 0")
    case True
    then show ?thesis using "2.prems" by auto
  next
    case False
    then have "\<exists>j hs''. read_headers cs j hs'' = Inr (ok, hs', rest)
        \<and> (\<exists>used. cs = used @ rest) \<and> (\<not> ok \<longrightarrow> rest = [])"
      using 2 by (auto simp: Let_def split: if_splits)
    then show ?thesis by (metis append_Cons)
  qed
qed auto

end
