(* ===== verification/Protocol_Theorems.thy ===== *)
theory Protocol_Theorems
  imports Http_Laws Samples
begin

text \<open>
  The theorems about URLs, escapes, base64 and the HTTP exchange: round trips of what is written
  with what is read, the bounds of the buffers, and what happens outside them.
\<close>

section \<open>URLs\<close>

text \<open>C14: the URL that \<open>conn_url\<close> makes of a connection is taken apart by \<open>conn_set\<close> into exactly
  the fields it was made from, for any target connection.\<close>

theorem url_round_trip:
  assumes "url_ok c"
  shows "bindR (conn_url c) (conn_set c') =
    Inr (c'\<lparr>proto := PROTO_HTTP, c_host := c_host c, c_dir := c_dir c, c_file := c_file c,
            c_user := c_user c, c_pass := c_pass c, port := port c\<rparr>, True)"
  using assms by (rule conn_set_url)

lemma sample_url_ok: "url_ok (sample_conn\<lparr>c_user := ''bob'', c_pass := ''secret''\<rparr>)"
  by (simp add: url_ok_def plain_def sample_defs PROTO_HTTP_def in_int_def int_min_def int_max_def
      conn_url_text_def MAX_STRING_def show_int_def show_nat.simps)

theorem url_round_trip_witness:
  "bindR (conn_url (sample_conn\<lparr>c_user := ''bob'', c_pass := ''secret''\<rparr>)) (conn_set sample_conn) =
    Inr (sample_conn\<lparr>proto := PROTO_HTTP, c_host := ''video.org'', c_dir := ''/m/'', c_file := ''a.mp4'',
            c_user := ''bob'', c_pass := ''secret'', port := 80\<rparr>, True)"
  using url_round_trip [OF sample_url_ok, of sample_conn] by (simp add: sample_defs)

section \<open>Escapes\<close>

text \<open>C40: \<open>http_decode\<close> undoes \<open>http_encode\<close> on every text without a percent sign whose escaped
  form fits the buffer.\<close>

theorem decode_encode:
  assumes "CHR ''%'' \<notin> set s" "CHR 0x00 \<notin> set s" "length (concat (map escape_char s)) < MAX_STRING"
  shows "http_decode (http_encode s) = Inr s"
  using assms by (intro escapes.round_trip) simp

theorem decode_encode_witness: "http_decode (http_encode ''a b/c d'') = Inr ''a b/c d''"
  by (rule decode_encode) (simp_all add: escape_char_def MAX_STRING_def)

text \<open>whatever the text, \<open>http_encode\<close> stays inside its buffer and leaves no space.\<close>

theorem encode_bounded:
  "length (http_encode s) < MAX_STRING \<and> CHR '' '' \<notin> set (http_encode s)"
  using encode_from_length [of 0 s] encode_from_no_space [of 0 s]
  by (simp add: http_encode_def MAX_STRING_def)

text \<open>\<open>http_decode\<close> on a text that ends in a percent sign (or a percent sign followed by
  space only) uses a variable that was never set: \<open>sscanf\<close> reports the end of the text as -1,
  which the code takes for a match.\<close>

theorem decode_trailing_percent:
  assumes "CHR ''%'' \<notin> set s" "\<forall>c \<in> set w. is_space c"
  shows "http_decode (s @ ''%'' @ w) = Inl Uninit"
proof -
  have "skip_space w = []" using assms(2) by (simp add: skip_space_def dropWhile_eq_Nil_conv)
  then have "decode_loop (s @ ''%'' @ w) = Inl Uninit" using assms(1) by (induction s) auto
  then show ?thesis by (simp add: http_decode_def)
qed

theorem decode_trailing_percent_witness: "http_decode (''100'' @ ''%'' @ '' '') = Inl Uninit"
  by (rule decode_trailing_percent) (simp_all add: is_space_def)

section \<open>Base64\<close>

text \<open>what \<open>http_connect\<close> puts into the \<open>Authorization\<close> header decodes to \<open>user:pass\<close> (cut at
  the buffer), padding included.\<close>

theorem authorization_decodes:
  assumes "http_auth user pass = Inr r" "CHR 0x00 \<notin> set user" "CHR 0x00 \<notin> set pass"
  shows "map char_of (b64_decode r) = take (MAX_STRING - 1) (user @ '':'' @ pass)"
  using assms by (rule http_auth_decodes)

theorem authorization_decodes_witness:
  "\<exists>r. http_auth ''bob'' ''pw'' = Inr r \<and> map char_of (b64_decode r) = take (MAX_STRING - 1) ''bob:pw''"
proof -
  have "\<exists>r. http_auth ''bob'' ''pw'' = Inr r"
    by (simp add: http_auth_def MAX_STRING_def Let_def b64_group_def)
  then obtain r where r: "http_auth ''bob'' ''pw'' = Inr r" ..
  from authorization_decodes [OF r] r show ?thesis by simp
qed

section \<open>Requests\<close>

text \<open>the \<open>Range\<close> line of a request for a chunk, read back by a server, names exactly the
  first and the last byte of the chunk.\<close>

theorem range_round_trip:
  assumes "0 \<le> a" "0 < b"
  shows "parse_range (range_line a b) = Some (a, b)"
  using assms ranges.round_trip [of "(a, b)"] by simp

theorem range_round_trip_witness: "parse_range (range_line 0 1023) = Some (0, 1023)"
  by (rule range_round_trip) simp_all

text \<open>C23: a request whose lines fit the buffers goes out on the socket as exactly its lines, each
  ended by CR LF, ending in an empty line.\<close>

theorem request_is_its_lines:
  assumes "length (joined (request_lines (conf p) (conn p k) a b)) < MAX_QUERY"
    and "\<forall>l \<in> set (request_lines (conf p) (conn p k) a b). length l \<le> MAX_STRING - 4"
    and "0 \<le> h_fd (c_http (conn p k))"
  shows "\<exists>h. wire (gb_get_request k a b p) = wire p @ [(k, h)]
     \<and> h_request h = joined (request_lines (conf p) (conn p k) a b)"
  using assms by (rule request_text)

theorem request_is_its_lines_witness:
  "\<exists>h. wire (gb_get_request LTE 0 29 sample) = wire sample @ [(LTE, h)]
     \<and> h_request h = joined (request_lines (conf sample) (conn sample LTE) 0 29)"
  by (rule request_is_its_lines)
     (simp_all add: request_lines_def request_path_def range_line_def sample_defs MAX_QUERY_def MAX_STRING_def
        show_int_def show_nat.simps)

lemma fold_addheader_length:
  "length (h_request h) < MAX_QUERY \<Longrightarrow> length (h_request (fold http_addheader ls h)) < MAX_QUERY"
  by (induction ls arbitrary: h) (auto intro: http_addheader_length)

text \<open>C38: however long the path, the host or the configured headers are, the request text of a
  connection stays inside its array.\<close>

theorem request_bounded:
  "length (h_request (c_http (conn (gb_get_request k a b p) k))) < MAX_QUERY"
proof -
  let ?h = "(c_http (conn p k))\<lparr>h_request := ''''\<rparr>"
  have "length (h_request (end_request (add_conf_headers (conf p) (http_get (request_path (conn p k))
      (?h\<lparr>h_firstbyte := a, h_lastbyte := b\<rparr>))))) < MAX_QUERY"
    unfolding request_is_fold [of ?h, simplified] by (rule fold_addheader_length) (simp add: MAX_QUERY_def)
  then show ?thesis by (simp add: gb_get_request_def send_request_def upd_http_def Let_def)
qed

section \<open>Responses\<close>

text \<open>C22: of a response whose header fits its array, the reader keeps the header's lines without
  the carriage returns and leaves the body, from its first byte on, in the socket.\<close>

theorem header_reader_leaves_body:
  assumes "\<forall>l \<in> set ls. header_line l" "length (kept ls) < MAX_QUERY" "0 \<le> h_fd (c_http (conn p k))"
    and "rx p k = joined ls @ crlf @ body"
  shows "\<exists>q. gb_receive_http_header_response k p = Inr (True, q)
    \<and> h_headers (c_http (conn q k)) = kept ls \<and> rx q k = body \<and> rx q (other k) = rx p (other k)"
  using assms read_headers_response [of ls "[]" body]
  by (auto simp: gb_receive_http_header_response_def stream_def upd_http_def)

theorem header_reader_leaves_body_witness:
  "\<exists>q. gb_receive_http_header_response WIFI
        (sample\<lparr>rx := (\<lambda>_. joined [''HTTP/1.1 206 OK'', ''Content-Length: 3''] @ crlf @ ''xyz'')\<rparr>) = Inr (True, q)
    \<and> h_headers (c_http (conn q WIFI)) = kept [''HTTP/1.1 206 OK'', ''Content-Length: 3'']
    \<and> rx q WIFI = ''xyz''
    \<and> rx q (other WIFI) = joined [''HTTP/1.1 206 OK'', ''Content-Length: 3''] @ crlf @ ''xyz''"
  using header_reader_leaves_body [where k = WIFI and body = "''xyz''"
      and p = "sample\<lparr>rx := (\<lambda>_. joined [''HTTP/1.1 206 OK'', ''Content-Length: 3''] @ crlf @ ''xyz'')\<rparr>"
      and ls = "[''HTTP/1.1 206 OK'', ''Content-Length: 3'']"]
  by (simp add: header_line_def kept_def sample_defs MAX_QUERY_def)

lemma read_headers_overflow:
  assumes "\<forall>c \<in> set l. c \<noteq> CHR 0x0D \<and> c \<noteq> CHR 0x0A \<and> c \<noteq> CHR 0x00"
    and "MAX_QUERY \<le> length hs + length l" "length hs < MAX_QUERY"
  shows "read_headers (l @ cs) i hs = Inl OutOfBounds"
  using assms by (induction l arbitrary: i hs) auto

text \<open>a response header of 2048 bytes or more runs past the end of its array: \<open>strncat\<close> is given
  the size of the array where it wants the room left.\<close>

theorem long_header_overflows:
  assumes "\<forall>c \<in> set l. c \<noteq> CHR 0x0D \<and> c \<noteq> CHR 0x0A \<and> c \<noteq> CHR 0x00" "MAX_QUERY \<le> length l"
    and "0 \<le> h_fd (c_http (conn p k))" "rx p k = l @ rest"
  shows "gb_receive_http_header_response k p = Inl OutOfBounds"
  using assms read_headers_overflow [of l "[]" rest 0]
  by (simp add: gb_receive_http_header_response_def stream_def MAX_QUERY_def)

theorem long_header_overflows_witness:
  "gb_receive_http_header_response LTE (sample\<lparr>rx := (\<lambda>_. replicate 2048 (CHR ''a'') @ '''')\<rparr>) = Inl OutOfBounds"
  by (rule long_header_overflows [where l = "replicate 2048 (CHR ''a'')" and rest = "''''"])
     (simp_all add: MAX_QUERY_def sample_defs)

text \<open>\<open>http_exec\<close> dereferences a NULL pointer when the server's answer is an empty line: there
  is no newline in the empty header to put a terminator on.\<close>

theorem empty_header_null_deref:
  assumes "0 \<le> h_fd (c_http (conn p k))" "rx p k = CHR 0x0A # rest"
  shows "http_exec k p = Inl NullDeref"
proof -
  have fd: "h_fd (end_request h) = h_fd h" for h by (simp add: end_request_def)
  then show ?thesis
    using assms by (simp add: http_exec_def gb_receive_http_header_response_def stream_def send_request_def
        upd_http_def Let_def strchr_def)
qed

theorem empty_header_null_deref_witness:
  "http_exec LTE (sample\<lparr>rx := (\<lambda>_. [CHR 0x0A])\<rparr>) = Inl NullDeref"
  by (rule empty_header_null_deref [where rest = "''''"]) (simp_all add: sample_defs)

end
