(* ===== verification/Recovery.thy ===== *)
theory Recovery
  imports Http
begin

text \<open>
  Recovery (\<^verbatim>\<open>recovery.c\<close>): when the connection that has just run out of work is the faster one
  and the player would wait for a chunk of the other, the other connection is closed and
  everything it still had to download is put into a new segment, together with the next piece
  of the file. \<open>get_bottle_neck_size\<close> and its companions are in \<open>Position\<close>.
\<close>

definition NO_RECOVERY_MODE :: int where "NO_RECOVERY_MODE = 0"
definition RECOVERY_FOR_INSUFFICIENT_PLAYABLE_TIME :: int where
  "RECOVERY_FOR_INSUFFICIENT_PLAYABLE_TIME = 1"

definition very_small_portion_threshold :: int where "very_small_portion_threshold = 500"

section \<open>Sending the requests of a subsegment (\<^verbatim>\<open>gb.c\<close>)\<close>

text \<open>One request per chunk; the clock is read before, inside the message after, and for
  \<open>last_transfer\<close>.\<close>

definition request_chunk :: "env \<Rightarrow> link \<Rightarrow> chunk \<Rightarrow> proc \<Rightarrow> proc res" where
  "request_chunk E k c p =
     (let (start, p1) = gettime E (upd_http k (\<lambda>h. h\<lparr>h_request := '''', h_headers := ''''\<rparr>) p);
          (sent, p2) = gettime E (gb_get_request k (start_byte c) (last_byte c) p1)
      in touch E k p2)"

definition send_http_request_for_subsegment :: "env \<Rightarrow> link \<Rightarrow> subsegment option \<Rightarrow> proc \<Rightarrow> (bool \<times> proc) res" where
  "send_http_request_for_subsegment E k sub p =
     (case sub of
        None \<Rightarrow> Inr (False, p)
      | Some b \<Rightarrow>
          bindR (conn_at p k) (\<lambda>c.
          bindR (if c_fd c = - 1 then conn_init E k p else Inr (True, p)) (\<lambda>(ok, p1).
            if \<not> ok then Inl (Exit 1)
            else bindR (foldR (request_chunk E k) (ss_chunks b) p1) (\<lambda>p2.
              Inr (True, upd_conn k (\<lambda>c. c\<lparr>pipeline_requests_sent := True, c_state := True\<rparr>) p2)))))"

text \<open>\<open>checking_last_subseg\<close>\<close>

definition checking_last_subseg :: "link \<Rightarrow> proc \<Rightarrow> proc res" where
  "checking_last_subseg k p =
     bindR (seg_deref (offset_info p) (connection (offset_info p) k)) (\<lambda>s.
       case subseg s k of
         None \<Rightarrow> Inl NullDeref
       | Some b \<Rightarrow> bindR (get_last_chunk (ss_chunks b)) (\<lambda>c.
           Inr (if last_byte c = g_size p - 1 then upd_conn k (\<lambda>x. x\<lparr>last_segment_flag := True\<rparr>) p
                else p)))"

text \<open>Point a connection at the first chunk of a subsegment.\<close>

definition aim_at :: "link \<Rightarrow> subsegment \<Rightarrow> proc \<Rightarrow> proc res" where
  "aim_at k b p = (case ss_chunks b of
      [] \<Rightarrow> Inl NullDeref
    | c # _ \<Rightarrow> Inr (upd_conn k (\<lambda>x. x\<lparr>currentbyte := start_byte c, lastbyte := last_byte c\<rparr>) p))"

definition set_connection :: "link \<Rightarrow> int option \<Rightarrow> proc \<Rightarrow> proc" where
  "set_connection k q = upd_off (\<lambda>i. i\<lparr>connection := (connection i)(k := q)\<rparr>)"

definition tail_seg :: "proc \<Rightarrow> segment res" where
  "tail_seg p = (if segs (offset_info p) = [] then Inl NullDeref else Inr (last (segs (offset_info p))))"

section \<open>Collecting what the other connection had to do\<close>

text \<open>
  The common start of the three recovery functions: the chunks of the other connection's
  current subsegment, the first of them cut to what is still missing.
\<close>

definition current_rest :: "proc \<Rightarrow> link \<Rightarrow> segment \<Rightarrow> chunk list res" where
  "current_rest p k s =
     (case subseg s k of
        None \<Rightarrow> Inl NullDeref
      | Some b \<Rightarrow>
          (case ss_chunks b of
             [] \<Rightarrow> Inl NullDeref
           | c # cs \<Rightarrow> bindR (conn_at p k) (\<lambda>x.
               Inr (c\<lparr>start_byte := currentbyte x, csize := last_byte c - currentbyte x + 1\<rparr> # cs))))"

text \<open>
  Delete the subsegment, find the next segment of this connection, free a finished head. The
  find follows the \<open>next\<close> pointer of the segment before it can be freed.
\<close>

definition unassign :: "offset_info \<Rightarrow> int \<Rightarrow> link \<Rightarrow> (offset_info \<times> int option) res" where
  "unassign i q k =
     bindR (delete_subsegment i q k) (\<lambda>i1.
     bindR (get_first_next_segment_assigned_to_conn i1 (Some q) k) (\<lambda>next.
       Inr (fst (delete_finished_head_segment i1), next)))"

text \<open>The loop over the later segments; each turn deletes a subsegment of the connection.\<close>

definition assigned_count :: "link \<Rightarrow> offset_info \<Rightarrow> nat" where
  "assigned_count k i = length (filter (\<lambda>s. subseg s k \<noteq> None) (segs i))"

lemma unassign_count:
  assumes "unassign i q k = Inr (i', next)"
  shows "assigned_count k i' < assigned_count k i"
proof -
  obtain i1 where d: "delete_subsegment i q k = Inr i1"
    and i': "i' = fst (delete_finished_head_segment i1)"
    using assms by (auto simp: unassign_def elim!: bindR_InrE)
  note e = delete_subsegment_Inr [OF d]
  obtain s where s: "s \<in> set (segs i)" "seg_id s = q" "subseg s k \<noteq> None" using e(2) by blast
  let ?P = "\<lambda>s. subseg s k \<noteq> None"
  let ?f = "\<lambda>s. if seg_id s = q then s\<lparr>subseg := (subseg s)(k := None)\<rparr> else s"
  have le: "length (filter ?P (map ?f ss)) \<le> length (filter ?P ss)" for ss
    by (induction ss) auto
  have "length (filter ?P (map ?f ss)) < length (filter ?P ss)" if "s \<in> set ss" for ss
    using that
  proof (induction ss)
    case (Cons t ss)
    show ?case
    proof (cases "t = s")
      case True
      then show ?thesis using s le [of ss] by (simp add: less_Suc_eq_le)
    next
      case False
      then show ?thesis using Cons by auto
    qed
  qed simp
  then have "assigned_count k i1 < assigned_count k i"
    using s(1) by (simp add: assigned_count_def e(1))
  moreover have "assigned_count k i' \<le> assigned_count k i1"
    by (cases "segs i1") (auto simp: i' assigned_count_def delete_finished_head_segment_def)
  ultimately show ?thesis by simp
qed

function gather :: "link \<Rightarrow> offset_info \<Rightarrow> int option \<Rightarrow> chunk list \<Rightarrow> (offset_info \<times> chunk list) res" where
  "gather k i None cs = Inr (i, cs)"
| "gather k i (Some q) cs =
     bindR (seg_at i q) (\<lambda>s.
       case subseg s k of
         None \<Rightarrow> Inl NullDeref
       | Some b \<Rightarrow>
           bindR (get_last_chunk cs) (\<lambda>_.
           bindR (unassign i q k) (\<lambda>r. gather k (fst r) (snd r) (cs @ ss_chunks b))))"
  by pat_completeness auto
termination
  by (relation "measure (\<lambda>(k, i, q, cs). assigned_count k i)")
     (auto dest: unassign_count)

text \<open>All of it: the rest of the current subsegment, then the later ones.\<close>

definition take_over :: "proc \<Rightarrow> link \<Rightarrow> (offset_info \<times> chunk list) res" where
  "take_over p k =
     (let i = offset_info p in
      bindR (seg_deref i (connection i k)) (\<lambda>s.
      bindR (current_rest p k s) (\<lambda>cs.
      bindR (unassign i (seg_id s) k) (\<lambda>(i1, next). gather k i1 next cs))))"

section \<open>The three recovery functions\<close>

text \<open>Make a recovery segment of the chunks and point the connection at it.\<close>

definition add_recovery_segment :: "link \<Rightarrow> chunk list \<Rightarrow> int \<Rightarrow> offset_info \<Rightarrow> offset_info res" where
  "add_recovery_segment k cs n i =
     bindR (add_new_segment i True cs n) (\<lambda>(i1, q). Inr (i1\<lparr>connection := (connection i1)(k := Some q)\<rparr>))"

text \<open>\<open>recover_outorder_portion\<close>: only the lowest chunk now, the others are kept for later.\<close>

definition recover_outorder_portion :: "proc \<Rightarrow> link \<Rightarrow> proc res" where
  "recover_outorder_portion p index =
     (let k = other index in
      bindR (take_over p k) (\<lambda>(i, cs).
        case sorting_chunks cs of
          [] \<Rightarrow> Inl NullDeref
        | c # rest \<Rightarrow>
            bindR (add_recovery_segment k [c] (csize c) (i\<lparr>remaining_chunks := rest\<rparr>)) (\<lambda>i1.
              gb_determine_next_subsegment (p\<lparr>offset_info := i1\<rparr>) index DUAL_LINK_MODE)))"

definition recover_outorder_portion_and_next_segment :: "proc \<Rightarrow> link \<Rightarrow> proc res" where
  "recover_outorder_portion_and_next_segment p index =
     (let k = other index in
      bindR (take_over p k) (\<lambda>(i, cs).
      bindR (let p1 = p\<lparr>offset_info := i\<rparr> in
             if fixed_segment_mode (conf p1) \<noteq> 0 then Inr (init_seg_size i, p1)
             else gb_determine_next_segment_policy p1 0) (\<lambda>(n0, p2).
        let n = absorb_rest p2 n0; i2 = offset_info p2 in
        bindR (if n \<noteq> 0
               then bindR (get_start_byte_next_segment i2) (\<lambda>start. Inr (add_new_chunk cs start n))
               else Inr cs) (\<lambda>cs2.
        bindR (add_recovery_segment k cs2 (total_size cs2) i2) (\<lambda>i3.
          Inr (p2\<lparr>offset_info := i3\<rparr>))))))"

definition recover_one_time :: "proc \<Rightarrow> link \<Rightarrow> proc res" where
  "recover_one_time p index =
     (let k = other index in
      bindR (take_over p k) (\<lambda>(i, cs).
      bindR (add_recovery_segment k cs (total_size cs) i) (\<lambda>i1. Inr (p\<lparr>offset_info := i1\<rparr>))))"

section \<open>Deciding\<close>

definition decide_recovery_mode :: "env \<Rightarrow> proc \<Rightarrow> link \<Rightarrow> (int \<times> proc) res" where
  "decide_recovery_mode E p index =
     (let k = other index; (_, p1) = get_player_state E p; i = offset_info p1 in
      bindR (if single_link_mode_flag i then Inr True
             else case connection i k of
                 None \<Rightarrow> Inr True
               | Some q \<Rightarrow> bindR (seg_at i q) (\<lambda>s. Inr (subseg s k = None))) (\<lambda>idle.
        if idle then Inr (NO_RECOVERY_MODE, p1)
        else bindR (get_fast_conn_index p1) (\<lambda>fast.
          if index \<noteq> fast then Inr (NO_RECOVERY_MODE, p1)
          else bindR (seg_deref i (connection i index)) (\<lambda>s.
          bindR (if recovery_segment s
                 then bindR (seg_deref i (connection i k)) (\<lambda>t. Inr (recovery_segment t))
                 else Inr False) (\<lambda>both.
            if both then Inr (NO_RECOVERY_MODE, p1)
            else bindR (get_bn_chunk_info p1 index) (\<lambda>(_, size, _).
              let (pos, p2) = get_cur_player_pos E p1 in
              if pos > of_ll 0 \<and> size > very_small_portion_threshold then
                bindR (does_qos_miss_until_bn_chunk E p2 index) (\<lambda>(miss, p3).
                  Inr (if miss then RECOVERY_FOR_INSUFFICIENT_PLAYABLE_TIME else NO_RECOVERY_MODE, p3))
              else Inr (NO_RECOVERY_MODE, p2)))))))"

definition perform_recovery :: "env \<Rightarrow> proc \<Rightarrow> link \<Rightarrow> (bool \<times> proc) res" where
  "perform_recovery E p index =
     (if recovery_mode (conf p) = 0 then Inr (False, p)
      else bindR (decide_recovery_mode E p index) (\<lambda>(mode, p1).
        if mode = NO_RECOVERY_MODE then Inr (False, p1)
        else let k = other index;
                 p2 = conn_disconnect k (upd_conn k (\<lambda>c. c\<lparr>enabled := False\<rparr>) p1) in
          bindR (if mode = RECOVERY_FOR_INSUFFICIENT_PLAYABLE_TIME
                 then recover_outorder_portion_and_next_segment p2 index else Inr p2) (\<lambda>p3.
          bindR (gb_determine_next_subsegment p3 index DUAL_LINK_MODE) (\<lambda>p4.
            Inr (True, p4\<lparr>num_recoveries := num_recoveries p4 + 1\<rparr>)))))"

section \<open>Resuming\<close>

definition start_receiving :: "link \<Rightarrow> proc \<Rightarrow> proc" where
  "start_receiving k = upd_conn k (\<lambda>c. c\<lparr>enabled := True, c_state := False\<rparr>)"

definition return_downloading_for_recovered_conn :: "env \<Rightarrow> link \<Rightarrow> proc \<Rightarrow> proc res" where
  "return_downloading_for_recovered_conn E k p =
     bindR (tail_seg p) (\<lambda>s.
       case subseg s k of
         None \<Rightarrow>
           bindR (conn_at p k) (\<lambda>_.
             Inr (upd_conn k (\<lambda>c. c\<lparr>currentbyte := 1, lastbyte := 0\<rparr>) (set_connection k None p)))
       | Some b \<Rightarrow>
           bindR (conn_at p k) (\<lambda>_.
           bindR (conn_init E k p) (\<lambda>(ok, p1).
             if \<not> ok then Inl (Exit 1)
             else bindR (aim_at k b (set_connection k (Some (seg_id s)) p1)) (\<lambda>p2.
               bindR (checking_last_subseg k p2) (\<lambda>p3.
               bindR (send_http_request_for_subsegment E k (Some b) p3) (\<lambda>(_, p4).
               bindR (gb_receive_http_header_response k p4) (\<lambda>(ok, p5).
                 Inr (if ok then upd_conn k (\<lambda>c. c\<lparr>pipeline_requests_sent := False\<rparr>)
                                   (start_receiving k p5)
                      else p5))))))))"

text \<open>\<open>finish_last_chunk_of_subseg\<close>: whether the subsegment is complete.\<close>

definition finish_last_chunk_of_subseg :: "link \<Rightarrow> proc \<Rightarrow> (bool \<times> proc) res" where
  "finish_last_chunk_of_subseg k p =
     (let i = offset_info p in
      bindR (seg_deref i (connection i k)) (\<lambda>s.
        case subseg s k of
          None \<Rightarrow> Inl NullDeref
        | Some b \<Rightarrow>
            bindR (delete_head_chunk (ss_chunks b)) (\<lambda>cs.
              let p1 = upd_off (upd_seg (seg_id s)
                    (\<lambda>s. s\<lparr>subseg := (subseg s)(k := Some (b\<lparr>ss_chunks := cs\<rparr>))\<rparr>)) p in
              case cs of
                [] \<Rightarrow> Inr (True, p1)
              | c # _ \<Rightarrow>
                  bindR (gb_receive_http_header_response k
                    (upd_conn k (\<lambda>x. x\<lparr>currentbyte := start_byte c, lastbyte := last_byte c\<rparr>) p1)) (\<lambda>(ok, p2).
                    Inr (False, if ok then start_receiving k p2 else p2)))))"

end
