(* ===== verification/Download.thy ===== *)
theory Download
  imports Recovery
begin

text \<open>
  One turn of the download (\<^verbatim>\<open>algo_general.c\<close> and the functions of \<^verbatim>\<open>gb.c\<close> it calls): wait for
  data, write it to the file, prepare and request the next segment in advance, move a
  connection to its next chunk or subsegment, restart connections that were lost.
\<close>

section \<open>Messages\<close>

definition gb_message :: "string \<Rightarrow> proc \<Rightarrow> proc" where
  "gb_message text p = p\<lparr>messages := messages p @ [take (MAX_STRING - 1) text]\<rparr>"

section \<open>Reading and writing\<close>

text \<open>
  \<open>read\<close> on a socket: at least one byte when there is one, never more than asked for; -1 is an
  error, 0 the end of the stream. A negative size is a huge \<open>size_t\<close>, past the buffer.
\<close>

definition read_socket :: "env \<Rightarrow> link \<Rightarrow> int \<Rightarrow> proc \<Rightarrow> (int \<times> string \<times> proc) res" where
  "read_socket E k n p =
     (let m = env_read E (tick p); p1 = p\<lparr>tick := Suc (tick p)\<rparr> in
      if n < 0 then Inl OutOfBounds
      else if m < 0 then Inr (- 1, [], p1)
      else let data = take (min (nat n) (max 1 (nat m))) (rx p k)
        in Inr (int (length data), data, p1\<lparr>rx := (rx p)(k := drop (length data) (rx p k))\<rparr>))"

definition exception_for_read :: "int \<Rightarrow> link \<Rightarrow> proc \<Rightarrow> bool \<times> proc" where
  "exception_for_read n k p =
     (let c = conn p k; close = (\<lambda>q. conn_disconnect k (upd_conn k (\<lambda>c. c\<lparr>enabled := False\<rparr>) q)) in
      if n = - 1 then
        (True, close (if verbose (conf p) \<noteq> 0
           then gb_message (''Error on connection '' @ show_int (idx k) @ ''! Connection closed'') p else p))
      else if n = 0 then
        let p1 = (if verbose (conf p) \<noteq> 0 then
                    (if currentbyte c < lastbyte c \<and> g_size p \<noteq> int_max
                     then gb_message (''Connection '' @ show_int (idx k) @ '' unexpectedly closed'') p
                     else gb_message (''Connection '' @ show_int (idx k) @ '' finished'') p)
                  else p)
        in (True, close (if \<not> supported (conn p1 LTE) then p1\<lparr>ready := 1\<rparr> else p1))
      else (False, p))"

definition store :: "(int \<Rightarrow> char option) \<Rightarrow> int \<Rightarrow> string \<Rightarrow> int \<Rightarrow> char option" where
  "store f pos data = (\<lambda>b. if pos \<le> b \<and> b < pos + int (length data)
                             then Some (data ! nat (b - pos)) else f b)"

definition write_received_data :: "env \<Rightarrow> link \<Rightarrow> string \<Rightarrow> proc \<Rightarrow> proc" where
  "write_received_data E k data p =
     (let n = min (env_write E (tick p)) (length data); got = int (length data);
          p1 = p\<lparr>outfile := store (outfile p) (currentbyte (conn p k)) (take n data),
                 tick := Suc (tick p)\<rparr>
      in if n \<noteq> length data then (gb_message ''Write error!'' p1)\<lparr>ready := - 1\<rparr>
         else snd (gettime E (upd_conn k (\<lambda>c. c\<lparr>currentbyte := currentbyte c + got,
                                                  c_bytes_done := c_bytes_done c + got\<rparr>)
                               (p1\<lparr>bytes_done := bytes_done p1 + got\<rparr>))))"

section \<open>The next segment in advance\<close>

definition setup_segment :: "env \<Rightarrow> link \<Rightarrow> proc \<Rightarrow> (bool \<times> proc) res" where
  "setup_segment E index p =
     bindR (gb_update_goodput E p) (\<lambda>p1.
     bindR (gb_determine_next_segment_size p1) (\<lambda>(n, p2).
       if n = 0 then Inr (False, p2)
       else bindR (if minimum_energy_mode (conf p2) \<noteq> 0
                      \<and> completed_segment_count (offset_info p2) > 0 \<and> num_connections (conf p2) \<noteq> 1
                   then choose_link_mode E p2 index else Inr (DUAL_LINK_MODE, p2)) (\<lambda>(mode, p3).
            bindR (gb_determine_next_subsegment p3 index mode) (\<lambda>p4. Inr (True, p4)))))"

definition gb_setup_next_segment :: "env \<Rightarrow> link \<Rightarrow> proc \<Rightarrow> (bool \<times> proc) res" where
  "gb_setup_next_segment E index p =
     (if last_segment_flag (conn p index) then Inr (False, p)
      else case get_conn_order_case p index of
          BEHIND_SEG \<Rightarrow>
            if single_link_mode_flag (offset_info p)
            then Inr (False, upd_off (\<lambda>i. i\<lparr>conn_idle := (conn_idle i)(index := True)\<rparr>) p)
            else setup_segment E index p
        | AHEAD_SEG \<Rightarrow>
            bindR (gb_update_goodput E p) (\<lambda>p1.
            bindR (perform_recovery E p1 index) (\<lambda>(done, p2).
              if done then Inr (True, p2)
              else bindR (tail_seg p2) (\<lambda>s. bindR (get_last_chunk (seg_chunks s)) (\<lambda>c.
                     if minimum_energy_mode (conf p2) \<noteq> 0 \<and> last_byte c = g_size p2 - 1
                     then Inr (False, p2)
                     else setup_segment E index p2))))
        | ONE_SEG \<Rightarrow>
            bindR (gb_update_goodput E p) (\<lambda>p1.
            bindR (conn_at p1 (other index)) (\<lambda>x.
            bindR (if currentbyte (conn p1 index) < currentbyte x then perform_recovery E p1 index
                   else Inr (False, p1)) (\<lambda>(done, p2).
              if done then Inr (True, p2) else setup_segment E index p2))))"

definition return_downloading_for_idle_conn :: "link \<Rightarrow> proc \<Rightarrow> proc res" where
  "return_downloading_for_idle_conn k p =
     (if connection (offset_info p) k = None then
        bindR (tail_seg p) (\<lambda>s.
          case subseg s k of
            None \<Rightarrow> Inl NullDeref
          | Some b \<Rightarrow>
              bindR (aim_at k b (set_connection k (Some (seg_id s)) p)) (\<lambda>p1.
              bindR (checking_last_subseg k p1) (\<lambda>p2.
              bindR (gb_receive_http_header_response k p2) (\<lambda>(ok, p3).
                Inr (if ok
                     then upd_off (\<lambda>i. i\<lparr>conn_idle := (conn_idle i)(k := False)\<rparr>)
                            (upd_conn k (\<lambda>c. c\<lparr>pipeline_requests_sent := False\<rparr>) (start_receiving k p3))
                     else p3)))))
      else Inr p)"

text \<open>The body of the loop of \<open>checking_last_segment\<close>\<close>

definition check_last_segment :: "link \<Rightarrow> proc \<Rightarrow> proc res" where
  "check_last_segment k p =
     (let i = offset_info p in
      bindR (case connection i k of
               None \<Rightarrow> Inr None
             | Some q \<Rightarrow> get_first_next_segment_assigned_to_conn i (Some q) k) (\<lambda>next.
        case next of
          None \<Rightarrow> Inr p
        | Some r \<Rightarrow>
            bindR (seg_at i r) (\<lambda>s. bindR (get_last_chunk (seg_chunks s)) (\<lambda>c.
              Inr (if last_byte c = g_size p - 1
                   then upd_conn k (\<lambda>x. x\<lparr>last_segment_flag := True\<rparr>) p else p)))))"

definition checking_last_segment :: "proc \<Rightarrow> proc res" where
  "checking_last_segment p = foldR check_last_segment (conn_indices p) p"

text \<open>The requests for a new segment, as \<open>algo_general\<close> sends them.\<close>

definition request_segment :: "env \<Rightarrow> link \<Rightarrow> proc \<Rightarrow> proc res" where
  "request_segment E k p =
     bindR (tail_seg p) (\<lambda>s.
     bindR (send_http_request_for_subsegment E k (subseg s k) p) (\<lambda>(_, p1).
     bindR (if \<not> recovery_segment s
            then bindR (send_http_request_for_subsegment E (other k) (subseg s (other k)) p1) (\<lambda>(sent, p2).
                   if sent then return_downloading_for_idle_conn (other k) p2 else Inr p2)
            else return_downloading_for_recovered_conn E (other k) p1) checking_last_segment))"

section \<open>The end of a subsegment\<close>

definition next_subseg :: "link \<Rightarrow> proc \<Rightarrow> proc res" where
  "next_subseg k p =
     bindR (gb_receive_http_header_response k p) (\<lambda>(ok, p0).
       let p1 = (if ok then start_receiving k p0 else p0); i = offset_info p1 in
       bindR (get_first_next_segment_assigned_to_conn i (connection i k) k) (\<lambda>next.
         case next of
           None \<Rightarrow> Inl NullDeref
         | Some r \<Rightarrow>
             bindR (seg_at i r) (\<lambda>s.
             case subseg s k of
               None \<Rightarrow> Inl NullDeref
             | Some b \<Rightarrow>
                 bindR (aim_at k b (set_connection k (Some r) p1)) (\<lambda>p2.
                 bindR (checking_last_subseg k p2) (\<lambda>p3.
                 bindR (get_first_next_segment_assigned_to_conn (offset_info p3) (Some r) k) (\<lambda>more.
                   Inr (if more = None then upd_conn k (\<lambda>c. c\<lparr>pipeline_requests_sent := False\<rparr>) p3
                        else p3)))))))"

definition finish_downloading_subseg :: "link \<Rightarrow> proc \<Rightarrow> proc res" where
  "finish_downloading_subseg k p =
     bindR (if pipeline_requests_sent (conn p k) then next_subseg k p
            else bindR (if lastbyte (conn p k) = g_size p - 1 then Inr True
                        else bindR (conn_at p (other k)) (\<lambda>x.
                          Inr (lastbyte x = g_size p - 1
                               \<or> single_link_mode_flag (offset_info p) \<and> k = LTE))) (\<lambda>close.
                   let p1 = set_connection k None p
                   in Inr (if close then conn_disconnect k p1 else p1))) (\<lambda>p2.
       Inr (upd_off delete_finished_heads p2))"

section \<open>One turn\<close>

text \<open>Handling one connection that has data.\<close>

definition SEND_PIPELINE_REQ_THRS_FACTOR :: int where "SEND_PIPELINE_REQ_THRS_FACTOR = 10"

definition request_ahead :: "env \<Rightarrow> link \<Rightarrow> int \<Rightarrow> int \<Rightarrow> proc \<Rightarrow> proc res" where
  "request_ahead E k remaining n p =
     (let i = offset_info p in
      bindR (seg_deref i (connection i k)) (\<lambda>s.
        case subseg s k of
          None \<Rightarrow> Inl NullDeref
        | Some b \<Rightarrow>
            if (ss_size b sdiv SEND_PIPELINE_REQ_THRS_FACTOR > remaining \<or> remaining \<le> n)
               \<and> \<not> pipeline_requests_sent (conn p k) \<and> \<not> conn_idle i k
            then bindR (gb_setup_next_segment E k p) (\<lambda>(done, p1).
                   if done then request_segment E k p1 else Inr p1)
            else Inr p))"

definition finish_chunk :: "link \<Rightarrow> proc \<Rightarrow> proc res" where
  "finish_chunk k p =
     bindR (finish_last_chunk_of_subseg k (upd_conn k (\<lambda>c. c\<lparr>enabled := False\<rparr>) p)) (\<lambda>(fin, p1).
       if fin then
         (case connection (offset_info p1) k of
            None \<Rightarrow> Inl NullDeref
          | Some q \<Rightarrow>
              bindR (delete_subsegment (offset_info p1) q k) (\<lambda>i.
              bindR (finish_downloading_subseg k (p1\<lparr>offset_info := i\<rparr>)) update_inorder_offset))
       else Inr p1)"

definition receive :: "env \<Rightarrow> link \<Rightarrow> proc \<Rightarrow> proc res" where
  "receive E k p =
     bindR (touch E k p) (\<lambda>p1.
       let c = conn p1 k;
           remaining = lastbyte c - currentbyte c + 1;
           want = (if remaining \<ge> buffer_size (conf p1) then buffer_size (conf p1) else remaining) in
       bindR (read_socket E k want p1) (\<lambda>(n, data, p2).
         let (failed, p3) = exception_for_read n k p2 in
         if failed then Inr p3
         else bindR (request_ahead E k remaining n (write_received_data E k data p3)) (\<lambda>p4.
                if remaining \<le> n then finish_chunk k p4 else update_inorder_offset p4)))"

definition handle_conn :: "env \<Rightarrow> int list \<Rightarrow> link \<Rightarrow> proc \<Rightarrow> proc res" where
  "handle_conn E fds k p =
     (if enabled (conn p k) \<and> c_fd (conn p k) \<noteq> - 1 \<and> c_fd (conn p k) \<in> set fds
      then receive E k p else Inr p)"

text \<open>\<open>pthread_join\<close>: a thread that has not run yet runs now.\<close>

definition join_setup_thread :: "env \<Rightarrow> link \<Rightarrow> proc \<Rightarrow> proc res" where
  "join_setup_thread E k p = (if thread p k then setup_thread E k p else Inr p)"

definition launch_thread :: "env \<Rightarrow> link \<Rightarrow> proc \<Rightarrow> proc res" where
  "launch_thread E k p =
     (if env_thread E (tick p)
      then touch E k (p\<lparr>thread := (thread p)(k := True), tick := Suc (tick p)\<rparr>)
      else Inr ((gb_message ''pthread error!!!'' p)\<lparr>ready := - 1, tick := Suc (tick p)\<rparr>))"

definition announce_restart :: "link \<Rightarrow> proc \<Rightarrow> proc" where
  "announce_restart k p =
     (if verbose (conf p) \<ge> 2
      then gb_message (''check_conn: Connection '' @ show_int (idx k) @ '' downloading from ''
             @ c_host (conn p k) @ '':'' @ show_int (port (conn p k))
             @ '' using interface '' @ local_if (conn p k)) p
      else p)"

definition restart_conn :: "env \<Rightarrow> link \<Rightarrow> proc \<Rightarrow> proc res" where
  "restart_conn E k p =
     bindR (join_setup_thread E k p) (\<lambda>p1.
     bindR (conn_set (conn p1 k) (g_url p1)) (\<lambda>(c, _).
       launch_thread E k (upd_conn k (\<lambda>c. c\<lparr>c_state := True\<rparr>)
         (announce_restart k (upd_conn k (\<lambda>_. c) p1)))))"

text \<open>The body of the loop of \<open>check_conn\<close>\<close>

definition check_one_conn :: "env \<Rightarrow> link \<Rightarrow> proc \<Rightarrow> proc res" where
  "check_one_conn E k p =
     (let c = conn p k in
      if \<not> enabled c \<and> currentbyte c < lastbyte c then
        if \<not> c_state c then restart_conn E k p
        else let (now, p1) = gettime E p in
          if now > of_ll (last_transfer c + reconnect_delay (conf p1))
          then bindR (join_setup_thread E k p1) (\<lambda>p2. Inr (upd_conn k (\<lambda>c. c\<lparr>c_state := False\<rparr>) p2))
          else Inr p1
      else Inr p)"

definition check_conn :: "env \<Rightarrow> proc \<Rightarrow> proc res" where
  "check_conn E p = foldR (check_one_conn E) (conn_indices p) p"

text \<open>
  \<open>(int) x\<close> for the two figures that are only displayed: before the first byte the code
  converts an infinite time, which C leaves undefined and x86-64 turns into \<open>INT_MIN\<close>.
\<close>

definition cast_int_x86 :: "dbl \<Rightarrow> int" where
  "cast_int_x86 x = (case cast_int x of Inr n \<Rightarrow> n | Inl _ \<Rightarrow> int_min)"

definition finish_turn :: "env \<Rightarrow> proc \<Rightarrow> proc res" where
  "finish_turn E p =
     bindR (check_conn E p) (\<lambda>p1.
       let (now, p2) = gettime E p1;
           bps = cast_int_x86 (of_ll (bytes_done p2 - g_start_byte p2) / (now - g_start_time p2));
           p3 = p2\<lparr>g_bytes_per_second := bps,
                   finish_time := cast_int_x86 (g_start_time p2 + of_ll (g_size p2 - g_start_byte p2) / of_ll bps)\<rparr>
       in Inr (if bytes_done p3 = g_size p3 then p3\<lparr>ready := 1\<rparr> else p3))"

definition algo_general :: "env \<Rightarrow> proc \<Rightarrow> proc res" where
  "algo_general E p =
     (let (_, p0) = gettime E p;
          p1 = mark_qos_start_time E p0;
          hifd = fold max (map (\<lambda>k. c_fd (conn p1 k)) (conn_indices p1)) 0 in
      if hifd = 0 then finish_turn E p1
      else let p2 = p1\<lparr>tick := Suc (tick p1)\<rparr> in
        case env_select E (tick p1) of
          None \<Rightarrow> Inr (p2\<lparr>ready := - 1\<rparr>)
        | Some sel \<Rightarrow>
            let fds = map (\<lambda>k. c_fd (conn p2 k))
                  (filter (\<lambda>k. enabled (conn p2 k) \<and> c_fd (conn p2 k) \<noteq> - 1 \<and> sel k) (conn_indices p2))
            in bindR (foldR (handle_conn E fds) (conn_indices p2) p2) (\<lambda>p3.
                 if ready p3 \<noteq> 0 then Inr p3 else finish_turn E p3))"

section \<open>A run: the loop of \<open>gb_process\<close>\<close>

text \<open>
  \<open>while (!gb->ready && gb->run)\<close>; \<open>run\<close> is cleared by other threads. A \<open>setup_thread\<close> that was
  created may run before any turn. A step is a turn of the loop or such a thread.
\<close>

definition loop_turn :: "env \<Rightarrow> proc \<Rightarrow> proc res" where
  "loop_turn E p = bindR (algo_general E p) update_last_downloaded_byte"

inductive run_step :: "env \<Rightarrow> proc \<Rightarrow> proc \<Rightarrow> bool" for E where
  turn: "ready p = 0 \<Longrightarrow> run p \<Longrightarrow> loop_turn E p = Inr q \<Longrightarrow> run_step E p q"
| thread_runs: "thread p k \<Longrightarrow> setup_thread E k p = Inr q \<Longrightarrow> run_step E p q"
| stopped: "run_step E p (p\<lparr>run := False\<rparr>)"

inductive_cases run_stepE: "run_step E p q"

text \<open>The loop itself, with a bound on the number of turns: \<open>None\<close> when it is used up.\<close>

fun run_loop :: "nat \<Rightarrow> env \<Rightarrow> proc \<Rightarrow> proc res option" where
  "run_loop n E p =
     (if ready p \<noteq> 0 \<or> \<not> run p then Some (update_last_downloaded_byte p)
      else case n of
          0 \<Rightarrow> None
        | Suc m \<Rightarrow> (case loop_turn E p of Inl e \<Rightarrow> Some (Inl e) | Inr q \<Rightarrow> run_loop m E q))"

declare run_loop.simps [simp del]

end
