(* ===== verification/Frames.thy ===== *)
theory Frames
  imports Download Energy_Laws Sizing_Laws
begin

text \<open>
  What each operation leaves alone. The \<open>layout\<close> of a download is what decides which bytes are
  written, which are assigned and where each connection stands; \<open>view\<close> adds the measured
  goodputs. Everything that only talks to the server, the player or the clock keeps the view.
\<close>

section \<open>Layout and view\<close>

definition layout where
  "layout p = (g_size p, conf p, ready p, outfile p, bytes_done p, segs (offset_info p),
     (num_segments (offset_info p), segment_count (offset_info p), completed_segment_count (offset_info p)),
     connection (offset_info p), last_seg_offset (offset_info p), init_seg_size (offset_info p),
     remaining_chunks (offset_info p), (\<lambda>k. currentbyte (conn p k)), (\<lambda>k. lastbyte (conn p k)), supported (conn p LTE))"
  for p :: proc

definition view where
  "view p = (layout p, (\<lambda>k. c_bytes_per_second (conn p k)))" for p :: proc

lemma view_layout: "view p = view q \<Longrightarrow> layout p = layout q"
  by (simp add: view_def)

lemma view_upd_conn [simp]:
  assumes "\<And>c. currentbyte (f c) = currentbyte c" "\<And>c. lastbyte (f c) = lastbyte c"
    "\<And>c. c_bytes_per_second (f c) = c_bytes_per_second c" "\<And>c. supported (f c) = supported c"
  shows "view (upd_conn k f p) = view p"
  using assms by (simp add: view_def layout_def upd_conn_def fun_eq_iff)

lemma view_upd_http [simp]: "view (upd_http k f p) = view p"
  by (simp add: upd_http_def)

lemma view_upd_off [simp]:
  assumes "\<And>i. segs (f i) = segs i" "\<And>i. num_segments (f i) = num_segments i"
    "\<And>i. segment_count (f i) = segment_count i"
    "\<And>i. completed_segment_count (f i) = completed_segment_count i" "\<And>i. connection (f i) = connection i"
    "\<And>i. last_seg_offset (f i) = last_seg_offset i" "\<And>i. init_seg_size (f i) = init_seg_size i"
    "\<And>i. remaining_chunks (f i) = remaining_chunks i"
  shows "view (upd_off f p) = view p"
  using assms by (simp add: view_def layout_def upd_off_def)

lemma view_proc [simp]:
  "view (p\<lparr>tick := n\<rparr>) = view p" "view (p\<lparr>rx := r\<rparr>) = view p" "view (p\<lparr>wire := w\<rparr>) = view p"
  "view (p\<lparr>thread := t\<rparr>) = view p" "view (p\<lparr>messages := m\<rparr>) = view p"
  "view (p\<lparr>inorder_offset := x\<rparr>) = view p" "view (p\<lparr>num_recoveries := x\<rparr>) = view p"
  "view (p\<lparr>qos_start_time := d\<rparr>) = view p" "view (p\<lparr>qos_start_flag := b\<rparr>) = view p"
  "view (p\<lparr>run := b\<rparr>) = view p" "view (p\<lparr>last_downloaded_byte := x\<rparr>) = view p"
  "view (p\<lparr>g_bytes_per_second := x\<rparr>) = view p" "view (p\<lparr>finish_time := x\<rparr>) = view p"
  by (simp_all add: view_def layout_def)

lemma same_core_view: "same_core p q \<Longrightarrow> view p = view q"
  by (simp add: same_core_def view_def layout_def)

section \<open>Clock and player\<close>

lemma view_gettime [simp]: "view (snd (gettime E p)) = view p"
  by (simp add: gettime_def)

lemma view_get_cur_player_pos [simp]: "view (snd (get_cur_player_pos E p)) = view p"
  by (simp add: get_cur_player_pos_def)

lemma view_mark_qos_start_time [simp]: "view (mark_qos_start_time E p) = view p"
  by (simp add: mark_qos_start_time_def gettime_def get_cur_player_pos_def Let_def)

lemma view_touch: "touch E k p = Inr q \<Longrightarrow> view q = view p"
  by (auto simp: touch_def gettime_def bindR_eq_Inr)

section \<open>The server\<close>

lemma view_send_request [simp]: "view (send_request k p) = view p"
  by (simp add: send_request_def Let_def)

lemma view_gb_get_request [simp]: "view (gb_get_request k a b p) = view p"
  by (simp add: gb_get_request_def)

lemma view_conn_disconnect [simp]: "view (conn_disconnect k p) = view p"
  by (simp add: conn_disconnect_def Let_def)

lemma view_header_response: "gb_receive_http_header_response k p = Inr (ok, q) \<Longrightarrow> view q = view p"
  by (auto simp: gb_receive_http_header_response_def bindR_eq_Inr)

lemma view_http_connect: "http_connect E k p = Inr (ok, q) \<Longrightarrow> view q = view p"
  by (auto simp: http_connect_def bindR_eq_Inr Let_def split: prod.splits if_splits)

lemma view_conn_init: "conn_init E k p = Inr (ok, q) \<Longrightarrow> view q = view p"
  by (auto simp: conn_init_def bindR_eq_Inr dest!: view_http_connect split: if_splits)

lemma view_conn_setup: "conn_setup E k p = Inr (ok, q) \<Longrightarrow> view q = view p"
  by (auto simp: conn_setup_def bindR_eq_Inr Let_def dest!: view_conn_init split: if_splits)

lemma view_http_exec: "http_exec k p = Inr (ok, q) \<Longrightarrow> view q = view p"
  by (auto simp: http_exec_def bindR_eq_Inr Let_def dest!: view_header_response
      split: if_splits option.splits)

lemma view_conn_exec: "conn_exec k p = Inr (ok, q) \<Longrightarrow> view q = view p"
  by (auto simp: conn_exec_def bindR_eq_Inr dest!: view_http_exec split: if_splits)

lemma view_setup_thread: "setup_thread E k p = Inr q \<Longrightarrow> view q = view p"
  by (auto simp: setup_thread_def bindR_eq_Inr Let_def
      dest!: view_conn_setup view_conn_exec view_touch split: if_splits)

lemma view_join_setup_thread: "join_setup_thread E k p = Inr q \<Longrightarrow> view q = view p"
  by (auto simp: join_setup_thread_def dest!: view_setup_thread split: if_splits)

lemma view_start_receiving [simp]: "view (start_receiving k p) = view p"
  by (simp add: start_receiving_def)

lemma view_gb_message [simp]: "view (gb_message t p) = view p"
  by (simp add: gb_message_def)

lemma view_request_chunk: "request_chunk E k c p = Inr q \<Longrightarrow> view q = view p"
  by (auto simp: request_chunk_def gettime_def Let_def dest!: view_touch)

lemma view_foldR:
  assumes "foldR f xs p = Inr q" "\<And>x p q. f x p = Inr q \<Longrightarrow> view q = view p"
  shows "view q = view p"
  using foldR_inv [of f xs p q "\<lambda>r. view r = view p"] assms by auto

lemma view_send_http_request:
  assumes "send_http_request_for_subsegment E k sub p = Inr (b, q)"
  shows "view q = view p"
proof (cases sub)
  case (Some s)
  from assms obtain ok p1 p2 where 1: "(if c_fd (conn p k) = - 1 then conn_init E k p else Inr (True, p)) = Inr (ok, p1)"
      "foldR (request_chunk E k) (ss_chunks s) p1 = Inr p2" "view q = view p2"
    by (auto simp: send_http_request_for_subsegment_def Some bindR_eq_Inr split: if_splits)
  have "view p1 = view p" using 1(1) by (auto split: if_splits dest: view_conn_init)
  moreover have "view p2 = view p1" using 1(2) view_request_chunk by (rule view_foldR)
  ultimately show ?thesis using 1(3) by simp
qed (use assms in \<open>simp add: send_http_request_for_subsegment_def\<close>)

lemma view_checking_last_subseg: "checking_last_subseg k p = Inr q \<Longrightarrow> view q = view p"
  by (auto simp: checking_last_subseg_def bindR_eq_Inr split: option.splits if_splits)

lemma view_check_last_segment: "check_last_segment k p = Inr q \<Longrightarrow> view q = view p"
  by (auto simp: check_last_segment_def bindR_eq_Inr Let_def split: option.splits if_splits)

lemma view_checking_last_segment: "checking_last_segment p = Inr q \<Longrightarrow> view q = view p"
  using view_foldR view_check_last_segment unfolding checking_last_segment_def by blast

section \<open>Decisions\<close>

lemma view_update_inorder_offset: "update_inorder_offset p = Inr q \<Longrightarrow> view q = view p"
  by (erule update_inorder_offset_keeps) (simp add: view_def layout_def)

lemma view_policy: "gb_determine_next_segment_policy p m = Inr (n, q) \<Longrightarrow> view q = view p"
  by (erule policy_keeps) (simp add: view_def layout_def)

lemma view_choose_link_mode: "choose_link_mode E p k = Inr (m, q) \<Longrightarrow> view q = view p"
  by (drule choose_link_mode_result(2), drule same_core_view) simp

lemma view_decide_recovery_mode:
  assumes "decide_recovery_mode E p k = Inr (m, q)"
  shows "view q = view p"
proof -
  obtain s p1 where 1: "get_player_state E p = (s, p1)" by fastforce
  obtain t p2 where 2: "get_cur_player_pos E p1 = (t, p2)" by fastforce
  have "view p1 = view p" using get_player_state_core [of p E] 1 by (auto dest: same_core_view)
  moreover have "view p2 = view p1" using view_get_cur_player_pos [of E p1] 2 by simp
  moreover have "view q = view p1 \<or> view q = view p2"
    using assms
    by (auto simp: decide_recovery_mode_def 1 2 Let_def bindR_eq_Inr
        dest!: does_qos_miss_until_bn_chunk_frame same_core_view split: if_splits)
  ultimately show ?thesis by auto
qed

section \<open>Goodput\<close>

lemma layout_upd_conn [simp]:
  assumes "\<And>c. currentbyte (f c) = currentbyte c" "\<And>c. lastbyte (f c) = lastbyte c"
    "\<And>c. supported (f c) = supported c"
  shows "layout (upd_conn k f p) = layout p"
  using assms by (simp add: layout_def upd_conn_def fun_eq_iff)

lemma layout_reset: "layout (reset_bytes_done_start_time E p) = layout p"
proof -
  have "layout (reset_conn_counter E k q) = layout q" for k q
    by (simp add: reset_conn_counter_def gettime_def) (simp add: layout_def)
  then have "layout (fold (reset_conn_counter E) ks q) = layout q" for ks q
    by (induction ks arbitrary: q) simp_all
  then show ?thesis by (simp add: reset_bytes_done_start_time_def)
qed

lemma layout_gb_update_goodput:
  assumes "gb_update_goodput E p = Inr q"
  shows "layout q = layout p"
proof -
  obtain now p1 where 1: "gettime E p = (now, p1)" by fastforce
  obtain p2 where f: "foldR (measure_goodput now) (conn_indices p1) p1 = Inr p2"
    and r: "bindR (get_fast_conn_index (reset_bytes_done_start_time E p2)) (\<lambda>fast.
          Inr (upd_off (\<lambda>i. i\<lparr>fast_conn := fast\<rparr>) (reset_bytes_done_start_time E p2))) = Inr q"
    using assms unfolding gb_update_goodput_def 1 Let_def prod.case by (rule bindR_InrE)
  obtain fast where q: "Inr (upd_off (\<lambda>i. i\<lparr>fast_conn := fast\<rparr>) (reset_bytes_done_start_time E p2)) = (Inr q :: proc res)"
    using r unfolding bindR_eq_Inr by (elim exE conjE)
  have "layout p1 = layout p" using view_layout [OF view_gettime [of E p]] 1 by simp
  moreover have "layout p2 = layout p1"
  proof (rule foldR_inv [OF f, of "\<lambda>r. layout r = layout p1"])
    show "layout s' = layout p1" if "layout s = layout p1" "measure_goodput now x s = Inr s'" for x s s'
      using that by (auto simp: measure_goodput_def Let_def bindR_eq_Inr split: if_splits)
  qed simp
  ultimately show ?thesis
    using Inr_inject [OF q, symmetric]
      view_layout [OF view_upd_off, of "\<lambda>i. i\<lparr>fast_conn := fast\<rparr>" "reset_bytes_done_start_time E p2"]
    by (simp add: layout_reset)
qed

section \<open>Restarting connections\<close>

lemma conn_set_rest_keeps:
  assumes "conn_set_rest c u = Inr (c', b)"
  shows "currentbyte c' = currentbyte c" "lastbyte c' = lastbyte c"
    "c_bytes_per_second c' = c_bytes_per_second c" "supported c' = supported c"
  using assms by (auto simp: conn_set_rest_def bindR_eq_Inr Let_def case_prod_unfold)

lemma conn_set_keeps:
  assumes "conn_set c u = Inr (c', b)"
  shows "currentbyte c' = currentbyte c" "lastbyte c' = lastbyte c"
    "c_bytes_per_second c' = c_bytes_per_second c" "supported c' = supported c"
  using assms conn_set_rest_keeps
  by (auto simp: conn_set_def bindR_eq_Inr split: option.splits if_splits)

text \<open>Restarting a connection keeps the view, or gives up with \<open>ready = -1\<close>.\<close>

lemma view_check_one_conn:
  assumes "check_one_conn E k p = Inr q"
  shows "view q = view p \<or> (ready q = - 1 \<and> view (q\<lparr>ready := ready p\<rparr>) = view p)"
proof -
  have restart: "view q = view p \<or> (ready q = - 1 \<and> view (q\<lparr>ready := ready p\<rparr>) = view p)"
    if r: "restart_conn E k p = Inr q" for p
  proof -
    obtain p1 c b where j: "join_setup_thread E k p = Inr p1" "conn_set (conn p1 k) (g_url p1) = Inr (c, b)"
      and l: "launch_thread E k (upd_conn k (\<lambda>c. c\<lparr>c_state := True\<rparr>)
         (announce_restart k (upd_conn k (\<lambda>_. c) p1))) = Inr q"
      using r unfolding restart_conn_def by (elim bindR_InrE) (auto split: prod.splits)
    let ?p2 = "upd_conn k (\<lambda>c. c\<lparr>c_state := True\<rparr>) (announce_restart k (upd_conn k (\<lambda>_. c) p1))"
    have "view (upd_conn k (\<lambda>_. c) p1) = view p1" using conn_set_keeps [OF j(2)]
      by (simp add: view_def layout_def upd_conn_def fun_eq_iff)
    then have "view (announce_restart k (upd_conn k (\<lambda>_. c) p1)) = view p"
      using view_join_setup_thread [OF j(1)] by (simp add: announce_restart_def)
    then have v: "view ?p2 = view p" by simp
    show ?thesis
    proof (cases "env_thread E (tick ?p2)")
      case True
      then have "view q = view ?p2" using l by (simp add: launch_thread_def) (drule view_touch, simp)
      with v show ?thesis by simp
    next
      case False
      then have "q = (gb_message ''pthread error!!!'' ?p2)\<lparr>ready := - 1, tick := Suc (tick ?p2)\<rparr>"
        using l by (simp add: launch_thread_def)
      moreover have "ready ?p2 = ready p" using v by (simp add: view_def layout_def)
      ultimately show ?thesis using v by (simp add: gb_message_def view_def layout_def)
    qed
  qed
  have "(restart_conn E k p = Inr q) \<or> view q = view p"
    using assms
    by (auto simp: check_one_conn_def Let_def gettime_def bindR_eq_Inr dest!: view_join_setup_thread
        split: if_splits)
  with restart show ?thesis by blast
qed

end
