(* ===== verification/Accounting.thy ===== *)
theory Accounting
  imports Frames
begin

text \<open>
  No byte is lost and none is fetched twice. Every byte of the file up to \<open>last_seg_offset\<close> is
  either in the output file or left to do for exactly one connection: the multiset of what the
  two connections have left to do and the set of the bytes written add up to the range from 0
  to \<open>last_seg_offset\<close>. This theory states that balance and shows that each operation of the
  download keeps it.
\<close>

section \<open>What a connection has left to do\<close>

definition assigned :: "offset_info \<Rightarrow> link \<Rightarrow> int list" where
  "assigned i k = bytes_of (assigned_chunks k (segs i))"

definition current_chunk :: "offset_info \<Rightarrow> link \<Rightarrow> chunk option" where
  "current_chunk i k =
     (case connection i k of
        None \<Rightarrow> None
      | Some q \<Rightarrow>
          (case find (\<lambda>s. seg_id s = q) (segs i) of
             None \<Rightarrow> None
           | Some s \<Rightarrow> (case subseg s k of None \<Rightarrow> None
                         | Some b \<Rightarrow> (case ss_chunks b of [] \<Rightarrow> None | c # _ \<Rightarrow> Some c))))"

text \<open>The bytes assigned to a connection outside its current chunk.\<close>

definition others :: "offset_info \<Rightarrow> link \<Rightarrow> int multiset" where
  "others i k = mset (assigned i k)
     - (case current_chunk i k of None \<Rightarrow> {#} | Some c \<Rightarrow> mset (chunk_bytes c))"

definition work :: "proc \<Rightarrow> link \<Rightarrow> int multiset" where
  "work p k = (case current_chunk (offset_info p) k of None \<Rightarrow> {#}
                 | Some c \<Rightarrow> mset [currentbyte (conn p k)..last_byte c])
              + others (offset_info p) k"

section \<open>The balance\<close>

text \<open>Chunks in the order of the file, none of them begun before the one before it ends.\<close>

definition ascending :: "chunk list \<Rightarrow> bool" where
  "ascending cs \<longleftrightarrow> sorted_wrt (\<lambda>c d. last_byte c < start_byte d) cs"

lemma ascending_simps [simp]:
  "ascending []" "ascending (c # cs) \<longleftrightarrow> (\<forall>d \<in> set cs. last_byte c < start_byte d) \<and> ascending cs"
  by (simp_all add: ascending_def)

lemma ascending_bytes:
  "\<forall>c \<in> set cs. chunk_ok c \<Longrightarrow> ascending cs \<longleftrightarrow> sorted_wrt (<) (bytes_of cs)"
proof (induction cs)
  case (Cons c cs)
  have c: "start_byte c \<le> last_byte c" and cs: "\<forall>d \<in> set cs. start_byte d \<le> last_byte d"
    using Cons.prems by (auto simp: chunk_ok_def)
  have "(\<forall>d \<in> set cs. last_byte c < start_byte d)
      \<longleftrightarrow> (\<forall>x \<in> set (chunk_bytes c). \<forall>y \<in> set (bytes_of cs). x < y)"
  proof (intro iffI ballI)
    fix x y
    assume l: "\<forall>d \<in> set cs. last_byte c < start_byte d" and x: "x \<in> set (chunk_bytes c)" and "y \<in> set (bytes_of cs)"
    then obtain d where "d \<in> set cs" "start_byte d \<le> y" by (auto simp: set_bytes_of)
    then show "x < y" using l x by (auto simp: chunk_bytes_def)
  next
    fix d
    assume r: "\<forall>x \<in> set (chunk_bytes c). \<forall>y \<in> set (bytes_of cs). x < y" and d: "d \<in> set cs"
    have "last_byte c \<in> set (chunk_bytes c)" using c by (simp add: chunk_bytes_def)
    moreover have "start_byte d \<in> set (bytes_of cs)" using cs d by (auto simp: set_bytes_of)
    ultimately show "last_byte c < start_byte d" using r by blast
  qed
  then show ?case using Cons unfolding bytes_of_simps ascending_simps sorted_wrt_append
    by (auto simp: chunk_bytes_def)
qed simp

lemma ascending_distinct:
  "\<forall>c \<in> set cs. chunk_ok c \<Longrightarrow> sorted (map start_byte cs) \<Longrightarrow> distinct (bytes_of cs) \<Longrightarrow> ascending cs"
proof (induction cs)
  case (Cons c cs)
  have "last_byte c < start_byte d" if d: "d \<in> set cs" for d
  proof (rule ccontr)
    assume "\<not> last_byte c < start_byte d"
    moreover have "start_byte c \<le> start_byte d" "start_byte d \<le> last_byte d"
      using Cons.prems(1,2) d by (auto simp: chunk_ok_def)
    ultimately have "start_byte d \<in> set (chunk_bytes c)" "start_byte d \<in> set (bytes_of cs)"
      using d by (auto simp: chunk_bytes_def set_bytes_of)
    then show False using Cons.prems(3) by auto
  qed
  then show ?case using Cons by simp
qed simp

definition subs_ok :: "offset_info \<Rightarrow> bool" where
  "subs_ok i \<longleftrightarrow> (\<forall>s \<in> set (segs i). \<forall>k b. subseg s k = Some b \<longrightarrow>
     ss_chunks b \<noteq> [] \<and> (\<forall>c \<in> set (ss_chunks b). chunk_ok c) \<and> ascending (ss_chunks b) \<and> 0 < ss_size b)"

lemma subs_okD:
  assumes "subs_ok i" "s \<in> set (segs i)" "subseg s k = Some b"
  shows "ss_chunks b \<noteq> []" "\<forall>c \<in> set (ss_chunks b). chunk_ok c" "ascending (ss_chunks b)"
  using assms by (auto simp: subs_ok_def)

text \<open>
  A connection is inside its current chunk; only those of \<open>J\<close> may be at the end of it.
\<close>

definition aimed :: "link set \<Rightarrow> proc \<Rightarrow> link \<Rightarrow> bool" where
  "aimed J p k \<longleftrightarrow> (\<forall>c. current_chunk (offset_info p) k = Some c \<longrightarrow>
     lastbyte (conn p k) = last_byte c \<and> start_byte c \<le> currentbyte (conn p k)
     \<and> currentbyte (conn p k) \<le> last_byte c + (if k \<in> J then 1 else 0))"

definition balanced :: "proc \<Rightarrow> bool" where
  "balanced p \<longleftrightarrow> finite (dom (outfile p)) \<and> bytes_done p = int (card (dom (outfile p)))
     \<and> work p LTE + work p WIFI + mset_set (dom (outfile p))
       = mset_set {0..last_seg_offset (offset_info p)}"

text \<open>The same while the bytes \<open>B\<close> are cut but not yet assigned.\<close>

definition balanced_with :: "int multiset \<Rightarrow> proc \<Rightarrow> bool" where
  "balanced_with B p \<longleftrightarrow> finite (dom (outfile p)) \<and> bytes_done p = int (card (dom (outfile p)))
     \<and> work p LTE + work p WIFI + mset_set (dom (outfile p)) + B
       = mset_set {0..last_seg_offset (offset_info p)}"

definition sound :: "proc \<Rightarrow> bool" where
  "sound p \<longleftrightarrow> wf_segs (offset_info p) \<and> wf_conns (offset_info p) \<and> subs_ok (offset_info p)
     \<and> remaining_chunks (offset_info p) = [] \<and> 0 \<le> init_seg_size (offset_info p)
     \<and> 0 \<le> last_seg_offset (offset_info p) \<and> last_seg_offset (offset_info p) < g_size p \<and> conn_ok p WIFI"

definition acct_but :: "link set \<Rightarrow> proc \<Rightarrow> bool" where
  "acct_but J p \<longleftrightarrow> sound p \<and> (\<forall>k. aimed J p k) \<and> balanced p"

definition acct_with :: "int multiset \<Rightarrow> link set \<Rightarrow> proc \<Rightarrow> bool" where
  "acct_with B J p \<longleftrightarrow> sound p \<and> (\<forall>k. aimed J p k) \<and> balanced_with B p"

lemma acct_with_empty: "acct_with {#} J p \<longleftrightarrow> acct_but J p"
  by (simp add: acct_with_def acct_but_def balanced_with_def balanced_def)

abbreviation acct :: "proc \<Rightarrow> bool" where
  "acct \<equiv> acct_but {}"

lemma balanced_any: "work p LTE + work p WIFI = work p k + work p (other k)"
  by (cases k) (simp_all add: add.commute)

lemma acct_with_layout:
  assumes "layout p = layout q"
  shows "acct_with B J p \<longleftrightarrow> acct_with B J q"
proof -
  let ?i = "offset_info p" and ?j = "offset_info q"
  have eq: "g_size p = g_size q" "conf p = conf q" "outfile p = outfile q" "bytes_done p = bytes_done q"
    "segs ?i = segs ?j" "num_segments ?i = num_segments ?j" "segment_count ?i = segment_count ?j"
    "completed_segment_count ?i = completed_segment_count ?j" "connection ?i = connection ?j"
    "last_seg_offset ?i = last_seg_offset ?j" "init_seg_size ?i = init_seg_size ?j"
    "remaining_chunks ?i = remaining_chunks ?j"
    "(\<lambda>k. currentbyte (conn p k)) = (\<lambda>k. currentbyte (conn q k))"
    "(\<lambda>k. lastbyte (conn p k)) = (\<lambda>k. lastbyte (conn q k))"
    using assms by (simp_all add: layout_def)
  then have cur: "currentbyte (conn p k) = currentbyte (conn q k)" "lastbyte (conn p k) = lastbyte (conn q k)" for k
    by metis+
  have c: "current_chunk ?i = current_chunk ?j" unfolding current_chunk_def [abs_def] eq ..
  have "work p = work q"
    unfolding work_def [abs_def] others_def [abs_def] assigned_def [abs_def] eq cur c ..
  then show ?thesis
    by (simp add: acct_with_def sound_def aimed_def balanced_with_def wf_segs_def wf_conns_def subs_ok_def
        conn_ok_def eq cur c)
qed

lemma acct_layout: "layout p = layout q \<Longrightarrow> acct_but J p \<longleftrightarrow> acct_but J q"
  unfolding acct_with_empty [symmetric] by (rule acct_with_layout)

lemma acct_but_mono: "acct_but J p \<Longrightarrow> J \<subseteq> K \<Longrightarrow> acct_but K p"
  by (auto simp: acct_but_def aimed_def split: if_splits)

section \<open>The current chunk\<close>

lemma assigned_chunks_append [simp]:
  "assigned_chunks k (ss @ ts) = assigned_chunks k ss @ assigned_chunks k ts"
  by (induction ss) (simp_all split: option.splits)

lemma current_chunk_SomeD:
  assumes "current_chunk i k = Some c"
  obtains q s b cs where "connection i k = Some q" "s \<in> set (segs i)" "seg_id s = q"
    "subseg s k = Some b" "ss_chunks b = c # cs"
  using assms by (auto simp: current_chunk_def dest!: find_SomeD split: option.splits list.splits)

lemma current_chunk_assigned:
  assumes "current_chunk i k = Some c"
  shows "mset (chunk_bytes c) \<subseteq># mset (assigned i k)"
proof -
  obtain q s b cs where s: "s \<in> set (segs i)" "subseg s k = Some b" "ss_chunks b = c # cs"
    using assms by (rule current_chunk_SomeD)
  obtain pre post where "segs i = pre @ s # post" using s(1) by (meson split_list)
  then show ?thesis using s(2,3) by (simp add: assigned_def)
qed

lemma others_split:
  "current_chunk i k = Some c \<Longrightarrow> mset (assigned i k) = mset (chunk_bytes c) + others i k"
  using current_chunk_assigned [of i k c] by (simp add: others_def)

lemma current_chunk_ok: "subs_ok i \<Longrightarrow> current_chunk i k = Some c \<Longrightarrow> chunk_ok c"
  by (erule current_chunk_SomeD) (auto simp: subs_ok_def)

lemma current_chunk_seg:
  assumes "wf_segs i" "s \<in> set (segs i)" "connection i k = Some (seg_id s)"
    "subseg s k = Some b" "ss_chunks b = c # cs"
  shows "current_chunk i k = Some c"
proof -
  have "find (\<lambda>t. seg_id t = seg_id s) (segs i) = Some s"
    using seg_at_ok [OF assms(1,2)] by (simp add: seg_at_def split: option.splits)
  with assms(3-5) show ?thesis by (simp add: current_chunk_def)
qed

text \<open>A connection that has not begun its current chunk has everything assigned to it left.\<close>

lemma work_fresh:
  assumes "\<And>c. current_chunk (offset_info p) k = Some c \<Longrightarrow> currentbyte (conn p k) = start_byte c"
  shows "work p k = mset (assigned (offset_info p) k)"
proof (cases "current_chunk (offset_info p) k")
  case None
  then show ?thesis by (simp add: work_def others_def)
next
  case (Some c)
  then show ?thesis using assms [OF Some] others_split [OF Some] by (simp add: work_def chunk_bytes_def)
qed

section \<open>Writing\<close>

lemma dom_store:
  "dom (store f pos data) = dom f \<union> {pos..<pos + int (length data)}"
  by (auto simp: store_def split: if_splits)

lemma mset_upto: "mset [a..b] = mset_set {a..b}" for a b :: int
  using mset_set_set [of "[a..b]"] by simp

text \<open>A part of a balanced total that is removed from one summand can be added to the set.\<close>

lemma mset_set_move:
  assumes "finite D" "W + mset_set B + mset_set D = mset_set A" "finite A" "finite B"
  shows "W + mset_set (D \<union> B) = mset_set A" and "D \<inter> B = {}"
proof -
  show disj: "D \<inter> B = {}"
  proof (rule ccontr)
    assume "D \<inter> B \<noteq> {}"
    then obtain x where x: "x \<in> D" "x \<in> B" by blast
    have "count (W + mset_set B + mset_set D) x = count (mset_set A) x" by (simp add: assms(2))
    then show False using x assms(1,3,4) by (simp add: count_mset_set' split: if_splits)
  qed
  show "W + mset_set (D \<union> B) = mset_set A"
    using assms(2) disj assms(1,4) by (simp add: mset_set_Union ac_simps)
qed

definition advance :: "link \<Rightarrow> string \<Rightarrow> proc \<Rightarrow> proc" where
  "advance k data p = upd_conn k (\<lambda>c. c\<lparr>currentbyte := currentbyte c + int (length data)\<rparr>)
     (p\<lparr>outfile := store (outfile p) (currentbyte (conn p k)) data,
        bytes_done := bytes_done p + int (length data)\<rparr>)"

lemma advance_simps [simp]:
  "offset_info (advance k data p) = offset_info p" "conf (advance k data p) = conf p"
  "g_size (advance k data p) = g_size p" "conn_ok (advance k data p) = conn_ok p"
  "currentbyte (conn (advance k data p) j)
     = currentbyte (conn p j) + (if j = k then int (length data) else 0)"
  "lastbyte (conn (advance k data p) j) = lastbyte (conn p j)"
  "dom (outfile (advance k data p))
     = dom (outfile p) \<union> {currentbyte (conn p k)..<currentbyte (conn p k) + int (length data)}"
  "bytes_done (advance k data p) = bytes_done p + int (length data)"
  by (simp_all add: advance_def upd_conn_def conn_ok_def fun_eq_iff dom_store)

lemma sound_cong:
  "offset_info q = offset_info p \<Longrightarrow> g_size q = g_size p \<Longrightarrow> conf q = conf p \<Longrightarrow> sound q = sound p"
  by (simp add: sound_def conn_ok_def)

lemma work_cong:
  "offset_info q = offset_info p \<Longrightarrow> currentbyte (conn q j) = currentbyte (conn p j) \<Longrightarrow> work q j = work p j"
  by (simp add: work_def split: option.split)

lemma advance_acct:
  assumes ok: "acct_but J p" and c: "current_chunk (offset_info p) k = Some c"
    and len: "currentbyte (conn p k) + int (length data) \<le> last_byte c + 1"
  shows "acct_but (insert k J) (advance k data p)"
proof -
  let ?p = "advance k data p" and ?n = "int (length data)" and ?x = "currentbyte (conn p k)"
  have sound: "sound ?p" using ok sound_cong [of ?p p] by (simp add: acct_but_def)
  have aim: "aimed (insert k J) ?p j" for j
  proof (cases "j = k")
    case True
    have "aimed J p k" using ok by (simp add: acct_but_def)
    then show ?thesis using len c True by (auto simp: aimed_def)
  next
    case False
    have "aimed J p j" using ok by (simp add: acct_but_def)
    then show ?thesis using False by (simp add: aimed_def)
  qed
  let ?B = "{?x..<?x + ?n}"
  have "mset [?x..last_byte c] = mset [?x..?x + ?n - 1] + mset [?x + ?n..last_byte c]"
    using upto_split [of ?x "?x + ?n - 1" "last_byte c"] len by (simp add: add.commute)
  moreover have "{?x..?x + ?n - 1} = ?B" by auto
  ultimately have "work p k = mset_set ?B + work ?p k"
    by (simp add: work_def c mset_upto)
  then have "work ?p k + work ?p (other k) + mset_set ?B + mset_set (dom (outfile p))
      = mset_set {0..last_seg_offset (offset_info p)}"
    using ok balanced_any [of p k] work_cong [of ?p p "other k"]
    by (simp add: acct_but_def balanced_def ac_simps)
  note eq = this
  have fin: "finite (dom (outfile p))" using ok by (simp add: acct_but_def balanced_def)
  have "work ?p k + work ?p (other k) + mset_set (dom (outfile p) \<union> ?B)
      = mset_set {0..last_seg_offset (offset_info p)}"
    and disj: "dom (outfile p) \<inter> ?B = {}"
    using mset_set_move [OF fin eq] by simp_all
  moreover have "int (card (dom (outfile p) \<union> ?B)) = int (card (dom (outfile p))) + ?n"
    using fin disj by (simp add: card_Un_disjoint)
  ultimately have "balanced ?p"
    using ok balanced_any [of ?p k] fin
    by (simp add: acct_but_def balanced_def)
  with sound aim show ?thesis by (simp add: acct_but_def)
qed

section \<open>Changing the segments\<close>

lemma find_map_id: "(\<And>s. seg_id (g s) = seg_id s) \<Longrightarrow>
  find (\<lambda>s. seg_id s = q) (map g ss) = map_option g (find (\<lambda>s. seg_id s = q) ss)"
  by (induction ss) auto

lemma assigned_map:
  assumes "\<And>s. s \<in> set (segs i) \<Longrightarrow> subseg (g s) k = subseg s k" "segs j = map g (segs i)"
  shows "assigned j k = assigned i k"
proof -
  have "assigned_chunks k (map g ss) = assigned_chunks k ss"
    if "\<forall>s \<in> set ss. subseg (g s) k = subseg s k" for ss
    using that by (induction ss) auto
  then show ?thesis using assms by (simp add: assigned_def)
qed

lemma current_chunk_map:
  assumes "\<And>s. seg_id (g s) = seg_id s" "\<And>s. subseg (g s) k = subseg s k"
    and "segs j = map g (segs i)" "connection j k = connection i k"
  shows "current_chunk j k = current_chunk i k"
proof -
  have "find (\<lambda>s. seg_id s = q) (segs j) = map_option g (find (\<lambda>s. seg_id s = q) (segs i))" for q
    using assms(1) by (simp add: assms(3) find_map_id)
  then show ?thesis
    by (simp add: current_chunk_def assms(2,4) comp_def cong: option.case_cong)
qed

text \<open>\<open>upd_seg\<close> changes one segment, the others stay.\<close>

lemma upd_seg_split:
  assumes "wf_segs i" "s \<in> set (segs i)"
  shows "\<exists>pre post. segs i = pre @ s # post \<and> (\<forall>f. segs (upd_seg (seg_id s) f i) = pre @ f s # post)"
proof -
  obtain pre post where sp: "segs i = pre @ s # post" using assms(2) by (meson split_list)
  have "seg_id t \<noteq> seg_id s" if "t \<in> set pre \<union> set post" for t
    using assms(1) that by (auto simp: wf_segs_def sp sorted_wrt_append)
  then have "map (\<lambda>t. if seg_id t = seg_id s then f t else t) (pre @ s # post) = pre @ f s # post" for f
    by (simp add: map_idI)
  then show ?thesis using sp by (intro exI [of _ pre] exI [of _ post]) simp
qed

lemma upd_seg_other:
  assumes "\<And>s. seg_id (f s) = seg_id s" "\<And>s. subseg (f s) j = subseg s j"
  shows "assigned (upd_seg q f i) j = assigned i j"
    and "current_chunk (upd_seg q f i) j = current_chunk i j"
  by (rule assigned_map [where g = "\<lambda>s. if seg_id s = q then f s else s"]; simp add: assms)
     (rule current_chunk_map [where g = "\<lambda>s. if seg_id s = q then f s else s"]; simp add: assms)

lemma acct_offset:
  assumes ok: "acct_but J p"
    and "wf_segs i" "wf_conns i" "subs_ok i" "remaining_chunks i = []"
    "init_seg_size i = init_seg_size (offset_info p)" "last_seg_offset i = last_seg_offset (offset_info p)"
    and cur: "\<And>k. current_chunk i k = current_chunk (offset_info p) k"
    and asg: "\<And>k. mset (assigned i k) = mset (assigned (offset_info p) k)"
  shows "acct_but J (p\<lparr>offset_info := i\<rparr>)"
proof -
  have "work (p\<lparr>offset_info := i\<rparr>) k = work p k" for k
    by (simp add: work_def others_def cur asg cong: option.case_cong)
  then show ?thesis using assms by (simp add: acct_but_def sound_def aimed_def balanced_def)
qed

lemma set_connection_simps [simp]:
  "conn (set_connection k q p) = conn p" "conf (set_connection k q p) = conf p"
  "g_size (set_connection k q p) = g_size p" "outfile (set_connection k q p) = outfile p"
  "ready (set_connection k q p) = ready p" "bytes_done (set_connection k q p) = bytes_done p"
  "offset_info (set_connection k q p) = (offset_info p)\<lparr>connection := (connection (offset_info p))(k := q)\<rparr>"
  by (simp_all add: set_connection_def upd_off_def)

lemma assigned_connection [simp]: "assigned (i\<lparr>connection := f\<rparr>) k = assigned i k"
  by (simp add: assigned_def)

lemma current_chunk_connection [simp]:
  "f j = connection i j \<Longrightarrow> current_chunk (i\<lparr>connection := f\<rparr>) j = current_chunk i j"
  "f k = None \<Longrightarrow> current_chunk (i\<lparr>connection := f\<rparr>) k = None"
  by (simp_all add: current_chunk_def cong: option.case_cong)

text \<open>Attaching a connection to the start of a subsegment.\<close>

definition aim :: "link \<Rightarrow> int \<Rightarrow> chunk \<Rightarrow> proc \<Rightarrow> proc" where
  "aim k q c p = upd_conn k (\<lambda>x. x\<lparr>currentbyte := start_byte c, lastbyte := last_byte c\<rparr>)
     (set_connection k (Some q) p)"

lemma attach_acct:
  assumes ok: "acct_but J p" and none: "connection (offset_info p) k = None"
    and s: "s \<in> set (segs (offset_info p))" "subseg s k = Some b" "ss_chunks b = c # cs"
  shows "acct_but J (aim k (seg_id s) c p)"
proof -
  let ?i = "offset_info p" and ?p = "aim k (seg_id s) c p"
  have o: "offset_info ?p = ?i\<lparr>connection := (connection ?i)(k := Some (seg_id s))\<rparr>"
    by (simp add: aim_def)
  have wf: "wf_segs (offset_info ?p)" using ok by (simp add: o acct_but_def sound_def)
  have cur: "current_chunk (offset_info ?p) k = Some c"
    using wf s by (intro current_chunk_seg) (simp_all add: o)
  have c_ok: "chunk_ok c" using ok s by (auto simp: acct_but_def sound_def subs_ok_def)
  have "wf_conns (offset_info ?p)"
    using ok s by (auto simp: o acct_but_def sound_def wf_conns_def)
  then have "sound ?p" using ok wf
    by (simp add: acct_but_def sound_def o subs_ok_def) (simp add: aim_def upd_conn_def conn_ok_def)
  moreover have "aimed J ?p j" for j
  proof (cases "j = k")
    case True
    then show ?thesis using cur c_ok by (auto simp: aimed_def chunk_ok_def) (simp_all add: aim_def)
  next
    case False
    have "aimed J p j" using ok by (simp add: acct_but_def)
    moreover have "conn ?p j = conn p j" using False by (simp add: aim_def)
    ultimately show ?thesis using False by (simp add: aimed_def o)
  qed
  moreover have "work ?p k = work p k"
  proof -
    have "work p k = mset (assigned ?i k)" using none by (intro work_fresh) (simp add: current_chunk_def)
    moreover have "work ?p k = mset (assigned ?i k)"
      using cur by (subst work_fresh) (auto simp: o, simp add: aim_def)
    ultimately show ?thesis by simp
  qed
  moreover have "work ?p (other k) = work p (other k)"
  proof -
    have "conn ?p (other k) = conn p (other k)" by (simp add: aim_def)
    then show ?thesis by (simp add: work_def others_def o cong: option.case_cong)
  qed
  ultimately show ?thesis
    using ok balanced_any [of p k] balanced_any [of ?p k]
    by (simp add: acct_but_def balanced_def o) (simp add: aim_def)
qed

section \<open>Freeing finished segments\<close>

lemma finished_unassigned: "seg_finished s \<Longrightarrow> subseg s k = None"
  by (cases k) (simp_all add: seg_finished_def)

lemma assigned_dropWhile:
  "assigned_chunks k (dropWhile seg_finished ss) = assigned_chunks k ss"
  by (induction ss) (auto simp: finished_unassigned)

lemma current_chunk_dropWhile:
  assumes "wf_segs i" "wf_segs j" "segs j = dropWhile seg_finished (segs i)" "connection j = connection i"
    and conns: "wf_conns i" and ok: "subs_ok i"
  shows "current_chunk j k = current_chunk i k"
proof (cases "connection i k")
  case None
  then show ?thesis by (simp add: current_chunk_def assms(4))
next
  case (Some q)
  obtain s b where s: "s \<in> set (segs i)" "seg_id s = q" "subseg s k = Some b"
    using conns [unfolded wf_conns_def, rule_format, OF Some] by auto
  obtain c cs where c: "ss_chunks b = c # cs" using ok s by (cases "ss_chunks b") (auto simp: subs_ok_def)
  have "\<not> seg_finished s" using s(3) finished_unassigned by fastforce
  then have "s \<in> set (segs j)" using s(1) assms(3)
    by (metis UnE set_append set_takeWhileD takeWhile_dropWhile_id)
  then show ?thesis
    using current_chunk_seg [OF assms(1) s(1) _ s(3) c] current_chunk_seg [OF assms(2) _ _ s(3) c] Some s(2)
    by (simp add: assms(4))
qed

lemma set_dropWhile_subset: "set (dropWhile P xs) \<subseteq> set xs"
  using set_dropWhileD by fast

lemma delete_heads_acct:
  assumes "acct_but J p"
  shows "acct_but J (upd_off delete_finished_heads p)"
proof -
  let ?i = "offset_info p" and ?j = "delete_finished_heads (offset_info p)"
  have s: "wf_segs ?i" "wf_conns ?i" "subs_ok ?i" "remaining_chunks ?i = []"
    using assms by (simp_all add: acct_but_def sound_def)
  have w: "wf_segs ?j" "wf_conns ?j"
    using s by (simp_all add: delete_finished_heads_wf delete_finished_heads_conns)
  have "subs_ok ?j" using s(3) set_dropWhile_subset [of seg_finished "segs ?i"]
    by (auto simp: subs_ok_def delete_finished_heads_segs)
  moreover have "current_chunk ?j k = current_chunk ?i k" for k
    using s w by (intro current_chunk_dropWhile) (simp_all add: delete_finished_heads_segs)
  moreover have "assigned ?j k = assigned ?i k" for k
    by (simp add: assigned_def delete_finished_heads_segs assigned_dropWhile)
  ultimately have "acct_but J (p\<lparr>offset_info := ?j\<rparr>)"
    using assms w s by (intro acct_offset) simp_all
  then show ?thesis by (simp add: upd_off_def)
qed

section \<open>The end of a chunk and of a subsegment\<close>

text \<open>The state of the segments after the head chunk of a subsegment was freed.\<close>

definition drop_head :: "int \<Rightarrow> link \<Rightarrow> chunk list \<Rightarrow> offset_info \<Rightarrow> offset_info" where
  "drop_head q k cs = upd_seg q (\<lambda>s. s\<lparr>subseg := (subseg s)(k := (case subseg s k of
      None \<Rightarrow> None
    | Some b \<Rightarrow> if cs = [] then None else Some (b\<lparr>ss_chunks := cs\<rparr>)))\<rparr>)"

lemma drop_head_frame [simp]:
  "connection (drop_head q k cs i) = connection i" "last_seg_offset (drop_head q k cs i) = last_seg_offset i"
  "init_seg_size (drop_head q k cs i) = init_seg_size i" "remaining_chunks (drop_head q k cs i) = remaining_chunks i"
  by (simp_all add: drop_head_def)

lemma drop_head_wf: "wf_segs i \<Longrightarrow> wf_segs (drop_head q k cs i)"
  unfolding drop_head_def by (rule upd_seg_wf) simp_all

lemma drop_head_other:
  assumes "j \<noteq> k"
  shows "assigned (drop_head q k cs i) j = assigned i j"
    and "current_chunk (drop_head q k cs i) j = current_chunk i j"
  using assms unfolding drop_head_def by (intro upd_seg_other; simp)+

lemma drop_head_assigned:
  assumes "wf_segs i" "s \<in> set (segs i)" "subseg s k = Some b" "ss_chunks b = c # cs"
  shows "mset (assigned i k) = mset (chunk_bytes c) + mset (assigned (drop_head (seg_id s) k cs i) k)"
proof -
  obtain pre post where sp: "segs i = pre @ s # post"
    "\<forall>f. segs (upd_seg (seg_id s) f i) = pre @ f s # post"
    using upd_seg_split [OF assms(1,2)] by blast
  show ?thesis
    unfolding assigned_def drop_head_def sp(2) [rule_format] sp(1) using assms(3,4) by auto
qed

lemma drop_head_subs_ok:
  assumes "subs_ok i" "\<forall>c \<in> set cs. chunk_ok c" "ascending cs"
  shows "subs_ok (drop_head q k cs i)"
  using assms unfolding subs_ok_def drop_head_def
  by (fastforce split: option.splits if_splits)

text \<open>
  The connection \<open>k\<close> has received the last byte of its chunk: what it has left is what is
  assigned to it once the chunk is freed.
\<close>

definition at_chunk_end :: "link set \<Rightarrow> proc \<Rightarrow> link \<Rightarrow> segment \<Rightarrow> subsegment \<Rightarrow> chunk \<Rightarrow> chunk list \<Rightarrow> bool" where
  "at_chunk_end J p k s b c cs \<longleftrightarrow> acct_but J p \<and> s \<in> set (segs (offset_info p))
     \<and> connection (offset_info p) k = Some (seg_id s) \<and> subseg s k = Some b \<and> ss_chunks b = c # cs
     \<and> currentbyte (conn p k) = last_byte c + 1"

lemma at_chunk_end_facts:
  assumes "at_chunk_end J p k s b c cs"
  defines "i \<equiv> offset_info p" and "j \<equiv> drop_head (seg_id s) k cs (offset_info p)"
  shows "wf_segs i" "wf_conns i" "subs_ok i" "current_chunk i k = Some c" "wf_segs j" "subs_ok j"
    "work p k = mset (assigned j k)"
proof -
  note a = assms(1) [unfolded at_chunk_end_def]
  show i: "wf_segs i" "wf_conns i" "subs_ok i" using a by (simp_all add: i_def acct_but_def sound_def)
  show cur: "current_chunk i k = Some c" using a i by (intro current_chunk_seg) (auto simp: i_def)
  have "(\<forall>d \<in> set (ss_chunks b). chunk_ok d) \<and> ascending (ss_chunks b)"
    using a i(3) unfolding subs_ok_def i_def by blast
  then have "\<forall>d \<in> set cs. chunk_ok d" "ascending cs" using a by simp_all
  then show "wf_segs j" "subs_ok j"
    using i by (simp_all add: j_def i_def drop_head_wf drop_head_subs_ok)
  have "mset (assigned i k) = mset (chunk_bytes c) + mset (assigned j k)"
    using a i unfolding i_def j_def by (intro drop_head_assigned) auto
  then show "work p k = mset (assigned j k)"
    using others_split [OF cur] a by (simp add: work_def cur [unfolded i_def] i_def)
qed

lemma upd_seg_mem: "s \<in> set (segs i) \<Longrightarrow> (if seg_id s = q then f s else s) \<in> set (segs (upd_seg q f i))"
  by auto

lemma drop_head_conns:
  assumes "wf_conns i" "connection i j = Some q" "j \<noteq> k"
  shows "\<exists>t \<in> set (segs (drop_head r k cs i)). seg_id t = q \<and> subseg t j \<noteq> None"
proof -
  obtain s where "s \<in> set (segs i)" "seg_id s = q" "subseg s j \<noteq> None"
    using assms(1) [unfolded wf_conns_def, rule_format, OF assms(2)] by blast
  then show ?thesis
    unfolding drop_head_def using assms(3) by (intro bexI [OF _ upd_seg_mem]) auto
qed

text \<open>The balance of a state in which only connection \<open>k\<close> and the segments changed.\<close>

lemma acct_move:
  assumes ok: "acct_but J p" and snd: "sound q" and aim: "aimed K q k" "J \<subseteq> insert k K" "K \<subseteq> J"
    and cur: "current_chunk (offset_info q) (other k) = current_chunk (offset_info p) (other k)"
    and asg: "assigned (offset_info q) (other k) = assigned (offset_info p) (other k)"
    and eq: "conn q (other k) = conn p (other k)" "outfile q = outfile p" "bytes_done q = bytes_done p"
      "last_seg_offset (offset_info q) = last_seg_offset (offset_info p)"
    and work: "work q k = work p k"
  shows "acct_but K q"
proof -
  have "work q (other k) = work p (other k)"
    by (simp add: work_def others_def cur asg eq cong: option.case_cong)
  then have "balanced q"
    using ok work balanced_any [of p k] balanced_any [of q k] by (simp add: acct_but_def balanced_def eq)
  moreover have "aimed K q (other k)"
  proof -
    have "aimed J p (other k)" using ok by (simp add: acct_but_def)
    moreover have "other k \<in> J \<longleftrightarrow> other k \<in> K" using aim(2,3) by auto
    ultimately show ?thesis unfolding aimed_def cur eq by simp
  qed
  moreover have "j = k \<or> j = other k" for j by (rule link_cases2)
  ultimately show ?thesis using snd aim(1) unfolding acct_but_def by metis
qed

lemma next_chunk_acct:
  assumes "at_chunk_end J p k s b c (d # ds)"
  shows "acct_but (J - {k}) (upd_conn k (\<lambda>x. x\<lparr>currentbyte := start_byte d, lastbyte := last_byte d\<rparr>)
           (upd_off (drop_head (seg_id s) k (d # ds)) p))"
proof -
  let ?i = "offset_info p" and ?j = "drop_head (seg_id s) k (d # ds) (offset_info p)"
  let ?q = "upd_conn k (\<lambda>x. x\<lparr>currentbyte := start_byte d, lastbyte := last_byte d\<rparr>)
    (upd_off (drop_head (seg_id s) k (d # ds)) p)"
  note a = assms [unfolded at_chunk_end_def] and f = at_chunk_end_facts [OF assms]
  have ok: "acct_but J p" using a by simp
  let ?s = "s\<lparr>subseg := (subseg s)(k := Some (b\<lparr>ss_chunks := d # ds\<rparr>))\<rparr>"
  have "(if seg_id s = seg_id s then s\<lparr>subseg := (subseg s)(k := (case subseg s k of
      None \<Rightarrow> None | Some b \<Rightarrow> if d # ds = [] then None else Some (b\<lparr>ss_chunks := d # ds\<rparr>)))\<rparr> else s)
    \<in> set (segs ?j)"
    using a unfolding drop_head_def by (intro upd_seg_mem) simp
  then have mem: "?s \<in> set (segs ?j)" using a by simp
  have "connection ?j k = Some (seg_id ?s)" "subseg ?s k = Some (b\<lparr>ss_chunks := d # ds\<rparr>)"
    "ss_chunks (b\<lparr>ss_chunks := d # ds\<rparr>) = d # ds" using a by simp_all
  with f(5) mem have cur: "current_chunk ?j k = Some d" by (rule current_chunk_seg)
  have d_ok: "chunk_ok d" using f(6) cur by (rule current_chunk_ok)
  have "wf_conns ?j"
    unfolding wf_conns_def
  proof (intro allI impI)
    fix l q
    assume l: "connection ?j l = Some q"
    show "\<exists>t \<in> set (segs ?j). seg_id t = q \<and> subseg t l \<noteq> None"
    proof (cases "l = k")
      case True
      then show ?thesis using l a mem by (intro bexI [of _ ?s]) simp_all
    next
      case False
      then show ?thesis using l f(2) by (intro drop_head_conns) simp_all
    qed
  qed
  then have snd: "sound ?q"
    using ok f by (simp add: acct_but_def sound_def)
  have "work ?q k = mset (assigned ?j k)" using cur by (subst work_fresh) simp_all
  then show ?thesis
    using f(7) cur d_ok drop_head_other [of "other k" k]
    by (intro acct_move [OF ok snd, of "J - {k}" k]) (auto simp: aimed_def chunk_ok_def upd_off_def upd_conn_def)
qed

lemma detach_acct:
  assumes "at_chunk_end J p k s b c []"
  shows "acct_but (J - {k}) (set_connection k None (upd_off (drop_head (seg_id s) k []) p))"
proof -
  let ?j = "drop_head (seg_id s) k [] (offset_info p)"
  let ?q = "set_connection k None (upd_off (drop_head (seg_id s) k []) p)"
  note a = assms [unfolded at_chunk_end_def] and f = at_chunk_end_facts [OF assms]
  have ok: "acct_but J p" using a by simp
  have "wf_conns (offset_info ?q)"
    unfolding wf_conns_def
  proof (intro allI impI)
    fix l q
    assume l: "connection (offset_info ?q) l = Some q"
    then have "l \<noteq> k" by auto
    then have "\<exists>t \<in> set (segs ?j). seg_id t = q \<and> subseg t l \<noteq> None"
      using l f(2) by (intro drop_head_conns) simp_all
    then show "\<exists>t \<in> set (segs (offset_info ?q)). seg_id t = q \<and> subseg t l \<noteq> None" by simp
  qed
  then have snd: "sound ?q"
    using ok f by (simp add: acct_but_def sound_def subs_ok_def) (simp add: set_connection_def upd_off_def conn_ok_def)
  have "work ?q k = mset (assigned ?j k)" by (subst work_fresh) simp_all
  then show ?thesis
    using f(7) drop_head_other [of "other k" k]
    by (intro acct_move [OF ok snd, of "J - {k}" k]) (auto simp: aimed_def upd_off_def)
qed

end
