(* ===== verification/Balance.thy ===== *)
theory Balance
  imports Accounting
begin

text \<open>
  The balance of \<open>Accounting\<close> through the operations of the code: writing received data,
  finishing a chunk or a subsegment, adding a segment, recovery, and so through every turn of
  the download loop.
\<close>

section \<open>What the handlers keep\<close>

text \<open>The flag of the loop, the configuration, the measured goodputs, and what the server supports.\<close>

definition keeps :: "proc \<Rightarrow> proc \<Rightarrow> bool" where
  "keeps p q \<longleftrightarrow> ready q = ready p \<and> conf q = conf p \<and> g_size q = g_size p
     \<and> outfile q = outfile p \<and> bytes_done q = bytes_done p
     \<and> (\<forall>k. c_bytes_per_second (conn q k) = c_bytes_per_second (conn p k))
     \<and> supported (conn q LTE) = supported (conn p LTE)"

lemma keeps_refl [simp]: "keeps p p"
  by (simp add: keeps_def)

lemma keeps_trans [trans]: "keeps p q \<Longrightarrow> keeps q r \<Longrightarrow> keeps p r"
  by (simp add: keeps_def)

lemma view_keeps: "view q = view p \<Longrightarrow> keeps p q"
  unfolding view_def layout_def keeps_def by (auto simp: fun_eq_iff)

lemma view_acct: "view q = view p \<Longrightarrow> acct_but J q \<longleftrightarrow> acct_but J p"
  by (rule acct_layout) (rule view_layout)

lemma keeps_set_connection [simp]: "keeps p (set_connection k q r) \<longleftrightarrow> keeps p r"
  by (simp add: keeps_def)

lemma keeps_upd_off [simp]: "keeps p (upd_off f r) \<longleftrightarrow> keeps p r"
  by (simp add: keeps_def upd_off_def)

lemma keeps_aim [simp]: "keeps p (aim k q c r) \<longleftrightarrow> keeps p r"
  by (auto simp: keeps_def aim_def upd_conn_def)

lemma keeps_offset [simp]: "keeps p (r\<lparr>offset_info := i\<rparr>) \<longleftrightarrow> keeps p r"
  by (simp add: keeps_def)

section \<open>Pointing a connection at a subsegment\<close>

lemma aim_at_Inr:
  assumes "aim_at k b (set_connection k (Some q) p) = Inr p'"
  obtains c cs where "ss_chunks b = c # cs" "p' = aim k q c p"
  using assms by (cases "ss_chunks b") (auto simp: aim_at_def aim_def)

lemma set_connection_twice [simp]: "set_connection k q (set_connection k r p) = set_connection k q p"
  by (simp add: set_connection_def upd_off_def)

lemma aim_set_connection [simp]: "aim k q c (set_connection k r p) = aim k q c p"
  by (simp add: aim_def)

lemma attach_twice:
  assumes "acct_but J (set_connection k None p)" "s \<in> set (segs (offset_info p))"
    "subseg s k = Some b" "aim_at k b (set_connection k (Some (seg_id s)) p) = Inr p'"
  shows "acct_but J p'" "keeps p p'"
proof -
  obtain c cs where c: "ss_chunks b = c # cs" "p' = aim k (seg_id s) c p"
    using assms(4) by (rule aim_at_Inr)
  have "acct_but J (aim k (seg_id s) c (set_connection k None p))"
    using assms(1,2,3) c by (intro attach_acct) simp_all
  then show "acct_but J p'" "keeps p p'" using c by simp_all
qed

section \<open>The end of a chunk\<close>

lemma upd_seg_cong:
  assumes "wf_segs i" "s \<in> set (segs i)" "f s = g s"
  shows "upd_seg (seg_id s) f i = upd_seg (seg_id s) g i"
proof -
  obtain pre post where sp: "\<forall>f. segs (upd_seg (seg_id s) f i) = pre @ f s # post"
    using upd_seg_split [OF assms(1,2)] by blast
  have "segs (upd_seg (seg_id s) f i) = segs (upd_seg (seg_id s) g i)"
    unfolding sp [rule_format] assms(3) ..
  then show ?thesis by (simp add: upd_seg_def)
qed

lemma upd_seg_upd_seg:
  "(\<And>s. seg_id (g s) = seg_id s) \<Longrightarrow> upd_seg q f (upd_seg q g i) = upd_seg q (\<lambda>s. f (g s)) i"
  by (simp add: upd_seg_def)

lemma drop_head_eq:
  assumes "wf_segs i" "s \<in> set (segs i)" "subseg s k = Some b"
  shows "cs \<noteq> [] \<Longrightarrow> upd_seg (seg_id s) (\<lambda>s. s\<lparr>subseg := (subseg s)(k := Some (b\<lparr>ss_chunks := cs\<rparr>))\<rparr>) i
                      = drop_head (seg_id s) k cs i"
    and "upd_seg (seg_id s) (\<lambda>s. s\<lparr>subseg := (subseg s)(k := None)\<rparr>)
           (upd_seg (seg_id s) (\<lambda>s. s\<lparr>subseg := (subseg s)(k := Some (b\<lparr>ss_chunks := cs\<rparr>))\<rparr>) i)
         = drop_head (seg_id s) k [] i"
proof -
  show "cs \<noteq> [] \<Longrightarrow> upd_seg (seg_id s) (\<lambda>s. s\<lparr>subseg := (subseg s)(k := Some (b\<lparr>ss_chunks := cs\<rparr>))\<rparr>) i
                      = drop_head (seg_id s) k cs i"
    unfolding drop_head_def using assms by (intro upd_seg_cong) simp_all
  show "upd_seg (seg_id s) (\<lambda>s. s\<lparr>subseg := (subseg s)(k := None)\<rparr>)
           (upd_seg (seg_id s) (\<lambda>s. s\<lparr>subseg := (subseg s)(k := Some (b\<lparr>ss_chunks := cs\<rparr>))\<rparr>) i)
         = drop_head (seg_id s) k [] i"
    unfolding drop_head_def using assms by (subst upd_seg_upd_seg, simp) (intro upd_seg_cong; simp)
qed

lemma finish_last_chunk_cases:
  assumes r: "finish_last_chunk_of_subseg k p = Inr (fin, p')"
    and e: "at_chunk_end J p k s b c cs"
  shows "if fin
    then cs = [] \<and> p' = upd_off (upd_seg (seg_id s)
           (\<lambda>s. s\<lparr>subseg := (subseg s)(k := Some (b\<lparr>ss_chunks := []\<rparr>))\<rparr>)) p
    else acct_but (J - {k}) p' \<and> keeps p p'"
proof -
  note a = e [unfolded at_chunk_end_def] and f = at_chunk_end_facts [OF e]
  have seg: "seg_deref (offset_info p) (connection (offset_info p) k) = Inr s"
    using a seg_at_ok [OF f(1)] by simp
  let ?p1 = "\<lambda>cs. upd_off (upd_seg (seg_id s) (\<lambda>s. s\<lparr>subseg := (subseg s)(k := Some (b\<lparr>ss_chunks := cs\<rparr>))\<rparr>)) p"
  show ?thesis
  proof (cases cs)
    case Nil
    then have "fin \<and> p' = ?p1 []"
      using r a seg by (auto simp: finish_last_chunk_of_subseg_def Let_def)
    with Nil show ?thesis by simp
  next
    case (Cons d ds)
    let ?p2 = "upd_conn k (\<lambda>x. x\<lparr>currentbyte := start_byte d, lastbyte := last_byte d\<rparr>) (?p1 cs)"
    obtain ok p3 where h: "gb_receive_http_header_response k ?p2 = Inr (ok, p3)"
      and p': "\<not> fin" "p' = (if ok then start_receiving k p3 else p3)"
      using r a seg Cons by (auto simp: finish_last_chunk_of_subseg_def Let_def elim!: bindR_InrE)
    have "?p1 cs = upd_off (drop_head (seg_id s) k cs) p"
      using drop_head_eq(1) [OF f(1), of s k b cs] a Cons by (simp add: upd_off_def)
    then have "acct_but (J - {k}) ?p2" using next_chunk_acct [of J p k s b c d ds] e Cons by simp
    moreover have v: "view p' = view ?p2" using view_header_response [OF h] p' by simp
    ultimately have "acct_but (J - {k}) p'" by (simp only: view_acct [OF v])
    moreover have "keeps p ?p2" by (auto simp: keeps_def upd_conn_def upd_off_def)
    then have "keeps p p'" using view_keeps [OF v] by (rule keeps_trans)
    ultimately show ?thesis using p'(1) by simp
  qed
qed

lemma view_set_connection: "view q = view p \<Longrightarrow> view (set_connection k r q) = view (set_connection k r p)"
  by (simp add: view_def layout_def)

lemma view_trans: "view r = view q \<Longrightarrow> view q = view p \<Longrightarrow> view r = view p"
  by simp

lemma next_subseg_acct:
  assumes ok: "acct_but J (set_connection k None p)" and r: "next_subseg k p = Inr p'"
  shows "acct_but J p' \<and> keeps p p'"
proof -
  obtain okh p0 where h: "gb_receive_http_header_response k p = Inr (okh, p0)"
    and r1: "(let p1 = (if okh then start_receiving k p0 else p0); i = offset_info p1 in
       bindR (get_first_next_segment_assigned_to_conn i (connection i k) k) (\<lambda>next.
         case next of
           None \<Rightarrow> Inl NullDeref
         | Some r \<Rightarrow>
             bindR (seg_at i r) (\<lambda>s.
             case subseg s k of
               None \<Rightarrow> Inl NullDeref
             | Some b \<Rightarrow>
                 bindR (aim_at k b (set_connection k (Some r) p1)) (\<lambda>p2.
                 bindR (checking_last_subseg k p2) (\<lambda>p3.
                 bindR (get_first_next_segment_assigned_to_conn (offset_info p3) (Some r) k) (\<lambda>more.
                   Inr (if more = None then upd_conn k (\<lambda>c. c\<lparr>pipeline_requests_sent := False\<rparr>) p3
                        else p3))))))) = Inr p'"
    using r unfolding next_subseg_def by (auto elim!: bindR_InrE)
  define p1 where "p1 = (if okh then start_receiving k p0 else p0)"
  have v1: "view p1 = view p" using view_header_response [OF h] by (simp add: p1_def)
  obtain nx where "bindR (seg_at (offset_info p1) nx) (\<lambda>s.
             case subseg s k of
               None \<Rightarrow> Inl NullDeref
             | Some b \<Rightarrow>
                 bindR (aim_at k b (set_connection k (Some nx) p1)) (\<lambda>p2.
                 bindR (checking_last_subseg k p2) (\<lambda>p3.
                 bindR (get_first_next_segment_assigned_to_conn (offset_info p3) (Some nx) k) (\<lambda>more.
                   Inr (if more = None then upd_conn k (\<lambda>c. c\<lparr>pipeline_requests_sent := False\<rparr>) p3
                        else p3))))) = Inr p'"
    using r1 unfolding Let_def p1_def [symmetric] by (auto elim!: bindR_InrE split: option.splits)
  then obtain s b p2 p3 where s: "seg_at (offset_info p1) nx = Inr s" "subseg s k = Some b"
      and p2: "aim_at k b (set_connection k (Some nx) p1) = Inr p2"
      and p3: "checking_last_subseg k p2 = Inr p3" and v: "view p' = view p3"
    by (auto elim!: bindR_InrE split: option.splits if_splits)
  have "acct_but J (set_connection k None p1)"
    using ok view_acct [OF view_set_connection [OF v1]] by simp
  moreover have "s \<in> set (segs (offset_info p1))" "seg_id s = nx" using seg_at_Inr [OF s(1)] by simp_all
  ultimately have a: "acct_but J p2" "keeps p1 p2" using attach_twice s(2) p2 by blast+
  have v': "view p' = view p2" using v view_checking_last_subseg [OF p3] by simp
  have "keeps p p'"
    using view_keeps [OF v1] a(2) view_keeps [OF v'] by (blast intro: keeps_trans)
  then show ?thesis using a(1) view_acct [OF v'] by simp
qed

lemma finish_downloading_acct:
  assumes ok: "acct_but J (set_connection k None p)" and r: "finish_downloading_subseg k p = Inr p'"
  shows "acct_but J p' \<and> keeps p p'"
proof -
  obtain p2 where p2: "(if pipeline_requests_sent (conn p k) then next_subseg k p
            else bindR (if lastbyte (conn p k) = g_size p - 1 then Inr True
                        else bindR (conn_at p (other k)) (\<lambda>x.
                          Inr (lastbyte x = g_size p - 1
                               \<or> single_link_mode_flag (offset_info p) \<and> k = LTE))) (\<lambda>close.
                   let p1 = set_connection k None p
                   in Inr (if close then conn_disconnect k p1 else p1))) = Inr p2"
    and p': "p' = upd_off delete_finished_heads p2"
    using r unfolding finish_downloading_subseg_def by (auto elim!: bindR_InrE)
  have "acct_but J p2 \<and> keeps p p2"
  proof (cases "pipeline_requests_sent (conn p k)")
    case True
    then show ?thesis using p2 ok by (intro next_subseg_acct) simp_all
  next
    case False
    then have v: "view p2 = view (set_connection k None p)"
      using p2 by (auto simp: Let_def elim!: bindR_InrE split: if_splits)
    then show ?thesis using ok view_acct [OF v] view_keeps [OF v] keeps_trans by (auto simp: keeps_def)
  qed
  then show ?thesis by (simp add: p' delete_heads_acct)
qed

lemma finish_chunk_acct:
  assumes ok: "acct_but {k} p" and cur: "current_chunk (offset_info p) k = Some c"
    and e: "currentbyte (conn p k) = last_byte c + 1" and r: "finish_chunk k p = Inr p'"
  shows "acct p' \<and> keeps p p'"
proof -
  let ?p0 = "upd_conn k (\<lambda>c. c\<lparr>enabled := False\<rparr>) p"
  obtain q s b cs where s: "connection (offset_info p) k = Some q" "s \<in> set (segs (offset_info p))"
      "seg_id s = q" "subseg s k = Some b" "ss_chunks b = c # cs"
    using cur by (rule current_chunk_SomeD)
  have v0: "view ?p0 = view p" by simp
  have k0: "keeps p ?p0" using v0 by (rule view_keeps)
  have end_k: "at_chunk_end {k} ?p0 k s b c cs"
    using ok s e view_acct [OF v0, of "{k}"] by (simp add: at_chunk_end_def)
  obtain fin p1 where f: "finish_last_chunk_of_subseg k ?p0 = Inr (fin, p1)"
    and rest: "(if fin then
         (case connection (offset_info p1) k of
            None \<Rightarrow> Inl NullDeref
          | Some q \<Rightarrow>
              bindR (delete_subsegment (offset_info p1) q k) (\<lambda>i.
              bindR (finish_downloading_subseg k (p1\<lparr>offset_info := i\<rparr>)) update_inorder_offset))
       else Inr p1) = Inr p'"
    using r unfolding finish_chunk_def by (auto elim!: bindR_InrE)
  note cases = finish_last_chunk_cases [OF f end_k]
  show ?thesis
  proof (cases fin)
    case False
    then show ?thesis using cases rest keeps_trans [OF k0] by auto
  next
    case True
    let ?i1 = "upd_seg (seg_id s) (\<lambda>s. s\<lparr>subseg := (subseg s)(k := Some (b\<lparr>ss_chunks := []\<rparr>))\<rparr>) (offset_info ?p0)"
    have p1: "cs = []" "p1 = upd_off (upd_seg (seg_id s) (\<lambda>s. s\<lparr>subseg := (subseg s)(k := Some (b\<lparr>ss_chunks := []\<rparr>))\<rparr>)) ?p0"
      using cases True by simp_all
    then obtain i p2 where i: "delete_subsegment ?i1 q k = Inr i"
      and p2: "finish_downloading_subseg k (p1\<lparr>offset_info := i\<rparr>) = Inr p2"
      and p3: "update_inorder_offset p2 = Inr p'"
      using rest True s(1) by (auto elim!: bindR_InrE)
    have "i = drop_head (seg_id s) k [] (offset_info ?p0)"
      using delete_subsegment_Inr(1) [OF i] drop_head_eq(2) [of "offset_info ?p0" s k b "[]"]
        at_chunk_end_facts(1) [OF end_k] s by simp
    then have eq: "p1\<lparr>offset_info := i\<rparr> = upd_off (drop_head (seg_id s) k []) ?p0"
      by (simp add: p1(2) upd_off_def)
    have "acct_but ({k} - {k}) (set_connection k None (upd_off (drop_head (seg_id s) k []) ?p0))"
      using end_k unfolding p1(1) by (rule detach_acct)
    then have "acct p2 \<and> keeps (p1\<lparr>offset_info := i\<rparr>) p2"
      using p2 unfolding eq by (intro finish_downloading_acct) simp_all
    moreover have "keeps p (p1\<lparr>offset_info := i\<rparr>)" using k0 unfolding eq by simp
    ultimately show ?thesis
      using view_update_inorder_offset [OF p3] view_acct view_keeps keeps_trans by metis
  qed
qed

end
