(* ===== verification/Handout.thy ===== *)
theory Handout
  imports Balance
begin

text \<open>
  Handing out bytes: a new segment adds its bytes to what is cut but not yet assigned, and its
  division into subsegments assigns exactly these bytes, whatever the goodputs are, as long as
  the two shares are not negative.
\<close>

section \<open>Sizes are not negative\<close>

lemma later_sizes_nonneg:
  assumes "\<forall>s \<in> set ss. \<forall>b. subseg s k = Some b \<longrightarrow> 0 < ss_size b"
  shows "0 \<le> later_sizes k tail ss"
  using assms by (induction k tail ss rule: later_sizes.induct) (auto split: option.splits)

lemma pending_of_conn_nonneg:
  assumes s: "sound p" and a: "aimed J p k" and r: "pending_of_conn p index k = Inr v"
  shows "0 \<le> v"
proof (cases "connection (offset_info p) k")
  case None
  then show ?thesis using r by (simp add: pending_of_conn_def)
next
  case (Some q)
  let ?i = "offset_info p"
  have ok: "wf_segs ?i" "wf_conns ?i" "subs_ok ?i" using s by (simp_all add: sound_def)
  obtain t b where t: "t \<in> set (segs ?i)" "seg_id t = q" "subseg t k = Some b"
    using ok(2) [unfolded wf_conns_def, rule_format, OF Some] by auto
  obtain c cs where c: "ss_chunks b = c # cs" using ok(3) t by (cases "ss_chunks b") (auto simp: subs_ok_def)
  have "current_chunk ?i k = Some c" using ok(1) t c Some by (intro current_chunk_seg) auto
  then have "0 \<le> lastbyte (conn p k) - currentbyte (conn p k) + 1"
    using a by (auto simp: aimed_def split: if_splits)
  moreover have "0 \<le> later_sizes k (tail_ptr ?i) (after_seg (segs ?i) q)"
    using ok(3) after_seg_subset [of "segs ?i" q] by (intro later_sizes_nonneg) (auto simp: subs_ok_def)
  ultimately show ?thesis
    using r Some by (auto simp: pending_of_conn_def Let_def bindR_eq_Inr split: if_splits)
qed

lemma get_virtual_seg_size_nonneg:
  assumes "sound p" "\<And>k. aimed J p k" "get_virtual_seg_size p index n = Inr v" "0 \<le> n"
    and "\<And>s. segs (offset_info p) = [s] \<Longrightarrow> 0 \<le> seg_size s"
  shows "0 \<le> v"
proof (cases "num_segments (offset_info p) = 1")
  case True
  then have "length (segs (offset_info p)) = 1" using assms(1) by (simp add: sound_def wf_segs_def)
  then obtain s where "segs (offset_info p) = [s]" by (auto simp: length_Suc_conv)
  then show ?thesis using assms(3,5) True by (simp add: get_virtual_seg_size_def)
next
  case False
  then obtain a b where "pending_of_conn p index LTE = Inr a" "pending_of_conn p index WIFI = Inr b"
      "v = a + b + n"
    using assms(3) by (auto simp: get_virtual_seg_size_def elim!: bindR_InrE)
  then show ?thesis
    using pending_of_conn_nonneg [OF assms(1,2)] assms(4) by (metis add_nonneg_nonneg)
qed

section \<open>Assigning a segment\<close>

lemma assigned_append_seg:
  "mset (assigned (i\<lparr>segs := ss @ [s]\<rparr>) k) = mset (assigned (i\<lparr>segs := ss\<rparr>) k) + mset (sub_bytes s k)"
  by (auto simp: assigned_def sub_bytes_def split: option.splits)

lemma wf_segs_replace_tail:
  assumes "wf_segs i" "segs i = pre @ [sg]" "seg_id sg' = seg_id sg" "seg_chunks sg' = seg_chunks sg"
  shows "wf_segs (i\<lparr>segs := pre @ [sg']\<rparr>)"
  using assms by (auto simp: wf_segs_def)

text \<open>Bytes that are missing in the balance are missing once.\<close>

lemma acct_with_distinct:
  assumes "acct_with (mset bs) J p"
  shows "distinct bs"
proof -
  have "mset bs \<subseteq># mset_set {0..last_seg_offset (offset_info p)}"
    using assms by (auto simp: acct_with_def balanced_with_def dest!: sym [of _ "mset_set _"])
  then have "count (mset bs) x \<le> count (mset_set {0..last_seg_offset (offset_info p)}) x" for x
    by (rule mset_subset_eq_count)
  then have "count (mset bs) x \<le> 1" for x
    by (rule order_trans) (simp add: count_mset_set')
  then have "count (mset bs) x = (if x \<in> set bs then 1 else 0)" for x
    by (metis One_nat_def count_greater_zero_iff count_mset_0_iff le_antisym less_one not_less set_mset_mset Suc_leI)
  then show ?thesis by (simp add: distinct_count_atmost_1)
qed

lemma hand_out:
  assumes ok: "acct_with (mset (bytes_of (seg_chunks sg))) J p"
    and segs: "segs (offset_info p) = pre @ [sg]" and fresh: "subseg sg = (\<lambda>_. None)"
    and same: "seg_id sg' = seg_id sg" "seg_chunks sg' = seg_chunks sg"
    and parts: "sub_bytes sg' k @ sub_bytes sg' (other k) = bytes_of (seg_chunks sg)"
    and subs: "\<forall>j. sub_ok sg' j"
    and sorted: "\<forall>c \<in> set (seg_chunks sg). chunk_ok c" "sorted (map start_byte (seg_chunks sg))"
  shows "acct_but J (p\<lparr>offset_info := (offset_info p)\<lparr>segs := pre @ [sg']\<rparr>\<rparr>)"
proof -
  let ?i = "offset_info p" and ?j = "(offset_info p)\<lparr>segs := pre @ [sg']\<rparr>"
  let ?p = "p\<lparr>offset_info := ?j\<rparr>"
  have i: "wf_segs ?i" "wf_conns ?i" "subs_ok ?i" using ok by (simp_all add: acct_with_def sound_def)
  have wf: "wf_segs ?j" using i(1) segs same by (rule wf_segs_replace_tail)
  have pre: "\<exists>s \<in> set pre. seg_id s = q \<and> subseg s l \<noteq> None" if conn_l: "connection ?i l = Some q" for l q
  proof -
    obtain s where "s \<in> set (segs ?i)" "seg_id s = q" "subseg s l \<noteq> None"
      using i(2) [unfolded wf_conns_def, rule_format, OF conn_l] by blast
    then show ?thesis using fresh by (auto simp: segs)
  qed
  have "wf_conns ?j" using pre by (fastforce simp: wf_conns_def)
  moreover have "subs_ok ?j"
  proof -
    have "distinct (bytes_of (seg_chunks sg))" using ok by (rule acct_with_distinct)
    then have "sorted_wrt (<) (bytes_of (seg_chunks sg))"
      using ascending_distinct [OF sorted] ascending_bytes [OF sorted(1)] by simp
    then have inc: "sorted_wrt (<) (sub_bytes sg' l)" for l
      unfolding parts [symmetric] sorted_wrt_append by (cases k; cases l) simp_all
    have "ss_chunks b \<noteq> [] \<and> (\<forall>c \<in> set (ss_chunks b). chunk_ok c) \<and> ascending (ss_chunks b) \<and> 0 < ss_size b"
      if "subseg sg' l = Some b" for l b
      using subs [rule_format, of l] that total_size_pos [of "ss_chunks b"] inc [of l] ascending_bytes [of "ss_chunks b"]
      by (simp add: sub_ok_def sub_bytes_def)
    then show ?thesis using i(3) by (auto simp: subs_ok_def segs)
  qed
  ultimately have snd: "sound ?p"
    using ok wf by (simp add: acct_with_def sound_def)
  have cur: "current_chunk ?j l = current_chunk ?i l" for l
  proof (cases "connection ?i l")
    case (Some q)
    obtain s b where s: "s \<in> set pre" "seg_id s = q" "subseg s l = Some b" using pre [OF Some] by auto
    obtain c cs where c: "ss_chunks b = c # cs"
      using i(3) s by (cases "ss_chunks b") (auto simp: subs_ok_def segs)
    have "current_chunk ?i l = Some c" using i(1) s c Some by (intro current_chunk_seg) (auto simp: segs)
    moreover have "current_chunk ?j l = Some c" using wf s c Some by (intro current_chunk_seg) auto
    ultimately show ?thesis by simp
  qed (simp add: current_chunk_def)
  have asg: "mset (assigned ?j l) = mset (assigned ?i l) + mset (sub_bytes sg' l)" for l
  proof -
    have "assigned ?i l = assigned (?i\<lparr>segs := pre @ [sg]\<rparr>) l" by (simp add: assigned_def segs)
    moreover have "sub_bytes sg l = []" by (simp add: sub_bytes_def fresh)
    ultimately show ?thesis by (simp add: assigned_append_seg)
  qed
  have w: "work ?p l = work p l + mset (sub_bytes sg' l)" for l
  proof (cases "current_chunk ?i l")
    case None
    then show ?thesis by (simp add: work_def others_def cur asg)
  next
    case (Some c)
    then show ?thesis
      using subset_mset.add_diff_assoc2 [OF current_chunk_assigned [OF Some], of "mset (sub_bytes sg' l)"]
      by (simp add: work_def others_def cur asg)
  qed
  have "mset (sub_bytes sg' LTE) + mset (sub_bytes sg' WIFI) = mset (bytes_of (seg_chunks sg))"
    using parts [symmetric] by (cases k) simp_all
  then have "balanced ?p"
    using ok by (simp add: acct_with_def balanced_with_def balanced_def w ac_simps)
  moreover have "aimed J ?p l" for l using ok by (simp add: acct_with_def aimed_def cur)
  ultimately show ?thesis using snd by (simp add: acct_but_def)
qed

section \<open>\<open>gb_determine_next_subsegment\<close>\<close>

text \<open>The ratios that \<open>add_new_subsegment\<close> is given are not negative.\<close>

definition rates_ok :: "proc \<Rightarrow> bool" where
  "rates_ok p \<longleftrightarrow> (if fixed_subsegment_mode (conf p) \<noteq> 0
     then \<forall>k. 0 \<le> initial_chunk_rate (conf p) k
     else \<forall>k. 0 \<le> to_int (c_bytes_per_second (conn p k)))"

lemma keeps_rates: "keeps p q \<Longrightarrow> rates_ok q \<longleftrightarrow> rates_ok p"
  by (simp add: keeps_def rates_ok_def)

lemma determine_subsegment_add:
  assumes "gb_determine_next_subsegment p index mode = Inr p'" "rates_ok p"
  obtains k t a where "add_new_subsegment p k t a (fixed_subsegment_mode (conf p)) = Inr p'" "0 \<le> t" "0 \<le> a"
proof (cases "mode = DUAL_LINK_MODE")
  case True
  then show thesis
    using assms that by (auto simp: gb_determine_next_subsegment_def Let_def rates_ok_def
        elim!: bindR_InrE split: if_splits)
next
  case False
  then obtain k where "add_new_subsegment p k 1 0 (fixed_subsegment_mode (conf p)) = Inr p'"
    using assms by (auto simp: gb_determine_next_subsegment_def Let_def split: if_splits)
  then show thesis by (rule that) simp_all
qed

text \<open>Dividing the tail: the result differs from the state before only in the tail's subsegments.\<close>

lemma add_new_subsegment_divides:
  assumes r: "add_new_subsegment p k t a m = Inr p'" and ratios: "0 \<le> t" "0 \<le> a"
    and wf: "wf_segs (offset_info p)" and dual: "conn_ok p WIFI"
    and segs: "segs (offset_info p) = pre @ [sg]" and ok: "seg_ok sg" and fresh: "subseg sg = (\<lambda>_. None)"
    and virt: "\<And>v. \<not> recovery_segment sg \<Longrightarrow> get_virtual_seg_size p k (seg_size sg) = Inr v \<Longrightarrow> 0 \<le> v"
  obtains sg' fast where "p' = p\<lparr>offset_info := (offset_info p)\<lparr>segs := pre @ [sg']\<rparr>\<rparr>"
    "seg_id sg' = seg_id sg" "seg_chunks sg' = seg_chunks sg"
    "sub_bytes sg' fast @ sub_bytes sg' (other fast) = bytes_of (seg_chunks sg)" "\<forall>j. sub_ok sg' j"
proof -
  have l: "last (segs (offset_info p)) = sg" "segs (offset_info p) \<noteq> []" by (simp_all add: segs)
  obtain fast where f: "get_fast_conn_index p = Inr fast"
    using r by (cases "get_fast_conn_index p") (simp_all add: add_new_subsegment_def Let_def l)
  obtain n where n: "target_share p sg k t a m = Inr n"
    using r ok by (cases "target_share p sg k t a m") (simp_all add: add_new_subsegment_def Let_def l f seg_ok_def)
  have "0 \<le> seg_size sg" using seg_ok_size_pos [OF ok] by simp
  with n have "0 \<le> n \<and> n \<le> seg_size sg" using ratios by (rule target_share_bounds) (rule virt)
  then have b: "0 \<le> n" "n \<le> seg_size sg" by simp_all
  show thesis
  proof (rule add_new_subsegment_tail [OF wf segs ok fresh dual n b f])
    fix sg'
    assume x: "add_new_subsegment p k t a m = Inr (p\<lparr>offset_info := (offset_info p)\<lparr>segs := pre @ [sg']\<rparr>\<rparr>)"
      and y: "seg_id sg' = seg_id sg" "seg_chunks sg' = seg_chunks sg"
        "sub_bytes sg' fast @ sub_bytes sg' (other fast) = bytes_of (seg_chunks sg)" "\<forall>j. sub_ok sg' j"
    have "p' = p\<lparr>offset_info := (offset_info p)\<lparr>segs := pre @ [sg']\<rparr>\<rparr>" using r x by simp
    then show thesis using y by (rule that)
  qed
qed

lemma determine_subsegment_acct:
  assumes r: "gb_determine_next_subsegment p index mode = Inr p'" and rates: "rates_ok p"
    and ok: "acct_with (mset (bytes_of (seg_chunks sg))) J p"
    and segs: "segs (offset_info p) = pre @ [sg]" and sg: "seg_ok sg" "subseg sg = (\<lambda>_. None)"
      "sorted (map start_byte (seg_chunks sg))"
  shows "acct_but J p' \<and> keeps p p'"
proof -
  have s: "sound p" "\<And>k. aimed J p k" using ok by (simp_all add: acct_with_def)
  obtain k t a where a: "add_new_subsegment p k t a (fixed_subsegment_mode (conf p)) = Inr p'" "0 \<le> t" "0 \<le> a"
    using r rates by (rule determine_subsegment_add)
  have size: "0 \<le> seg_size sg" using seg_ok_size_pos [OF sg(1)] by simp
  have virt: "0 \<le> v" if "get_virtual_seg_size p k (seg_size sg) = Inr v" for v
  proof (rule get_virtual_seg_size_nonneg [OF s that size])
    show "0 \<le> seg_size t" if "segs (offset_info p) = [t]" for t using that segs size by simp
  qed
  have wf: "wf_segs (offset_info p)" "conn_ok p WIFI" using s(1) by (simp_all add: sound_def)
  show ?thesis
  proof (rule add_new_subsegment_divides [OF a wf segs sg(1,2)])
    show "0 \<le> v" if "get_virtual_seg_size p k (seg_size sg) = Inr v" for v using that by (rule virt)
  next
    fix sg' fast
    assume p': "p' = p\<lparr>offset_info := (offset_info p)\<lparr>segs := pre @ [sg']\<rparr>\<rparr>"
      and d: "seg_id sg' = seg_id sg" "seg_chunks sg' = seg_chunks sg"
        "sub_bytes sg' fast @ sub_bytes sg' (other fast) = bytes_of (seg_chunks sg)" "\<forall>j. sub_ok sg' j"
    have "\<forall>c \<in> set (seg_chunks sg). chunk_ok c" using sg(1) by (simp add: seg_ok_def)
    then show ?thesis using hand_out [OF ok segs sg(2) d _ sg(3)] unfolding p' by simp
  qed
qed

text \<open>Whatever the shares are, only the subsegments of one segment are set.\<close>

lemma add_new_subsegment_form:
  assumes "add_new_subsegment p k t a m = Inr p'"
  obtains q g where "p' = upd_off (upd_seg q (\<lambda>s. s\<lparr>subseg := g s\<rparr>)) p"
  using assms unfolding add_new_subsegment_def Let_def
  by (auto elim!: bindR_InrE split: if_splits)

lemma subsegment_form:
  assumes "gb_determine_next_subsegment p index mode = Inr p'"
  obtains q g where "p' = upd_off (upd_seg q (\<lambda>s. s\<lparr>subseg := g s\<rparr>)) p"
proof -
  obtain k t a m where "add_new_subsegment p k t a m = Inr p'"
    using assms unfolding gb_determine_next_subsegment_def Let_def
    by (auto elim!: bindR_InrE split: if_splits)
  then show thesis using add_new_subsegment_form that by blast
qed

lemma subsegment_keeps: "gb_determine_next_subsegment p index mode = Inr p' \<Longrightarrow> keeps p p'"
  by (erule subsegment_form) simp

text \<open>Where the connections stand, and what kind of segment the tail is.\<close>

definition places :: "proc \<Rightarrow> (link \<Rightarrow> int) \<times> (link \<Rightarrow> int)" where
  "places p = (\<lambda>k. currentbyte (conn p k), \<lambda>k. lastbyte (conn p k))"

definition recovery_tail :: "proc \<Rightarrow> bool" where
  "recovery_tail p \<longleftrightarrow> segs (offset_info p) \<noteq> [] \<and> recovery_segment (last (segs (offset_info p)))"

lemma layout_places: "layout q = layout p \<Longrightarrow> places q = places p"
  by (simp add: layout_def places_def)

lemma view_places: "view q = view p \<Longrightarrow> places q = places p"
  by (rule layout_places) (rule view_layout)

lemma view_segs: "view q = view p \<Longrightarrow> segs (offset_info q) = segs (offset_info p)"
  by (simp add: view_def layout_def)

lemma view_recovery_tail:
  assumes "view q = view p"
  shows "recovery_tail q \<longleftrightarrow> recovery_tail p"
  unfolding recovery_tail_def view_segs [OF assms] ..

lemma subsegment_places: "gb_determine_next_subsegment p index mode = Inr p' \<Longrightarrow> places p' = places p"
  by (erule subsegment_form) (simp add: places_def)

lemma subsegment_recovery_tail:
  assumes "gb_determine_next_subsegment p index mode = Inr p'"
  shows "recovery_tail p' \<longleftrightarrow> recovery_tail p"
proof -
  obtain q g where p': "p' = upd_off (upd_seg q (\<lambda>s. s\<lparr>subseg := g s\<rparr>)) p"
    using assms by (rule subsegment_form)
  show ?thesis
    by (cases "segs (offset_info p)" rule: rev_cases) (simp_all add: recovery_tail_def p')
qed

section \<open>\<open>setup_segment\<close>: the next piece of the file\<close>

text \<open>
  Appending a segment that nobody is assigned to yet: its chunks hold what was missing in the
  balance and the bytes that follow the last one handed out.
\<close>

lemma append_segment_acct:
  assumes ok: "acct_with B J p" and fresh: "subseg sg = (\<lambda>_. None)"
    and j: "segs j = segs (offset_info p) @ [sg]" "connection j = connection (offset_info p)"
      "init_seg_size j = init_seg_size (offset_info p)" "remaining_chunks j = []" "wf_segs j" "wf_conns j"
    and last: "last_seg_offset (offset_info p) \<le> last_seg_offset j" "last_seg_offset j < g_size p"
    and bytes: "mset (bytes_of (seg_chunks sg))
      = B + mset [last_seg_offset (offset_info p) + 1..last_seg_offset j]"
  shows "acct_with (mset (bytes_of (seg_chunks sg))) J (p\<lparr>offset_info := j\<rparr>)"
proof -
  let ?i = "offset_info p"
  have i: "wf_segs ?i" "wf_conns ?i" "subs_ok ?i" "0 \<le> last_seg_offset ?i"
    using ok by (simp_all add: acct_with_def sound_def)
  have "subs_ok j" using i(3) fresh by (auto simp: subs_ok_def j(1))
  then have snd: "sound (p\<lparr>offset_info := j\<rparr>)"
    using ok j last i(4) by (simp add: acct_with_def sound_def)
  have cur: "current_chunk j l = current_chunk ?i l" for l
  proof (cases "connection ?i l")
    case (Some q)
    obtain s b where s: "s \<in> set (segs ?i)" "seg_id s = q" "subseg s l = Some b"
      using i(2) [unfolded wf_conns_def, rule_format, OF Some] by auto
    obtain c cs where c: "ss_chunks b = c # cs" using i(3) s by (cases "ss_chunks b") (auto simp: subs_ok_def)
    have "current_chunk ?i l = Some c" using i(1) s c Some by (intro current_chunk_seg) auto
    moreover have "current_chunk j l = Some c"
      using j s c Some by (intro current_chunk_seg) auto
    ultimately show ?thesis by simp
  qed (simp add: current_chunk_def j(2))
  have "assigned j l = assigned ?i l" for l by (simp add: assigned_def j(1) fresh)
  then have w: "work (p\<lparr>offset_info := j\<rparr>) l = work p l" for l
    by (simp add: work_def others_def cur cong: option.case_cong)
  have "[0..last_seg_offset j] = [0..last_seg_offset ?i] @ [last_seg_offset ?i + 1..last_seg_offset j]"
    using last(1) i(4) by (intro upto_split) simp_all
  then have "mset_set {0..last_seg_offset j}
      = mset_set {0..last_seg_offset ?i} + mset [last_seg_offset ?i + 1..last_seg_offset j]"
    unfolding mset_upto [symmetric] by simp
  then have "balanced_with (mset (bytes_of (seg_chunks sg))) (p\<lparr>offset_info := j\<rparr>)"
    using ok by (simp add: acct_with_def balanced_with_def w bytes add.assoc [symmetric])
  moreover have "aimed J (p\<lparr>offset_info := j\<rparr>) l" for l using ok by (simp add: acct_with_def aimed_def cur)
  ultimately show ?thesis using snd by (simp add: acct_with_def)
qed

lemma with_segment_acct:
  assumes ok: "acct_but J p" and n: "0 < n" "last_seg_offset (offset_info p) + n < g_size p"
  shows "acct_with (mset (bytes_of (seg_chunks (fresh_segment (offset_info p) n)))) J
           (p\<lparr>offset_info := with_segment (offset_info p) n\<rparr>)"
proof -
  let ?i = "offset_info p"
  have i: "wf_segs ?i" "wf_conns ?i" using ok by (simp_all add: acct_but_def sound_def)
  note add = add_fresh_segment [OF i(1) n(1)]
  have "acct_with {#} J p" using ok by (simp add: acct_with_empty)
  then show ?thesis
    using add_new_segment_wf [OF i(1) add] add_new_segment_conns [OF i add] ok n
    by (intro append_segment_acct)
       (simp_all add: with_segment_def fresh_segment_def mk_chunk_bytes acct_but_def sound_def)
qed

definition steady :: "proc \<Rightarrow> proc \<Rightarrow> bool" where
  "steady p q \<longleftrightarrow> ready q = ready p \<and> conf q = conf p \<and> g_size q = g_size p
     \<and> outfile q = outfile p \<and> bytes_done q = bytes_done p
     \<and> supported (conn q LTE) = supported (conn p LTE)"

lemma steady_refl [simp]: "steady p p"
  by (simp add: steady_def)

lemma steady_trans [trans]: "steady p q \<Longrightarrow> steady q r \<Longrightarrow> steady p r"
  by (simp add: steady_def)

lemma keeps_steady: "keeps p q \<Longrightarrow> steady p q"
  by (simp add: keeps_def steady_def)

lemma layout_steady: "layout q = layout p \<Longrightarrow> steady p q"
  by (simp add: layout_def steady_def)

lemma view_steady: "view q = view p \<Longrightarrow> steady p q"
  by (rule layout_steady) (rule view_layout)

lemma view_acct_with: "view q = view p \<Longrightarrow> acct_with B J q \<longleftrightarrow> acct_with B J p"
  by (rule acct_with_layout) (rule view_layout)

lemma fresh_segment_ok: "0 < n \<Longrightarrow> seg_ok (fresh_segment i n)" "subseg (fresh_segment i n) = (\<lambda>_. None)"
  "sorted (map start_byte (seg_chunks (fresh_segment i n)))"
  by (simp_all add: seg_ok_def fresh_segment_def mk_chunk_def chunk_ok_def)

lemma setup_segment_acct:
  assumes ok: "acct_but J p" and r: "setup_segment E index p = Inr (b, p')" and rates: "rates_ok p'"
  shows "acct_but J p' \<and> steady p p' \<and> places p' = places p \<and> (b \<longrightarrow> \<not> recovery_tail p')"
proof -
  obtain p1 n p2 where g: "gb_update_goodput E p = Inr p1" and s: "gb_determine_next_segment_size p1 = Inr (n, p2)"
    and rest: "(if n = 0 then Inr (False, p2)
       else bindR (if minimum_energy_mode (conf p2) \<noteq> 0
                      \<and> completed_segment_count (offset_info p2) > 0 \<and> num_connections (conf p2) \<noteq> 1
                   then choose_link_mode E p2 index else Inr (DUAL_LINK_MODE, p2)) (\<lambda>(mode, p3).
            bindR (gb_determine_next_subsegment p3 index mode) (\<lambda>p4. Inr (True, p4)))) = Inr (b, p')"
    using r unfolding setup_segment_def by (auto elim!: bindR_InrE)
  have l1: "layout p1 = layout p" using g by (rule layout_gb_update_goodput)
  have ok1: "acct_but J p1" using ok acct_layout [OF l1] by simp
  note st1 = layout_steady [OF l1]
  have snd: "wf_segs (offset_info p1)" "remaining_chunks (offset_info p1) = []"
    "0 \<le> init_seg_size (offset_info p1)" "last_seg_offset (offset_info p1) < g_size p1"
    using ok1 by (simp_all add: acct_but_def sound_def)
  obtain f x q where q: "q = p1\<lparr>offset_info := (offset_info p1)\<lparr>conn_idle := f\<rparr>, inorder_offset := x\<rparr>"
    and p2: "p2 = (if n = 0 then q else q\<lparr>offset_info := with_segment (offset_info q) n\<rparr>)"
    and n: "0 \<le> n" "last_seg_offset (offset_info p1) + n < g_size p1"
    using next_segment_size_cases [OF snd s] by metis
  have vq: "view q = view p1" unfolding q by (simp add: view_def layout_def)
  have okq: "acct_but J q" using ok1 view_acct [OF vq] by simp
  have plq: "places q = places p" using layout_places [OF l1] view_places [OF vq] by simp
  show ?thesis
  proof (cases "n = 0")
    case True
    then have "p' = q" "\<not> b" using rest p2 by simp_all
    then show ?thesis using okq steady_trans [OF st1 view_steady [OF vq]] plq by simp
  next
    case False
    let ?sg = "fresh_segment (offset_info q) n"
    have p2': "p2 = q\<lparr>offset_info := with_segment (offset_info q) n\<rparr>" using p2 False by simp
    obtain mode p3 where m: "(if minimum_energy_mode (conf p2) \<noteq> 0
                      \<and> completed_segment_count (offset_info p2) > 0 \<and> num_connections (conf p2) \<noteq> 1
                   then choose_link_mode E p2 index else Inr (DUAL_LINK_MODE, p2)) = Inr (mode, p3)"
      and d: "gb_determine_next_subsegment p3 index mode = Inr p'"
      using rest False by (auto elim!: bindR_InrE)
    have v3: "view p3 = view p2" using m by (auto split: if_splits dest: view_choose_link_mode)
    have n': "0 < n" "last_seg_offset (offset_info q) + n < g_size q" using n False by (simp_all add: q)
    have a2: "acct_with (mset (bytes_of (seg_chunks ?sg))) J p2"
      unfolding p2' using okq n' by (rule with_segment_acct)
    have a3: "acct_with (mset (bytes_of (seg_chunks ?sg))) J p3" using a2 view_acct_with [OF v3] by simp
    have segs3: "segs (offset_info p3) = segs (offset_info q) @ [?sg]"
      using view_segs [OF v3] by (simp add: p2' with_segment_def)
    have "rates_ok p3" using keeps_rates [OF subsegment_keeps [OF d]] rates by simp
    with d have a4: "acct_but J p' \<and> keeps p3 p'"
      using a3 segs3 fresh_segment_ok(1) [OF n'(1)] fresh_segment_ok(2,3) by (rule determine_subsegment_acct)
    have "steady q p3" using view_steady [OF v3] by (simp add: p2' steady_def)
    moreover have "places p3 = places q" using view_places [OF v3] by (simp add: p2' places_def)
    moreover have "\<not> recovery_tail p3" using segs3 by (simp add: recovery_tail_def fresh_segment_def)
    ultimately show ?thesis
      using a4 steady_trans [OF st1 view_steady [OF vq]] keeps_steady steady_trans plq
        subsegment_places [OF d] subsegment_recovery_tail [OF d] by metis
  qed
qed

end
