(* ===== verification/Recovery_Laws.thy ===== *)
theory Recovery_Laws
  imports Handout
begin

text \<open>
  Recovery keeps the balance: what is taken from a connection is exactly what it had left to
  do, and the recovery segment holds exactly these bytes and the next piece of the file. Until
  the connection is pointed at its part of that segment, its pointer counts as NULL.
\<close>

section \<open>Taking a subsegment away\<close>

definition unhook :: "link \<Rightarrow> offset_info \<Rightarrow> offset_info" where
  "unhook k i = i\<lparr>connection := (connection i)(k := None)\<rparr>"

lemma unhook_simps [simp]:
  "segs (unhook k i) = segs i" "last_seg_offset (unhook k i) = last_seg_offset i"
  "init_seg_size (unhook k i) = init_seg_size i" "remaining_chunks (unhook k i) = remaining_chunks i"
  "wf_segs (unhook k i) = wf_segs i" "connection (unhook k i) k = None"
  "l \<noteq> k \<Longrightarrow> connection (unhook k i) l = connection i l"
  "unhook k (unhook k i) = unhook k i"
  by (simp_all add: unhook_def)

lemma unhook_upd_seg [simp]: "unhook k (upd_seg q f i) = upd_seg q f (unhook k i)"
  by (simp add: unhook_def upd_seg_def)

lemma unhook_delete_head [simp]:
  "unhook k (fst (delete_finished_head_segment i)) = fst (delete_finished_head_segment (unhook k i))"
  by (cases "segs i") (simp_all add: unhook_def delete_finished_head_segment_def)

lemma set_connection_unhook: "set_connection k None p = p\<lparr>offset_info := unhook k (offset_info p)\<rparr>"
  by (simp add: set_connection_def upd_off_def unhook_def)

lemma acct_with_work:
  assumes ok: "acct_with B J p"
    and "wf_segs i" "wf_conns i" "subs_ok i" "remaining_chunks i = []"
    "init_seg_size i = init_seg_size (offset_info p)" "last_seg_offset i = last_seg_offset (offset_info p)"
    and "\<And>l. aimed J (p\<lparr>offset_info := i\<rparr>) l"
    and w: "\<And>l. work p l = work (p\<lparr>offset_info := i\<rparr>) l + X l"
  shows "acct_with (B + (X LTE + X WIFI)) J (p\<lparr>offset_info := i\<rparr>)"
proof -
  have "work p LTE + work p WIFI
      = work (p\<lparr>offset_info := i\<rparr>) LTE + work (p\<lparr>offset_info := i\<rparr>) WIFI + (X LTE + X WIFI)"
    by (simp add: w ac_simps)
  then show ?thesis
    using assms by (simp add: acct_with_def sound_def balanced_with_def ac_simps)
qed

lemma acct_with_offset:
  assumes ok: "acct_with B J p"
    and i: "wf_segs i" "wf_conns i" "subs_ok i" "remaining_chunks i = []"
    "init_seg_size i = init_seg_size (offset_info p)" "last_seg_offset i = last_seg_offset (offset_info p)"
    and cur: "\<And>l. current_chunk i l = current_chunk (offset_info p) l"
    and asg: "\<And>l. mset (assigned (offset_info p) l) = mset (assigned i l) + X l"
  shows "acct_with (B + (X LTE + X WIFI)) J (p\<lparr>offset_info := i\<rparr>)"
proof (rule acct_with_work [OF ok i])
  show "aimed J (p\<lparr>offset_info := i\<rparr>) l" for l using ok cur by (simp add: acct_with_def aimed_def)
  show "work p l = work (p\<lparr>offset_info := i\<rparr>) l + X l" for l
  proof (cases "current_chunk i l")
    case None
    then show ?thesis using cur [of l] by (simp add: work_def others_def asg)
  next
    case (Some c)
    then show ?thesis
      using cur [of l, symmetric] subset_mset.add_diff_assoc2 [OF current_chunk_assigned [OF Some], of "X l"]
      by (simp add: work_def others_def asg)
  qed
qed

text \<open>Removing the subsegment of a connection that points nowhere.\<close>

definition drop_sub :: "int \<Rightarrow> link \<Rightarrow> offset_info \<Rightarrow> offset_info" where
  "drop_sub q k = upd_seg q (\<lambda>s. s\<lparr>subseg := (subseg s)(k := None)\<rparr>)"

lemma drop_sub_head: "subs_ok i \<Longrightarrow> drop_sub q k i = drop_head q k [] i"
  unfolding drop_sub_def drop_head_def
  by (rule arg_cong2 [where f = "upd_seg q"]) (auto simp: fun_eq_iff split: option.splits)

lemma drop_sub_acct:
  assumes ok: "acct_with B J p" and none: "connection (offset_info p) k = None"
    and s: "s \<in> set (segs (offset_info p))" "subseg s k = Some b"
  shows "acct_with (B + mset (bytes_of (ss_chunks b))) J (p\<lparr>offset_info := drop_sub (seg_id s) k (offset_info p)\<rparr>)"
proof -
  let ?i = "offset_info p" and ?j = "drop_sub (seg_id s) k (offset_info p)"
  let ?X = "\<lambda>l. if l = k then mset (bytes_of (ss_chunks b)) else {#}"
  have i: "wf_segs ?i" "wf_conns ?i" "subs_ok ?i" using ok by (simp_all add: acct_with_def sound_def)
  have j: "?j = drop_head (seg_id s) k [] ?i" using i(3) by (rule drop_sub_head)
  have wf: "wf_segs ?j" "subs_ok ?j" using i by (simp_all add: j drop_head_wf drop_head_subs_ok)
  have conns: "wf_conns ?j"
    unfolding wf_conns_def
  proof (intro allI impI)
    fix l q
    assume l: "connection ?j l = Some q"
    then have "l \<noteq> k" using none by (auto simp: j)
    then show "\<exists>t \<in> set (segs ?j). seg_id t = q \<and> subseg t l \<noteq> None"
      using l i(2) unfolding j by (intro drop_head_conns) simp_all
  qed
  have cur: "current_chunk ?j l = current_chunk ?i l" for l
    using none drop_head_other(2) [of l k] by (cases "l = k") (simp_all add: j current_chunk_def)
  obtain pre post where sp: "segs ?i = pre @ s # post"
    "\<forall>f. segs (upd_seg (seg_id s) f ?i) = pre @ f s # post"
    using upd_seg_split [OF i(1) s(1)] by blast
  have "mset (assigned ?i l) = mset (assigned ?j l) + ?X l" for l
  proof (cases "l = k")
    case True
    then show ?thesis unfolding assigned_def drop_sub_def sp(2) [rule_format] sp(1) using s(2) by auto
  next
    case False
    then show ?thesis using drop_head_other(1) [of l k] by (simp add: j)
  qed
  note asg = this
  have rest: "remaining_chunks ?j = []" "init_seg_size ?j = init_seg_size ?i"
    "last_seg_offset ?j = last_seg_offset ?i"
    using ok by (simp_all add: drop_sub_def acct_with_def sound_def)
  have "acct_with (B + (?X LTE + ?X WIFI)) J (p\<lparr>offset_info := ?j\<rparr>)"
    by (rule acct_with_offset [OF ok wf(1) conns wf(2) rest cur asg])
  moreover have "?X LTE + ?X WIFI = mset (bytes_of (ss_chunks b))" by (cases k) simp_all
  ultimately show ?thesis by simp
qed

lemma delete_head_acct:
  assumes ok: "acct_with B J p"
  shows "acct_with B J (p\<lparr>offset_info := fst (delete_finished_head_segment (offset_info p))\<rparr>)"
proof -
  let ?i = "offset_info p" and ?j = "fst (delete_finished_head_segment (offset_info p))"
  have i: "wf_segs ?i" "wf_conns ?i" "subs_ok ?i" "remaining_chunks ?i = []"
    using ok by (simp_all add: acct_with_def sound_def)
  have j: "wf_segs ?j" "wf_conns ?j"
    using delete_finished_head_segment_wf [OF i(1)] delete_finished_head_segment_conns [OF i(2)] by blast+
  have flds: "remaining_chunks ?j = []" "init_seg_size ?j = init_seg_size ?i"
    "last_seg_offset ?j = last_seg_offset ?i" "connection ?j = connection ?i"
    using i(4) by (simp_all add: delete_finished_head_segment_def split: list.splits)
  have sub: "set (segs ?j) \<subseteq> set (segs ?i)"
    by (cases "segs ?i") (auto simp: delete_finished_head_segment_def)
  have asg: "mset (assigned ?i l) = mset (assigned ?j l) + {#}" for l
    by (cases "segs ?i") (simp_all add: delete_finished_head_segment_def assigned_def finished_unassigned)
  have subs: "subs_ok ?j" using i(3) sub by (auto simp: subs_ok_def)
  have cur: "current_chunk ?j l = current_chunk ?i l" for l
  proof (cases "connection ?i l")
    case (Some q)
    then have q: "connection ?j l = Some q" using flds by simp
    obtain s b where s: "s \<in> set (segs ?j)" "seg_id s = q" "subseg s l = Some b"
      using j(2) q unfolding wf_conns_def by blast
    obtain c cs where c: "ss_chunks b = c # cs" using subs s unfolding subs_ok_def by (cases "ss_chunks b") auto
    have "s \<in> set (segs ?i)" using s(1) sub by blast
    then have "current_chunk ?i l = Some c" using current_chunk_seg [OF i(1), of s l b c cs] s c Some by simp
    moreover have "current_chunk ?j l = Some c"
      using current_chunk_seg [OF j(1), of s l b c cs] s c q by simp
    ultimately show ?thesis by simp
  qed (simp add: current_chunk_def flds)
  have "acct_with (B + ({#} + {#})) J (p\<lparr>offset_info := ?j\<rparr>)"
    by (rule acct_with_offset [OF ok j subs flds(1,2,3) cur asg])
  then show ?thesis by simp
qed

section \<open>Taking everything away\<close>

text \<open>
  The chunks \<open>cs\<close> have been taken from connection \<open>k\<close>, which leaves \<open>i\<close>: they hold exactly what
  is missing in the balance.
\<close>

definition taken :: "link \<Rightarrow> link set \<Rightarrow> proc \<Rightarrow> offset_info \<Rightarrow> chunk list \<Rightarrow> bool" where
  "taken k J p i cs \<longleftrightarrow> acct_with (mset (bytes_of cs)) J (p\<lparr>offset_info := unhook k i\<rparr>)
     \<and> (\<forall>c \<in> set cs. chunk_ok c) \<and> cs \<noteq> []
     \<and> last_seg_offset i = last_seg_offset (offset_info p)
     \<and> init_seg_size i = init_seg_size (offset_info p)"

lemma unassign_Inr:
  assumes "unassign i q k = Inr (i', next)"
  shows "i' = fst (delete_finished_head_segment (drop_sub q k i))"
  using assms delete_subsegment_Inr(1) unfolding unassign_def drop_sub_def
  by (auto elim!: bindR_InrE)

lemma drop_sub_simps [simp]:
  "last_seg_offset (drop_sub q k i) = last_seg_offset i" "init_seg_size (drop_sub q k i) = init_seg_size i"
  "unhook l (drop_sub q k i) = drop_sub q k (unhook l i)"
  by (simp_all add: drop_sub_def)

lemma unassign_taken:
  assumes t: "taken k J p i cs" and s: "s \<in> set (segs i)" "subseg s k = Some b"
    and u: "unassign i (seg_id s) k = Inr (i', next)"
  shows "taken k J p i' (cs @ ss_chunks b)"
proof -
  note i' = unassign_Inr [OF u]
  have a: "acct_with (mset (bytes_of cs)) J (p\<lparr>offset_info := unhook k i\<rparr>)" using t by (simp add: taken_def)
  then have ok: "subs_ok (unhook k i)" by (simp add: acct_with_def sound_def)
  have "acct_with (mset (bytes_of cs) + mset (bytes_of (ss_chunks b))) J
      (p\<lparr>offset_info := unhook k i\<rparr>\<lparr>offset_info := drop_sub (seg_id s) k (offset_info (p\<lparr>offset_info := unhook k i\<rparr>))\<rparr>)"
    using s by (intro drop_sub_acct [OF a]) simp_all
  then have "acct_with (mset (bytes_of (cs @ ss_chunks b))) J (p\<lparr>offset_info := drop_sub (seg_id s) k (unhook k i)\<rparr>)"
    by simp
  from delete_head_acct [OF this]
  have "acct_with (mset (bytes_of (cs @ ss_chunks b))) J (p\<lparr>offset_info := unhook k i'\<rparr>)"
    by (simp add: i')
  moreover have "\<forall>c \<in> set (ss_chunks b). chunk_ok c" using ok s by (simp add: subs_ok_def)
  ultimately show ?thesis using t by (auto simp: taken_def i')
qed

lemma gather_taken:
  assumes "taken k J p i cs" "gather k i q cs = Inr (i', cs')"
  shows "taken k J p i' cs'"
  using assms
proof (induction k i q cs rule: gather.induct)
  case (2 k i q cs)
  obtain s where s: "seg_at i q = Inr s"
    and r1: "(case subseg s k of None \<Rightarrow> Inl NullDeref
       | Some b \<Rightarrow> bindR (get_last_chunk cs) (\<lambda>_.
           bindR (unassign i q k) (\<lambda>r. gather k (fst r) (snd r) (cs @ ss_chunks b)))) = Inr (i', cs')"
    using "2.prems"(2) by (auto elim!: bindR_InrE)
  obtain b where b: "subseg s k = Some b" using r1 by (cases "subseg s k") simp_all
  then obtain x j nx where x: "get_last_chunk cs = Inr x" and u: "unassign i q k = Inr (j, nx)"
    and g: "gather k j nx (cs @ ss_chunks b) = Inr (i', cs')"
    using r1 by (auto elim!: bindR_InrE)
  have sq: "s \<in> set (segs i)" "seg_id s = q" using seg_at_Inr [OF s] by simp_all
  have "taken k J p j (cs @ ss_chunks b)"
    using "2.prems"(1) sq(1) b u unfolding sq(2) [symmetric] by (rule unassign_taken)
  then show ?case using "2.IH" [OF s b x u] g by simp
qed simp

text \<open>The current chunk counts from the byte that comes next.\<close>

lemma current_taken:
  assumes ok: "acct_but J p" and k: "k \<notin> J"
    and s: "connection (offset_info p) k = Some (seg_id s)" "s \<in> set (segs (offset_info p))"
      "subseg s k = Some b" "ss_chunks b = c # cs"
  defines "d \<equiv> c\<lparr>start_byte := currentbyte (conn p k), csize := last_byte c - currentbyte (conn p k) + 1\<rparr>"
  shows "taken k J p (drop_sub (seg_id s) k (offset_info p)) (d # cs)"
proof -
  let ?i = "offset_info p" and ?j = "drop_sub (seg_id s) k (unhook k (offset_info p))"
  have i: "wf_segs ?i" "wf_conns ?i" "subs_ok ?i" "remaining_chunks ?i = []"
    using ok by (simp_all add: acct_but_def sound_def)
  have cur: "current_chunk ?i k = Some c" using i(1) s by (intro current_chunk_seg)
  have c: "chunk_ok c" "\<forall>c \<in> set cs. chunk_ok c" using i(3) s by (auto simp: subs_ok_def)
  have at: "start_byte c \<le> currentbyte (conn p k)" "currentbyte (conn p k) \<le> last_byte c"
  proof -
    have "aimed J p k" using ok by (simp add: acct_but_def)
    then show "start_byte c \<le> currentbyte (conn p k)" "currentbyte (conn p k) \<le> last_byte c"
      using cur k unfolding aimed_def by fastforce+
  qed
  have d: "chunk_ok d" "chunk_bytes d = [currentbyte (conn p k)..last_byte c]"
    using at by (simp_all add: d_def chunk_ok_def chunk_bytes_def)
  have u: "wf_segs (unhook k ?i)" "wf_conns (unhook k ?i)" "subs_ok (unhook k ?i)"
    using i by (simp_all add: subs_ok_def) (simp add: wf_conns_def unhook_def)
  have j: "?j = drop_head (seg_id s) k [] (unhook k ?i)" using u(3) by (rule drop_sub_head)
  have wfj: "wf_segs ?j" "subs_ok ?j" using u by (simp_all add: j drop_head_wf drop_head_subs_ok)
  have conns: "wf_conns ?j"
    unfolding wf_conns_def
  proof (intro allI impI)
    fix l q
    assume l: "connection ?j l = Some q"
    then have "l \<noteq> k" by (auto simp: j)
    then show "\<exists>t \<in> set (segs ?j). seg_id t = q \<and> subseg t l \<noteq> None"
      using l u(2) unfolding j by (intro drop_head_conns) simp_all
  qed
  let ?X = "\<lambda>l. if l = k then mset (bytes_of (d # cs)) else {#}"
  have other: "current_chunk ?j l = current_chunk ?i l" "assigned ?j l = assigned ?i l" if "l \<noteq> k" for l
    unfolding j drop_head_other [OF that] using that by (simp_all add: unhook_def)
  have none: "current_chunk ?j k = None" by (simp add: j current_chunk_def)
  have ass: "mset (assigned ?i k) = mset (bytes_of (c # cs)) + mset (assigned ?j k)"
  proof -
    obtain pre post where sp: "segs ?i = pre @ s # post"
      "\<forall>f. segs (upd_seg (seg_id s) f (unhook k ?i)) = pre @ f s # post"
      using upd_seg_split [OF i(1) s(2)] upd_seg_split [OF u(1), of s] s(2)
      by (metis unhook_simps(1) unhook_upd_seg)
    show ?thesis unfolding assigned_def drop_sub_def sp(2) [rule_format] sp(1) using s(3,4) by auto
  qed
  have w: "work p l = work (p\<lparr>offset_info := ?j\<rparr>) l + ?X l" for l
  proof (cases "l = k")
    case True
    have "others ?i k = mset (bytes_of cs) + mset (assigned ?j k)"
      using ass by (simp add: others_def cur)
    then show ?thesis using True cur none d(2) by (simp add: work_def others_def)
  next
    case False
    then show ?thesis using other [OF False] by (simp add: work_def others_def cong: option.case_cong)
  qed
  have aim: "aimed J (p\<lparr>offset_info := ?j\<rparr>) l" for l
    using ok none other(1) [of l] by (cases "l = k") (simp_all add: acct_but_def aimed_def)
  have rest: "remaining_chunks ?j = []" "init_seg_size ?j = init_seg_size ?i"
    "last_seg_offset ?j = last_seg_offset ?i" using i(4) by (simp_all add: drop_sub_def)
  have "acct_with {#} J p" using ok by (simp add: acct_with_empty)
  then have "acct_with ({#} + (?X LTE + ?X WIFI)) J (p\<lparr>offset_info := ?j\<rparr>)"
    by (rule acct_with_work [OF _ wfj(1) conns wfj(2) rest aim w])
  moreover have "?X LTE + ?X WIFI = mset (bytes_of (d # cs))" by (cases k) simp_all
  ultimately show ?thesis using d(1) c(2) by (simp add: taken_def)
qed

text \<open>
  What a connection has still to do, in the order of its requests: the rest of its current chunk,
  the other chunks of that subsegment, and its subsegments of later segments.
\<close>

definition still_to_do :: "proc \<Rightarrow> link \<Rightarrow> int list" where
  "still_to_do p k = (case connection (offset_info p) k of
       None \<Rightarrow> []
     | Some q \<Rightarrow> (case find (\<lambda>s. seg_id s = q) (segs (offset_info p)) of
           None \<Rightarrow> []
         | Some s \<Rightarrow> (case subseg s k of
               None \<Rightarrow> []
             | Some b \<Rightarrow> (case ss_chunks b of
                   [] \<Rightarrow> []
                 | c # cs \<Rightarrow> [currentbyte (conn p k)..last_byte c] @ bytes_of cs
                     @ bytes_of (assigned_chunks k (after_seg (segs (offset_info p)) q))))))"

text \<open>Unassigning a segment leaves the later ones alone and answers with the first of them that is assigned.\<close>

definition first_assigned :: "link \<Rightarrow> segment list \<Rightarrow> int option" where
  "first_assigned k ss = map_option seg_id (find (\<lambda>t. subseg t k \<noteq> None) ss)"

lemma after_seg_middle:
  "seg_id s \<notin> seg_id ` set pre \<Longrightarrow> after_seg (pre @ s # post) (seg_id s) = post"
  by (induction pre) auto

lemma wf_segs_middle:
  assumes "wf_segs i" "segs i = pre @ s # post"
  shows "seg_id s \<notin> seg_id ` set pre" "seg_id s \<notin> seg_id ` set post"
  using assms by (auto simp: wf_segs_def sorted_wrt_append)

lemma unassign_next:
  assumes wf: "wf_segs i" and sp: "segs i = pre @ s # post" and u: "unassign i (seg_id s) k = Inr (i', next)"
  obtains pre' where "segs i' = pre' @ post" "next = first_assigned k post" "wf_segs i'"
proof -
  obtain i1 where d: "delete_subsegment i (seg_id s) k = Inr i1"
    and n: "get_first_next_segment_assigned_to_conn i1 (Some (seg_id s)) k = Inr next"
    and i': "i' = fst (delete_finished_head_segment i1)"
    using u by (auto simp: unassign_def elim!: bindR_InrE)
  let ?s = "s\<lparr>subseg := (subseg s)(k := None)\<rparr>"
  note ids = wf_segs_middle [OF wf sp]
  have i1: "i1 = drop_sub (seg_id s) k i" using delete_subsegment_Inr(1) [OF d] by (simp add: drop_sub_def)
  have wf1: "wf_segs i1" using wf unfolding i1 drop_sub_def by (rule upd_seg_wf) simp_all
  have segs1: "segs i1 = pre @ ?s # post"
    using ids unfolding i1 drop_sub_def by (auto simp: sp image_iff intro!: map_idI)
  have "seg_at i1 (seg_id s) = Inr ?s" using seg_at_ok [OF wf1, of ?s] segs1 by simp
  then have "next = first_assigned k post"
    using n after_seg_middle [of ?s pre post] ids(1)
    by (auto simp: get_first_next_segment_assigned_to_conn_def first_assigned_def segs1)
  moreover have "\<exists>pre'. segs i' = pre' @ post"
    by (cases pre) (auto simp: i' delete_finished_head_segment_def segs1)
  moreover have "wf_segs i'" unfolding i' using wf1 by (rule delete_finished_head_segment_wf)
  ultimately show thesis using that by blast
qed

lemma find_Some_split:
  "find P xs = Some t \<Longrightarrow> \<exists>ys zs. xs = ys @ t # zs \<and> (\<forall>y \<in> set ys. \<not> P y)"
proof (induction xs)
  case (Cons x xs)
  show ?case
  proof (cases "P x")
    case True
    then have "x # xs = [] @ t # xs" using Cons.prems by simp
    then show ?thesis by (metis empty_iff empty_set)
  next
    case False
    then obtain ys zs where "xs = ys @ t # zs" "\<forall>y \<in> set ys. \<not> P y" using Cons by auto
    then show ?thesis using False by (intro exI [of _ "x # ys"] exI [of _ zs]) simp
  qed
qed simp

lemma gather_chunks:
  assumes "wf_segs i" "segs i = pre @ post" "q = first_assigned k post" "gather k i q cs = Inr (i', cs')"
  shows "cs' = cs @ assigned_chunks k post"
  using assms
proof (induction k i q cs arbitrary: pre post rule: gather.induct)
  case (1 k i cs)
  have "subseg s k = None" if "s \<in> set post" for s
    using 1 that by (auto simp: first_assigned_def find_None_iff)
  then have "assigned_chunks k post = []" by (induction post) auto
  then show ?case using 1 by simp
next
  case (2 k i q cs)
  obtain t where "find (\<lambda>t. subseg t k \<noteq> None) post = Some t" "seg_id t = q"
    using sym [OF "2.prems"(3)] unfolding first_assigned_def by blast
  then obtain p1 p2 where t: "post = p1 @ t # p2" "\<forall>s \<in> set p1. subseg s k = None" "seg_id t = q"
    using find_Some_split by fastforce
  have at: "seg_at i q = Inr t" using seg_at_ok [OF "2.prems"(1), of t] t "2.prems"(2) by simp
  obtain b x j nx where b: "subseg t k = Some b" "get_last_chunk cs = Inr x" "unassign i q k = Inr (j, nx)"
    and g: "gather k j nx (cs @ ss_chunks b) = Inr (i', cs')"
    using "2.prems"(4) at by (auto elim!: bindR_InrE split: option.splits)
  have "segs i = (pre @ p1) @ t # p2" using "2.prems"(2) t(1) by simp
  with "2.prems"(1) obtain pre' where j: "segs j = pre' @ p2" "nx = first_assigned k p2" "wf_segs j"
    using b(3) unfolding t(3) [symmetric] by (rule unassign_next)
  have "cs' = (cs @ ss_chunks b) @ assigned_chunks k p2"
    using "2.IH" [OF at b] j g by simp
  moreover have "assigned_chunks k p1 = []" using t(2) by (induction p1) auto
  ultimately show ?case using b(1) by (simp add: t(1))
qed

lemma take_over_bytes:
  assumes wf: "wf_segs (offset_info p)" and r: "take_over p k = Inr (i, cs)"
  shows "bytes_of cs = still_to_do p k"
proof -
  let ?i = "offset_info p"
  obtain s cs0 i1 nx where s: "seg_deref ?i (connection ?i k) = Inr s"
    and c: "current_rest p k s = Inr cs0"
    and u: "unassign ?i (seg_id s) k = Inr (i1, nx)" and g: "gather k i1 nx cs0 = Inr (i, cs)"
    using r unfolding take_over_def Let_def by (auto elim!: bindR_InrE)
  obtain q where q: "connection ?i k = Some q" using s by (cases "connection ?i k") simp_all
  have sq: "s \<in> set (segs ?i)" "seg_id s = q" using s q seg_at_Inr by auto
  obtain b d ds where b: "subseg s k = Some b" "ss_chunks b = d # ds"
    and cs0: "cs0 = d\<lparr>start_byte := currentbyte (conn p k), csize := last_byte d - currentbyte (conn p k) + 1\<rparr> # ds"
    using c by (auto simp: current_rest_def elim!: bindR_InrE split: option.splits list.splits)
  obtain pre post where sp: "segs ?i = pre @ s # post" using sq(1) by (meson split_list)
  from wf sp u obtain pre' where "segs i1 = pre' @ post" "nx = first_assigned k post" "wf_segs i1"
    by (rule unassign_next)
  then have "cs = cs0 @ assigned_chunks k post" using g gather_chunks by blast
  moreover have "after_seg (segs ?i) q = post"
    using after_seg_middle wf_segs_middle(1) [OF wf sp] sq(2) unfolding sp by blast
  moreover have "find (\<lambda>s. seg_id s = q) (segs ?i) = Some s"
    using seg_at_ok [OF wf sq(1)] sq(2) by (simp add: seg_at_def split: option.splits)
  ultimately show ?thesis using q b by (simp add: still_to_do_def cs0 chunk_bytes_def)
qed

lemma take_over_taken:
  assumes ok: "acct_but J p" and k: "k \<notin> J" and r: "take_over p k = Inr (i, cs)"
  shows "taken k J p i cs"
proof -
  let ?i = "offset_info p"
  obtain s cs0 i1 nx where s: "seg_deref ?i (connection ?i k) = Inr s"
    and c: "current_rest p k s = Inr cs0"
    and u: "unassign ?i (seg_id s) k = Inr (i1, nx)" and g: "gather k i1 nx cs0 = Inr (i, cs)"
    using r unfolding take_over_def Let_def by (auto elim!: bindR_InrE)
  obtain q where q: "connection ?i k = Some q" using s by (cases "connection ?i k") simp_all
  have sq: "s \<in> set (segs ?i)" "seg_id s = q" using s q seg_at_Inr by auto
  obtain b where b: "subseg s k = Some b" using c by (cases "subseg s k") (simp_all add: current_rest_def)
  obtain d ds where d: "ss_chunks b = d # ds" using c b by (cases "ss_chunks b") (simp_all add: current_rest_def)
  let ?d = "d\<lparr>start_byte := currentbyte (conn p k), csize := last_byte d - currentbyte (conn p k) + 1\<rparr>"
  have cs0: "cs0 = ?d # ds" using c b d by (auto simp: current_rest_def elim!: bindR_InrE)
  have t: "taken k J p (drop_sub (seg_id s) k ?i) cs0"
    unfolding cs0 using q sq b d by (intro current_taken [OF ok k]) simp_all
  have "taken k J p i1 cs0"
    using t delete_head_acct [of "mset (bytes_of cs0)" J "p\<lparr>offset_info := unhook k (drop_sub (seg_id s) k ?i)\<rparr>"]
    by (simp add: taken_def unassign_Inr [OF u])
  then show ?thesis using g by (rule gather_taken)
qed

section \<open>The recovery segment\<close>

lemma insort_key_snoc: "f a \<le> f x \<Longrightarrow> insort_key f a (ys @ [x]) = insort_key f a ys @ [x]"
  by (induction ys) auto

lemma sort_key_snoc: "\<forall>y \<in> set xs. f y \<le> f x \<Longrightarrow> sort_key f (xs @ [x]) = sort_key f xs @ [x]"
  by (induction xs) (simp_all add: insort_key_snoc)

text \<open>The bytes of the chunks taken lie below \<open>last_seg_offset\<close>.\<close>

lemma taken_bytes:
  assumes "taken k J p i cs" "c \<in> set cs"
  shows "0 \<le> start_byte c" "start_byte c \<le> last_byte c" "last_byte c \<le> last_seg_offset i"
proof -
  have c: "chunk_ok c" using assms by (simp add: taken_def)
  then show le: "start_byte c \<le> last_byte c" by (simp add: chunk_ok_def)
  have "mset (bytes_of cs) \<subseteq># mset_set {0..last_seg_offset i}"
    using assms(1) by (auto simp: taken_def acct_with_def balanced_with_def dest!: sym [of _ "mset_set _"])
  then have sub: "set (bytes_of cs) \<subseteq> {0..last_seg_offset i}"
    by (metis finite_atLeastAtMost_int finite_set_mset_mset_set mset_subset_eqD set_mset_mset subsetI)
  have "start_byte c \<in> set (bytes_of cs)" "last_byte c \<in> set (bytes_of cs)"
    using assms(2) le by (auto simp: set_bytes_of)
  then show "0 \<le> start_byte c" "last_byte c \<le> last_seg_offset i" using sub by auto
qed

lemma recovery_segment_acct:
  assumes t: "taken k J p i cs" and n: "0 \<le> n" "last_seg_offset i + n < g_size p"
    and cs': "cs' = (if n = 0 then cs else add_new_chunk cs (last_seg_offset i + 1) n)"
    and r: "add_recovery_segment k cs' (total_size cs') i = Inr j"
  obtains sg pre where "segs j = pre @ [sg]" "seg_ok sg" "subseg sg = (\<lambda>_. None)" "recovery_segment sg"
    "connection j k = Some (seg_id sg)" "sorted (map start_byte (seg_chunks sg))"
    "mset (bytes_of (seg_chunks sg)) = mset (bytes_of cs) + mset [last_seg_offset i + 1..last_seg_offset i + n]"
    "last_seg_offset j = last_seg_offset i + n"
    "acct_with (mset (bytes_of (seg_chunks sg))) J (p\<lparr>offset_info := unhook k j\<rparr>)"
proof -
  let ?i = "unhook k i"
  have a: "acct_with (mset (bytes_of cs)) J (p\<lparr>offset_info := ?i\<rparr>)"
    and cs: "\<forall>c \<in> set cs. chunk_ok c" "cs \<noteq> []" using t by (simp_all add: taken_def)
  have wf: "wf_segs i" "wf_segs ?i" "wf_conns ?i" using a by (simp_all add: acct_with_def sound_def)
  have ne: "cs' \<noteq> []" and ok: "\<forall>c \<in> set cs'. chunk_ok c" using cs n(1) by (auto simp: cs')
  obtain i1 q where add: "add_new_segment i True cs' (total_size cs') = Inr (i1, q)"
    and j: "j = i1\<lparr>connection := (connection i1)(k := Some q)\<rparr>"
    using r by (auto simp: add_recovery_segment_def elim!: bindR_InrE)
  define sg where "sg = \<lparr>seg_id = segment_count i + 1, recovery_segment = True,
    seg_chunks = sorting_chunks cs', seg_size = total_size cs', subseg = (\<lambda>_. None)\<rparr>"
  have i1: "i1 = i\<lparr>segs := segs i @ [sg], num_segments := num_segments i + 1,
      segment_count := segment_count i + 1,
      last_seg_offset := max (last_seg_offset i) (last_byte (last (sorting_chunks cs')))\<rparr>" "q = seg_id sg"
    using add [unfolded add_new_segment_Inr [OF wf(1) ne]] unfolding sg_def by auto
  have max: "max (last_seg_offset i) (last_byte (last (sorting_chunks cs'))) = last_seg_offset i + n"
  proof (cases "n = 0")
    case True
    have "last (sorting_chunks cs') \<in> set cs" using True cs(2)
      by (metis cs' last_in_set set_sorting_chunks sorting_chunks_eq_Nil)
    then show ?thesis using taken_bytes(3) [OF t] True by (simp add: max_absorb1)
  next
    case False
    have "start_byte c \<le> start_byte (mk_chunk (last_seg_offset i + 1) n)" if "c \<in> set cs" for c
      using taken_bytes(2,3) [OF t that] by simp
    then have "sorting_chunks cs' = sort_key start_byte cs @ [mk_chunk (last_seg_offset i + 1) n]"
      using False sort_key_snoc [of cs start_byte "mk_chunk (last_seg_offset i + 1) n"]
      by (simp add: sorting_chunks_eq_sort_key cs' add_new_chunk_def)
    then show ?thesis using n(1) by simp
  qed
  have unj: "segs (unhook k j) = segs ?i @ [sg]" "connection (unhook k j) = connection ?i"
    "init_seg_size (unhook k j) = init_seg_size ?i" "remaining_chunks (unhook k j) = remaining_chunks i"
    "last_seg_offset (unhook k j) = last_seg_offset i + n"
    using max by (simp_all add: j i1 unhook_def)
  have bytes: "mset (bytes_of (seg_chunks sg))
      = mset (bytes_of cs) + mset [last_seg_offset i + 1..last_seg_offset i + n]"
    by (simp add: sg_def mset_bytes_sorting_chunks cs' bytes_add_new_chunk)
  have "wf_segs i1" using add_new_segment_wf [OF wf(1) add] .
  then have wfj: "wf_segs (unhook k j)" by (simp add: j unhook_def)
  have wfc: "wf_conns (unhook k j)" using wf(3) unfolding wf_conns_def unj by fastforce
  have acct: "acct_with (mset (bytes_of (seg_chunks sg))) J (p\<lparr>offset_info := ?i\<rparr>\<lparr>offset_info := unhook k j\<rparr>)"
    using a n bytes unj wfj wfc
    by (intro append_segment_acct [OF a]) (simp_all add: sg_def acct_with_def sound_def)
  show thesis
  proof (rule that [of "segs i" sg])
    show "segs j = segs i @ [sg]" "connection j k = Some (seg_id sg)" by (simp_all add: j i1)
    show "seg_ok sg" using ok ne by (simp add: sg_def seg_ok_def)
    show "sorted (map start_byte (seg_chunks sg))" by (simp add: sg_def sorting_chunks_eq_sort_key)
    show "mset (bytes_of (seg_chunks sg)) = mset (bytes_of cs) + mset [last_seg_offset i + 1..last_seg_offset i + n]"
      by (rule bytes)
    show "last_seg_offset j = last_seg_offset i + n" using unj(5) by simp
    show "subseg sg = (\<lambda>_. None)" "recovery_segment sg" by (simp_all add: sg_def)
    show "acct_with (mset (bytes_of (seg_chunks sg))) J (p\<lparr>offset_info := unhook k j\<rparr>)" using acct by simp
  qed
qed

section \<open>Recovering\<close>

lemma taken_view:
  assumes "taken k J p i cs" "view q = view (p\<lparr>offset_info := i\<rparr>)"
  shows "taken k J q (offset_info q) cs"
proof -
  have v: "view (set_connection k None q) = view (set_connection k None (p\<lparr>offset_info := i\<rparr>))"
    using assms(2) by (rule view_set_connection)
  have "acct_with (mset (bytes_of cs)) J (set_connection k None (p\<lparr>offset_info := i\<rparr>))"
    using assms(1) by (simp add: taken_def set_connection_unhook)
  then have "acct_with (mset (bytes_of cs)) J (set_connection k None q)"
    by (simp only: view_acct_with [OF v])
  then show ?thesis using assms(1) by (simp add: taken_def set_connection_unhook)
qed

text \<open>
  The recovery segment \<open>sg\<close> of the step from \<open>p\<close> to \<open>q\<close>: the bytes that connection \<open>k\<close> had still to
  do and the next piece of the file, which has at least \<open>init_seg_size\<close> bytes unless the file ends.
\<close>

definition recovers :: "link \<Rightarrow> proc \<Rightarrow> segment \<Rightarrow> proc \<Rightarrow> bool" where
  "recovers k p sg q \<longleftrightarrow> mset (bytes_of (seg_chunks sg)) = mset (still_to_do p k)
       + mset [last_seg_offset (offset_info p) + 1..last_seg_offset (offset_info q)]
     \<and> min (last_seg_offset (offset_info p) + init_seg_size (offset_info p)) (g_size p - 1)
       \<le> last_seg_offset (offset_info q)
     \<and> last_seg_offset (offset_info q) < g_size p"

lemma view_still_to_do: "view q = view p \<Longrightarrow> still_to_do q k = still_to_do p k"
proof -
  assume v: "view q = view p"
  have "connection (offset_info q) = connection (offset_info p)" "currentbyte (conn q k) = currentbyte (conn p k)"
    using v by (simp_all add: view_def layout_def fun_eq_iff)
  then show ?thesis by (simp only: still_to_do_def view_segs [OF v])
qed

lemma view_last: "view q = view p \<Longrightarrow> last_seg_offset (offset_info q) = last_seg_offset (offset_info p)
    \<and> init_seg_size (offset_info q) = init_seg_size (offset_info p) \<and> g_size q = g_size p"
  by (simp add: view_def layout_def)

lemma recovers_cong:
  assumes "view p' = view p" "seg_chunks sg' = seg_chunks sg"
    "last_seg_offset (offset_info q') = last_seg_offset (offset_info q)"
  shows "recovers k p' sg' q' \<longleftrightarrow> recovers k p sg q"
  using view_still_to_do [OF assms(1)] view_last [OF assms(1)] assms(2,3) by (simp add: recovers_def)

lemma recover_next_acct:
  assumes ok: "acct_but J p" and k: "other index \<notin> J"
    and r: "recover_outorder_portion_and_next_segment p index = Inr p'"
  obtains sg pre where "segs (offset_info p') = pre @ [sg]" "seg_ok sg" "subseg sg = (\<lambda>_. None)"
    "recovery_segment sg"
    "acct_with (mset (bytes_of (seg_chunks sg))) J (set_connection (other index) None p')"
    "keeps p p'" "places p' = places p" "sorted (map start_byte (seg_chunks sg))" "recovers (other index) p sg p'"
proof -
  let ?k = "other index"
  obtain i cs n0 p2 where t: "take_over p ?k = Inr (i, cs)"
    and s: "(let p1 = p\<lparr>offset_info := i\<rparr> in
             if fixed_segment_mode (conf p1) \<noteq> 0 then Inr (init_seg_size i, p1)
             else gb_determine_next_segment_policy p1 0) = Inr (n0, p2)"
    and rest: "(let n = absorb_rest p2 n0; i2 = offset_info p2 in
        bindR (if n \<noteq> 0
               then bindR (get_start_byte_next_segment i2) (\<lambda>start. Inr (add_new_chunk cs start n))
               else Inr cs) (\<lambda>cs2.
        bindR (add_recovery_segment ?k cs2 (total_size cs2) i2) (\<lambda>i3.
          Inr (p2\<lparr>offset_info := i3\<rparr>)))) = Inr p'"
    using r unfolding recover_outorder_portion_and_next_segment_def Let_def [of "other index"]
    by (auto elim!: bindR_InrE)
  have tk: "taken ?k J p i cs" using ok k t by (rule take_over_taken)
  have snd: "0 \<le> init_seg_size i" "last_seg_offset i < g_size p"
    using tk by (simp_all add: taken_def acct_with_def sound_def)
  have "view p2 = view (p\<lparr>offset_info := i\<rparr>) \<and> init_seg_size (offset_info p2) = init_seg_size i \<and> init_seg_size i \<le> n0
    \<and> g_size p2 = g_size p \<and> last_seg_offset (offset_info p2) = last_seg_offset i"
  proof (cases "fixed_segment_mode (conf p) \<noteq> 0")
    case True
    then show ?thesis using s snd by auto
  next
    case False
    then have pol: "gb_determine_next_segment_policy (p\<lparr>offset_info := i\<rparr>) 0 = Inr (n0, p2)" using s by simp
    obtain f x where
      "p2 = p\<lparr>offset_info := i\<rparr>\<lparr>offset_info := (offset_info (p\<lparr>offset_info := i\<rparr>))\<lparr>conn_idle := f\<rparr>, inorder_offset := x\<rparr>"
      "init_seg_size (offset_info (p\<lparr>offset_info := i\<rparr>)) \<le> n0"
      using pol by (rule policy_keeps)
    then show ?thesis using view_policy [OF pol] snd by simp
  qed
  then have v2: "view p2 = view (p\<lparr>offset_info := i\<rparr>)" and f2: "init_seg_size (offset_info p2) = init_seg_size i"
    "init_seg_size i \<le> n0" "g_size p2 = g_size p" "last_seg_offset (offset_info p2) = last_seg_offset i" by simp_all
  have t2: "taken ?k J p2 (offset_info p2) cs" using tk v2 by (rule taken_view)
  let ?n = "absorb_rest p2 n0"
  have n: "0 \<le> ?n" "last_seg_offset (offset_info p2) + ?n < g_size p2"
    using absorb_rest_bounds [of n0 p2] snd f2 by simp_all
  obtain cs2 j where c2: "(if ?n \<noteq> 0
               then bindR (get_start_byte_next_segment (offset_info p2)) (\<lambda>start. Inr (add_new_chunk cs start ?n))
               else Inr cs) = Inr cs2"
    and add: "add_recovery_segment ?k cs2 (total_size cs2) (offset_info p2) = Inr j"
    and p': "p' = p2\<lparr>offset_info := j\<rparr>"
    using rest unfolding Let_def by (auto elim!: bindR_InrE)
  have cs2: "cs2 = (if ?n = 0 then cs else add_new_chunk cs (last_seg_offset (offset_info p2) + 1) ?n)"
    using c2 by (auto simp: get_start_byte_next_segment_def split: if_splits)
  have kp: "keeps p p'" using view_keeps [OF v2] unfolding p' by (auto simp: keeps_def)
  have pl: "places p' = places p" using view_places [OF v2] unfolding p' by (simp add: places_def)
  have last: "last_seg_offset i = last_seg_offset (offset_info p)" "init_seg_size i = init_seg_size (offset_info p)"
    using tk by (simp_all add: taken_def)
  have "wf_segs (offset_info p)" using ok by (simp add: acct_but_def sound_def)
  then have bytes: "bytes_of cs = still_to_do p ?k" using t by (rule take_over_bytes)
  from recovery_segment_acct [OF t2 n cs2 add]
  obtain sg pre where sg: "segs j = pre @ [sg]" "seg_ok sg" "subseg sg = (\<lambda>_. None)" "recovery_segment sg"
    "acct_with (mset (bytes_of (seg_chunks sg))) J (p2\<lparr>offset_info := unhook ?k j\<rparr>)"
    "sorted (map start_byte (seg_chunks sg))"
    and parts: "mset (bytes_of (seg_chunks sg)) = mset (bytes_of cs)
        + mset [last_seg_offset (offset_info p2) + 1..last_seg_offset (offset_info p2) + ?n]"
      "last_seg_offset j = last_seg_offset (offset_info p2) + ?n" by metis
  have "recovers ?k p sg p'"
    using parts n f2 snd unfolding recovers_def absorb_rest_def by (simp add: p' bytes last split: if_splits)
  with sg show thesis using kp pl
    by (intro that [of pre sg]) (simp_all add: p' set_connection_unhook)
qed

text \<open>Dividing a recovery segment does not look at the connection pointers.\<close>

lemma upd_off_set_connection:
  assumes "\<And>i c. f (i\<lparr>connection := c\<rparr>) = (f i)\<lparr>connection := c\<rparr>" "\<And>i. connection (f i) = connection i"
  shows "upd_off f (set_connection k q p) = set_connection k q (upd_off f p)"
  by (simp add: set_connection_def upd_off_def assms)

lemma set_connection_reads [simp]:
  "conn_at (set_connection k q p) l = conn_at p l" "conn_ok (set_connection k q p) = conn_ok p"
  by (simp_all add: conn_at_def conn_ok_def fun_eq_iff)

lemma add_new_subsegment_unhook:
  assumes r: "add_new_subsegment p l t a m = Inr p'" and rec: "recovery_tail p"
  shows "add_new_subsegment (set_connection k q p) l t a m = Inr (set_connection k q p')"
proof -
  let ?sg = "last (segs (offset_info p))" and ?q = "set_connection k q p"
  have ne: "segs (offset_info p) \<noteq> []" and rs: "recovery_segment ?sg" using rec by (simp_all add: recovery_tail_def)
  have fast: "get_fast_conn_index ?q = get_fast_conn_index p" by (simp add: get_fast_conn_index_def)
  have share: "target_share ?q ?sg l t a m = target_share p ?sg l t a m" using rs by (simp add: target_share_def)
  have upd: "upd_off (upd_seg x (\<lambda>s. s\<lparr>subseg := g s\<rparr>)) ?q = set_connection k q (upd_off (upd_seg x (\<lambda>s. s\<lparr>subseg := g s\<rparr>)) p)"
    for x g by (rule upd_off_set_connection) (simp_all add: upd_seg_def)
  have segs: "segs (offset_info ?q) = segs (offset_info p)" by simp
  show ?thesis
    using r ne unfolding add_new_subsegment_def Let_def segs fast share upd
    by (auto elim!: bindR_InrE split: if_splits)
qed

lemma subsegment_unhook:
  assumes r: "gb_determine_next_subsegment p l mode = Inr p'" and rec: "recovery_tail p"
  shows "gb_determine_next_subsegment (set_connection k q p) l mode = Inr (set_connection k q p')"
  using r unfolding gb_determine_next_subsegment_def Let_def set_connection_simps set_connection_reads
  by (auto simp: add_new_subsegment_unhook [OF _ rec] conn_at_def elim!: bindR_InrE split: if_splits)

lemma decide_recovery_mode_range:
  assumes "decide_recovery_mode E p k = Inr (m, q)"
  shows "m = NO_RECOVERY_MODE \<or> m = RECOVERY_FOR_INSUFFICIENT_PLAYABLE_TIME"
  using assms unfolding decide_recovery_mode_def Let_def
  by (auto elim!: bindR_InrE split: prod.splits if_splits)

lemma perform_recovery_acct:
  assumes ok: "acct_but J p" and k: "other index \<notin> J"
    and r: "perform_recovery E p index = Inr (b, p')" and rates: "rates_ok p'"
  shows "if b then acct_but J (set_connection (other index) None p') \<and> recovery_tail p' \<and> keeps p p'
      \<and> places p' = places p \<and> recovers (other index) p (last (segs (offset_info p'))) p' else view p' = view p"
proof (cases "recovery_mode (conf p) = 0")
  case True
  then show ?thesis using r by (auto simp: perform_recovery_def)
next
  case False
  let ?k = "other index"
  obtain mode p1 where d: "decide_recovery_mode E p index = Inr (mode, p1)"
    and rest: "(if mode = NO_RECOVERY_MODE then Inr (False, p1)
        else let k = other index;
                 p2 = conn_disconnect k (upd_conn k (\<lambda>c. c\<lparr>enabled := False\<rparr>) p1) in
          bindR (if mode = RECOVERY_FOR_INSUFFICIENT_PLAYABLE_TIME
                 then recover_outorder_portion_and_next_segment p2 index else Inr p2) (\<lambda>p3.
          bindR (gb_determine_next_subsegment p3 index DUAL_LINK_MODE) (\<lambda>p4.
            Inr (True, p4\<lparr>num_recoveries := num_recoveries p4 + 1\<rparr>)))) = Inr (b, p')"
    using r False unfolding perform_recovery_def by (auto elim!: bindR_InrE)
  have v1: "view p1 = view p" using d by (rule view_decide_recovery_mode)
  show ?thesis
  proof (cases "mode = NO_RECOVERY_MODE")
    case True
    then show ?thesis using rest v1 by simp
  next
    case no: False
    then have m: "mode = RECOVERY_FOR_INSUFFICIENT_PLAYABLE_TIME"
      using decide_recovery_mode_range [OF d] by simp
    let ?p2 = "conn_disconnect ?k (upd_conn ?k (\<lambda>c. c\<lparr>enabled := False\<rparr>) p1)"
    obtain p3 p4 where rec: "recover_outorder_portion_and_next_segment ?p2 index = Inr p3"
      and sub: "gb_determine_next_subsegment p3 index DUAL_LINK_MODE = Inr p4"
      and p': "b" "p' = p4\<lparr>num_recoveries := num_recoveries p4 + 1\<rparr>"
      using rest no m unfolding Let_def by (auto elim!: bindR_InrE)
    have v2: "view ?p2 = view p" using v1 by simp
    have ok2: "acct_but J ?p2" using ok by (simp only: view_acct [OF v2])
    from recover_next_acct [OF ok2 k rec]
    obtain sg pre where sg: "segs (offset_info p3) = pre @ [sg]" "seg_ok sg" "subseg sg = (\<lambda>_. None)"
      "recovery_segment sg" "acct_with (mset (bytes_of (seg_chunks sg))) J (set_connection ?k None p3)"
      "sorted (map start_byte (seg_chunks sg))"
      and k3: "keeps ?p2 p3" and pl3: "places p3 = places ?p2" and rc: "recovers ?k ?p2 sg p3" by metis
    have tail: "recovery_tail p3" using sg by (simp add: recovery_tail_def)
    have v': "view p' = view p4" using p' by simp
    have "rates_ok p4" using rates keeps_rates [OF view_keeps [OF v']] by simp
    then have rates3: "rates_ok p3" using keeps_rates [OF subsegment_keeps [OF sub]] by simp
    have "rates_ok (set_connection ?k None p3)" using rates3 by (simp add: rates_ok_def)
    then have a4: "acct_but J (set_connection ?k None p4)"
      using determine_subsegment_acct [OF subsegment_unhook [OF sub tail, of ?k None], of sg J pre] sg by simp
    have "acct_but J (set_connection ?k None p')"
      using a4 by (simp only: view_acct [OF view_set_connection [OF v']])
    moreover have "recovery_tail p'"
      using tail subsegment_recovery_tail [OF sub] view_recovery_tail [OF v'] by simp
    moreover have "keeps p p'"
      using view_keeps [OF v2] k3 subsegment_keeps [OF sub] view_keeps [OF v'] keeps_trans by blast
    moreover have "places p' = places p"
      using view_places [OF v2] pl3 subsegment_places [OF sub] view_places [OF v'] by simp
    moreover have "recovers ?k p (last (segs (offset_info p'))) p'"
    proof -
      have "seg_chunks (last (segs (offset_info p4))) = seg_chunks sg"
        "last_seg_offset (offset_info p4) = last_seg_offset (offset_info p3)"
        using sub sg(1) by (auto elim!: subsegment_form)
      then show ?thesis
        using rc view_segs [OF v'] view_last [OF v'] recovers_cong [OF v2 [symmetric], of "last (segs (offset_info p'))" sg p' p3]
        by simp
    qed
    ultimately show ?thesis using p'(1) by simp
  qed
qed

end
