(* ===== verification/Steady.thy ===== *)
theory Steady
  imports Recovery_Laws
begin

text \<open>
  What no handler changes, in any state: the configuration, the size of the file, and the flag
  that ends the loop, except where a connection or a write fails.
\<close>

named_theorems steady_intros \<open>operations that keep configuration, size and flag\<close>

lemma steady_set_connection [simp]: "steady p (set_connection k q r) \<longleftrightarrow> steady p r"
  by (simp add: steady_def)

lemma steady_upd_off [simp]: "steady p (upd_off f r) \<longleftrightarrow> steady p r"
  by (simp add: steady_def)

lemma steady_upd_conn [simp]:
  "(\<And>c. supported (f c) = supported c) \<Longrightarrow> steady p (upd_conn k f r) \<longleftrightarrow> steady p r"
  by (simp add: steady_def upd_conn_def)

lemma steady_offset [simp]: "steady p (r\<lparr>offset_info := i\<rparr>) \<longleftrightarrow> steady p r"
  by (simp add: steady_def)

lemma steady_recoveries [simp]: "steady p (r\<lparr>num_recoveries := i\<rparr>) \<longleftrightarrow> steady p r"
  by (simp add: steady_def)

lemma steady_goodput [steady_intros]: "gb_update_goodput E p = Inr q \<Longrightarrow> steady p q"
  by (rule layout_steady) (rule layout_gb_update_goodput)

lemma steady_policy [steady_intros]: "gb_determine_next_segment_policy p m = Inr (n, q) \<Longrightarrow> steady p q"
  by (rule view_steady) (rule view_policy)

lemma steady_subsegment [steady_intros]: "gb_determine_next_subsegment p k m = Inr q \<Longrightarrow> steady p q"
  by (rule keeps_steady) (rule subsegment_keeps)

lemma steady_choose [steady_intros]: "choose_link_mode E p k = Inr (m, q) \<Longrightarrow> steady p q"
  by (rule view_steady) (rule view_choose_link_mode)

lemma steady_decide [steady_intros]: "decide_recovery_mode E p k = Inr (m, q) \<Longrightarrow> steady p q"
  by (rule view_steady) (rule view_decide_recovery_mode)

lemma steady_disconnect [simp]: "steady p (conn_disconnect k q) \<longleftrightarrow> steady p q"
proof -
  have "steady q (conn_disconnect k q)" by (rule view_steady) simp
  then show ?thesis by (simp add: steady_def)
qed

lemma steady_header [steady_intros]: "gb_receive_http_header_response k p = Inr (b, q) \<Longrightarrow> steady p q"
  by (rule view_steady) (rule view_header_response)

lemma steady_conn_init [steady_intros]: "conn_init E k p = Inr (b, q) \<Longrightarrow> steady p q"
  by (rule view_steady) (rule view_conn_init)

lemma steady_send [steady_intros]: "send_http_request_for_subsegment E k s p = Inr (b, q) \<Longrightarrow> steady p q"
  by (rule view_steady) (rule view_send_http_request)

lemma steady_last_subseg [steady_intros]: "checking_last_subseg k p = Inr q \<Longrightarrow> steady p q"
  by (rule view_steady) (rule view_checking_last_subseg)

lemma steady_last_segment [steady_intros]: "checking_last_segment p = Inr q \<Longrightarrow> steady p q"
  by (rule view_steady) (rule view_checking_last_segment)

lemma steady_inorder [steady_intros]: "update_inorder_offset p = Inr q \<Longrightarrow> steady p q"
  by (rule view_steady) (rule view_update_inorder_offset)

lemma steady_start_receiving [simp]: "steady p (start_receiving k q) \<longleftrightarrow> steady p q"
  by (simp add: start_receiving_def)

lemma steady_segment_size [steady_intros]:
  assumes "gb_determine_next_segment_size p = Inr (n, q)"
  shows "steady p q"
proof -
  obtain n0 p1 where s: "(if fixed_segment_mode (conf p) \<noteq> 0
            then Inr (if is_using_only_one_link p then init_seg_size (offset_info p) sdiv 2
                      else init_seg_size (offset_info p), p)
            else gb_determine_next_segment_policy p 0) = Inr (n0, p1)"
    and rest: "(let n = absorb_rest p1 n0; i = offset_info p1; old = remaining_chunks i in
       if old \<noteq> [] then
         bindR (if n \<noteq> 0
                then bindR (get_start_byte_next_segment i) (\<lambda>start.
                       Inr (add_new_chunk old start n, n + total_size old))
                else Inr (old, total_size old)) (\<lambda>(cs, m).
         bindR (add_new_segment (i\<lparr>remaining_chunks := []\<rparr>) False cs m) (\<lambda>(i', q).
           Inr (m, p1\<lparr>offset_info := i'\<rparr>)))
       else if n \<noteq> 0 then
         bindR (get_start_byte_next_segment i) (\<lambda>start.
         bindR (add_new_segment i False (add_new_chunk [] start n) n) (\<lambda>(i', q).
           Inr (n, p1\<lparr>offset_info := i'\<rparr>)))
       else Inr (n, p1)) = Inr (n, q)"
    using assms unfolding gb_determine_next_segment_size_def by (auto elim!: bindR_InrE)
  have 1: "steady p p1" using s by (auto intro: steady_policy split: if_splits)
  have "q = p1 \<or> (\<exists>i. q = p1\<lparr>offset_info := i\<rparr>)"
    using rest unfolding Let_def by (auto elim!: bindR_InrE split: if_splits)
  then show ?thesis using 1 by auto
qed

lemma steady_setup_segment [steady_intros]:
  assumes "setup_segment E index p = Inr (b, q)"
  shows "steady p q"
proof -
  obtain p1 n p2 where "gb_update_goodput E p = Inr p1" "gb_determine_next_segment_size p1 = Inr (n, p2)"
    and rest: "(if n = 0 then Inr (False, p2)
       else bindR (if minimum_energy_mode (conf p2) \<noteq> 0
                      \<and> completed_segment_count (offset_info p2) > 0 \<and> num_connections (conf p2) \<noteq> 1
                   then choose_link_mode E p2 index else Inr (DUAL_LINK_MODE, p2)) (\<lambda>(mode, p3).
            bindR (gb_determine_next_subsegment p3 index mode) (\<lambda>p4. Inr (True, p4)))) = Inr (b, q)"
    using assms unfolding setup_segment_def by (auto elim!: bindR_InrE)
  then have "steady p p2" by (blast intro: steady_trans steady_intros)
  moreover have "steady p2 q"
    using rest by (auto elim!: bindR_InrE split: if_splits dest!: steady_choose steady_subsegment intro: steady_trans)
  ultimately show ?thesis by (rule steady_trans)
qed

lemma steady_recover_next [steady_intros]:
  assumes "recover_outorder_portion_and_next_segment p index = Inr q"
  shows "steady p q"
proof -
  obtain i cs n0 p2 where s: "(let p1 = p\<lparr>offset_info := i\<rparr> in
             if fixed_segment_mode (conf p1) \<noteq> 0 then Inr (init_seg_size i, p1)
             else gb_determine_next_segment_policy p1 0) = Inr (n0, p2)"
    and q: "\<exists>j. q = p2\<lparr>offset_info := j\<rparr>"
    using assms unfolding recover_outorder_portion_and_next_segment_def Let_def [of "other index"]
    by (auto simp: Let_def [of "absorb_rest _ _"] Let_def [of "offset_info _"] elim!: bindR_InrE)
  have "steady (p\<lparr>offset_info := i\<rparr>) p2"
    using s by (auto simp: Let_def intro: steady_policy split: if_splits)
  then have "steady p p2" by (simp add: steady_def)
  then show ?thesis using q by auto
qed

lemma steady_perform_recovery [steady_intros]:
  assumes "perform_recovery E p index = Inr (b, q)"
  shows "steady p q"
proof (cases "recovery_mode (conf p) = 0")
  case True
  then show ?thesis using assms by (simp add: perform_recovery_def)
next
  case False
  let ?p2 = "\<lambda>p1. conn_disconnect (other index) (upd_conn (other index) (\<lambda>c. c\<lparr>enabled := False\<rparr>) p1)"
  obtain mode p1 where d: "decide_recovery_mode E p index = Inr (mode, p1)"
    and rest: "q = p1 \<or> (\<exists>p3 p4. (if mode = RECOVERY_FOR_INSUFFICIENT_PLAYABLE_TIME
                 then recover_outorder_portion_and_next_segment (?p2 p1) index else Inr (?p2 p1)) = Inr p3
          \<and> gb_determine_next_subsegment p3 index DUAL_LINK_MODE = Inr p4
          \<and> q = p4\<lparr>num_recoveries := num_recoveries p4 + 1\<rparr>)"
    using assms False unfolding perform_recovery_def Let_def
    by (auto elim!: bindR_InrE split: if_splits)
  have 1: "steady p p1" using d by (rule steady_decide)
  show ?thesis
  proof (cases "q = p1")
    case no: False
    then obtain p3 p4 where r: "(if mode = RECOVERY_FOR_INSUFFICIENT_PLAYABLE_TIME
                 then recover_outorder_portion_and_next_segment (?p2 p1) index else Inr (?p2 p1)) = Inr p3"
      "gb_determine_next_subsegment p3 index DUAL_LINK_MODE = Inr p4"
      "q = p4\<lparr>num_recoveries := num_recoveries p4 + 1\<rparr>" using rest by blast
    have "steady (?p2 p1) p3" using r(1) by (auto intro: steady_recover_next split: if_splits)
    moreover have "steady p (?p2 p1)" using 1 by simp
    ultimately have "steady p p3" using steady_trans by blast
    then show ?thesis using steady_subsegment [OF r(2)] steady_trans r(3) by auto
  qed (use 1 in simp)
qed

lemma steady_setup_next [steady_intros]:
  assumes "gb_setup_next_segment E index p = Inr (b, q)"
  shows "steady p q"
proof (cases "last_segment_flag (conn p index)")
  case True
  then show ?thesis using assms by (simp add: gb_setup_next_segment_def)
next
  case False
  note r = assms [unfolded gb_setup_next_segment_def]
  show ?thesis
  proof (cases "get_conn_order_case p index")
    case ONE_SEG
    then obtain p1 dn p2 where 1: "gb_update_goodput E p = Inr p1"
      and 2: "(if currentbyte (conn p1 index) < currentbyte (conn p1 (other index))
               then perform_recovery E p1 index else Inr (False, p1)) = Inr (dn, p2)"
      and 3: "(if dn then Inr (True, p2) else setup_segment E index p2) = Inr (b, q)"
      using r False by (auto elim!: bindR_InrE)
    have "steady p1 p2" using 2 by (auto intro: steady_intros split: if_splits)
    moreover have "steady p2 q" using 3 by (auto intro: steady_intros split: if_splits)
    ultimately show ?thesis using steady_goodput [OF 1] steady_trans by blast
  next
    case AHEAD_SEG
    then obtain p1 dn p2 where 1: "gb_update_goodput E p = Inr p1"
      and 2: "perform_recovery E p1 index = Inr (dn, p2)"
      and 3: "q = p2 \<or> setup_segment E index p2 = Inr (b, q)"
      using r False by (auto elim!: bindR_InrE split: if_splits)
    have "steady p2 q" using 3 by (auto intro: steady_intros)
    then show ?thesis using steady_goodput [OF 1] steady_perform_recovery [OF 2] steady_trans by blast
  next
    case BEHIND_SEG
    then show ?thesis using r False by (auto intro: steady_intros split: if_splits)
  qed
qed


section \<open>Requests and the ends of chunks also keep the goodputs\<close>

lemma keeps_upd_conn [simp]:
  "(\<And>c. c_bytes_per_second (f c) = c_bytes_per_second c) \<Longrightarrow> (\<And>c. supported (f c) = supported c)
     \<Longrightarrow> keeps p (upd_conn k f r) \<longleftrightarrow> keeps p r"
  by (auto simp: keeps_def upd_conn_def)

lemma keeps_left [simp]:
  "(\<And>c. c_bytes_per_second (f c) = c_bytes_per_second c) \<Longrightarrow> (\<And>c. supported (f c) = supported c)
     \<Longrightarrow> keeps (upd_conn k f p) r \<longleftrightarrow> keeps p r"
  "keeps (upd_off g p) r \<longleftrightarrow> keeps p r" "keeps (p\<lparr>offset_info := i\<rparr>) r \<longleftrightarrow> keeps p r"
  by (auto simp: keeps_def upd_conn_def upd_off_def)

lemma keeps_view_trans: "keeps p q \<Longrightarrow> view r = view q \<Longrightarrow> keeps p r"
  by (blast intro: keeps_trans view_keeps)

lemma keeps_disconnect [simp]: "keeps p (conn_disconnect k q) \<longleftrightarrow> keeps p q"
proof -
  have "keeps q (conn_disconnect k q)" by (rule view_keeps) simp
  then show ?thesis by (auto simp: keeps_def)
qed

lemma keeps_start_receiving [simp]: "keeps p (start_receiving k q) \<longleftrightarrow> keeps p q"
  by (simp add: start_receiving_def)

lemma keeps_aim_at: "aim_at k b p = Inr q \<Longrightarrow> keeps p q"
  by (cases "ss_chunks b") (auto simp: aim_at_def)

lemma keeps_header: "gb_receive_http_header_response k p = Inr (b, q) \<Longrightarrow> keeps p q"
  by (rule view_keeps) (rule view_header_response)

lemma keeps_last_subseg: "checking_last_subseg k p = Inr q \<Longrightarrow> keeps p q"
  by (rule view_keeps) (rule view_checking_last_subseg)

lemma keeps_send: "send_http_request_for_subsegment E k s p = Inr (b, q) \<Longrightarrow> keeps p q"
  by (rule view_keeps) (rule view_send_http_request)

lemma keeps_conn_init: "conn_init E k p = Inr (b, q) \<Longrightarrow> keeps p q"
  by (rule view_keeps) (rule view_conn_init)

lemma keeps_aim_set: "aim_at k b (set_connection k r p) = Inr q \<Longrightarrow> keeps p q"
  using keeps_aim_at keeps_set_connection keeps_trans keeps_refl by blast

lemma keeps_return_idle:
  assumes "return_downloading_for_idle_conn k p = Inr q"
  shows "keeps p q"
proof (cases "connection (offset_info p) k = None")
  case True
  then show ?thesis using assms unfolding return_downloading_for_idle_conn_def
    by (auto elim!: bindR_InrE split: option.splits if_splits
        dest!: keeps_aim_set keeps_last_subseg keeps_header) (blast intro: keeps_trans)+
next
  case False
  then show ?thesis using assms by (auto simp: return_downloading_for_idle_conn_def split: if_splits)
qed

lemma keeps_return_recovered:
  assumes "return_downloading_for_recovered_conn E k p = Inr q"
  shows "keeps p q"
proof -
  obtain s where s: "tail_seg p = Inr s" using assms
    unfolding return_downloading_for_recovered_conn_def by (rule bindR_InrE)
  show ?thesis
  proof (cases "subseg s k")
    case None
    then show ?thesis using assms s by (auto simp: return_downloading_for_recovered_conn_def elim!: bindR_InrE)
  next
    case (Some b)
    obtain ok p1 p2 p3 x p4 okh p5 where 1: "conn_init E k p = Inr (ok, p1)"
      and 2: "aim_at k b (set_connection k (Some (seg_id s)) p1) = Inr p2"
      and 3: "checking_last_subseg k p2 = Inr p3"
      and 4: "send_http_request_for_subsegment E k (Some b) p3 = Inr (x, p4)"
      and 5: "gb_receive_http_header_response k p4 = Inr (okh, p5)"
      and q: "q = (if okh then upd_conn k (\<lambda>c. c\<lparr>pipeline_requests_sent := False\<rparr>) (start_receiving k p5) else p5)"
      using assms s Some by (auto simp: return_downloading_for_recovered_conn_def elim!: bindR_InrE split: if_splits)
    have "keeps p p5"
      using keeps_conn_init [OF 1] keeps_aim_set [OF 2] keeps_last_subseg [OF 3] keeps_send [OF 4]
        keeps_header [OF 5] keeps_trans by blast
    then show ?thesis by (simp add: q)
  qed
qed

lemma keeps_request_segment:
  assumes "request_segment E k p = Inr q"
  shows "keeps p q"
proof -
  obtain s where s: "tail_seg p = Inr s" using assms unfolding request_segment_def by (rule bindR_InrE)
  obtain x p1 p3 where 1: "send_http_request_for_subsegment E k (subseg s k) p = Inr (x, p1)"
    and 3: "(if \<not> recovery_segment s
            then bindR (send_http_request_for_subsegment E (other k) (subseg s (other k)) p1) (\<lambda>(sent, p2).
                   if sent then return_downloading_for_idle_conn (other k) p2 else Inr p2)
            else return_downloading_for_recovered_conn E (other k) p1) = Inr p3"
    and 4: "checking_last_segment p3 = Inr q"
    using assms s unfolding request_segment_def by (auto elim!: bindR_InrE)
  have "keeps p1 p3" using 3
    by (auto elim!: bindR_InrE intro: keeps_trans dest!: keeps_send keeps_return_idle keeps_return_recovered split: if_splits)
  then show ?thesis
    using keeps_send [OF 1] view_keeps [OF view_checking_last_segment [OF 4]] keeps_trans by blast
qed

lemma keeps_next_subseg:
  assumes "next_subseg k p = Inr q"
  shows "keeps p q"
proof -
  obtain ok p0 r b p2 p3 where 1: "gb_receive_http_header_response k p = Inr (ok, p0)"
    and 2: "aim_at k b (set_connection k (Some r) (if ok then start_receiving k p0 else p0)) = Inr p2"
    and 3: "checking_last_subseg k p2 = Inr p3"
    and q: "q = upd_conn k (\<lambda>c. c\<lparr>pipeline_requests_sent := False\<rparr>) p3 \<or> q = p3"
    using assms unfolding next_subseg_def Let_def
    by (auto elim!: bindR_InrE split: option.splits if_splits)
  have "keeps p (if ok then start_receiving k p0 else p0)" using keeps_header [OF 1] by simp
  then have "keeps p p3" using keeps_aim_set [OF 2] keeps_last_subseg [OF 3] keeps_trans by blast
  then show ?thesis using q by auto
qed

lemma keeps_finish_downloading:
  assumes "finish_downloading_subseg k p = Inr q"
  shows "keeps p q"
proof -
  obtain p2 where p2: "(if pipeline_requests_sent (conn p k) then next_subseg k p
            else bindR (if lastbyte (conn p k) = g_size p - 1 then Inr True
                        else bindR (conn_at p (other k)) (\<lambda>x.
                          Inr (lastbyte x = g_size p - 1
                               \<or> single_link_mode_flag (offset_info p) \<and> k = LTE))) (\<lambda>close.
                   let p1 = set_connection k None p
                   in Inr (if close then conn_disconnect k p1 else p1))) = Inr p2"
    and q: "q = upd_off delete_finished_heads p2"
    using assms unfolding finish_downloading_subseg_def by (auto elim!: bindR_InrE)
  have "keeps p p2"
    using p2 by (auto simp: Let_def dest: keeps_next_subseg elim!: bindR_InrE split: if_splits)
  then show ?thesis by (simp add: q)
qed

lemma keeps_finish_last_chunk:
  assumes "finish_last_chunk_of_subseg k p = Inr (b, q)"
  shows "keeps p q"
  using assms unfolding finish_last_chunk_of_subseg_def Let_def
  by (auto dest!: keeps_header elim!: bindR_InrE split: option.splits list.splits if_splits)

lemma keeps_inorder: "update_inorder_offset p = Inr q \<Longrightarrow> keeps p q"
  by (rule view_keeps) (rule view_update_inorder_offset)

lemma keeps_finish_chunk:
  assumes "finish_chunk k p = Inr q"
  shows "keeps p q"
proof -
  obtain fin p1 where 1: "finish_last_chunk_of_subseg k (upd_conn k (\<lambda>c. c\<lparr>enabled := False\<rparr>) p) = Inr (fin, p1)"
    and rest: "(if fin then
         (case connection (offset_info p1) k of
            None \<Rightarrow> Inl NullDeref
          | Some q \<Rightarrow>
              bindR (delete_subsegment (offset_info p1) q k) (\<lambda>i.
              bindR (finish_downloading_subseg k (p1\<lparr>offset_info := i\<rparr>)) update_inorder_offset))
       else Inr p1) = Inr q"
    using assms unfolding finish_chunk_def by (auto elim!: bindR_InrE)
  have k1: "keeps p p1" using keeps_finish_last_chunk [OF 1] by simp
  show ?thesis
  proof (cases fin)
    case True
    then obtain i p2 where 2: "finish_downloading_subseg k (p1\<lparr>offset_info := i\<rparr>) = Inr p2"
      and 3: "update_inorder_offset p2 = Inr q"
      using rest by (auto elim!: bindR_InrE split: option.splits)
    have "keeps p (p1\<lparr>offset_info := i\<rparr>)" using k1 by simp
    then show ?thesis using keeps_finish_downloading [OF 2] keeps_inorder [OF 3] keeps_trans by blast
  qed (use rest k1 in simp)
qed

end
