(* ===== verification/Turn_Laws.thy ===== *)
theory Turn_Laws
  imports Steady
begin

text \<open>
  The balance through a whole turn of the download loop: preparing the next segment, sending its
  requests, receiving a block of data, and what follows the end of a chunk.
\<close>

section \<open>Preparing the next segment\<close>

text \<open>
  Between \<open>gb_setup_next_segment\<close> and the requests for the new segment, the connection that
  recovery has taken everything from still points at a segment it has nothing in.
\<close>

definition prepared :: "link set \<Rightarrow> link \<Rightarrow> proc \<Rightarrow> bool" where
  "prepared J k p \<longleftrightarrow>
     (if recovery_tail p then acct_but J (set_connection (other k) None p) else acct_but J p)"

lemma perform_recovery_view:
  "perform_recovery E p index = Inr (False, q) \<Longrightarrow> view q = view p"
  unfolding perform_recovery_def Let_def
  by (auto elim!: bindR_InrE dest: view_decide_recovery_mode split: if_splits)

lemma setup_segment_prepared:
  assumes "acct_but J p" "setup_segment E k p = Inr (b, q)" "rates_ok q"
  shows "(if b then prepared J k q else acct_but J q) \<and> places q = places p"
  using setup_segment_acct [OF assms] by (simp add: prepared_def)

lemma recovery_or_segment:
  assumes ok: "acct_but J p" and k: "other k \<notin> J" and rates: "rates_ok q"
    and r: "perform_recovery E p k = Inr (dn, p1)"
    and rest: "if dn then b \<and> q = p1 else (\<not> b \<and> q = p1 \<or> setup_segment E k p1 = Inr (b, q))"
  shows "(if b then prepared J k q else acct_but J q) \<and> places q = places p"
proof (cases dn)
  case True
  then have q: "b" "q = p1" using rest by simp_all
  have "acct_but J (set_connection (other k) None p1) \<and> recovery_tail p1 \<and> keeps p p1 \<and> places p1 = places p"
    using perform_recovery_acct [OF ok k r] rates True q by simp
  then show ?thesis using q by (simp add: prepared_def)
next
  case False
  then have v: "view p1 = view p" using r perform_recovery_view by simp
  have ok1: "acct_but J p1" using ok by (simp only: view_acct [OF v])
  show ?thesis
  proof (cases "\<not> b \<and> q = p1")
    case True
    then show ?thesis using ok1 view_places [OF v] by simp
  next
    case no: False
    then have "setup_segment E k p1 = Inr (b, q)" using rest False by auto
    from setup_segment_prepared [OF ok1 this rates] show ?thesis using view_places [OF v] by simp
  qed
qed

lemma setup_next_acct:
  assumes ok: "acct_but J p" and k: "other k \<notin> J"
    and r: "gb_setup_next_segment E k p = Inr (b, q)" and rates: "rates_ok q"
  shows "(if b then prepared J k q else acct_but J q) \<and> places q = places p"
proof (cases "last_segment_flag (conn p k)")
  case True
  then show ?thesis using r ok by (simp add: gb_setup_next_segment_def)
next
  case False
  note r = r [unfolded gb_setup_next_segment_def]
  show ?thesis
  proof (cases "get_conn_order_case p k")
    case BEHIND_SEG
    show ?thesis
    proof (cases "single_link_mode_flag (offset_info p)")
      case True
      then have q: "\<not> b" "q = upd_off (\<lambda>i. i\<lparr>conn_idle := (conn_idle i)(k := True)\<rparr>) p"
        using r False BEHIND_SEG by auto
      then have v: "view q = view p" by simp
      show ?thesis using q(1) ok view_places [OF v] by (simp add: view_acct [OF v])
    next
      case no: False
      then show ?thesis using r False BEHIND_SEG ok rates by (intro setup_segment_prepared) simp_all
    qed
  next
    case AHEAD_SEG
    then obtain p1 dn p2 where 1: "gb_update_goodput E p = Inr p1"
      and 2: "perform_recovery E p1 k = Inr (dn, p2)"
      and 3: "if dn then b \<and> q = p2 else (\<not> b \<and> q = p2 \<or> setup_segment E k p2 = Inr (b, q))"
      using r False by (auto elim!: bindR_InrE split: if_splits)
    note l = layout_gb_update_goodput [OF 1]
    have "acct_but J p1" using ok by (simp only: acct_layout [OF l])
    from recovery_or_segment [OF this k rates 2 3] show ?thesis using layout_places [OF l] by simp
  next
    case ONE_SEG
    then obtain p1 dn p2 where 1: "gb_update_goodput E p = Inr p1"
      and 2: "(if currentbyte (conn p1 k) < currentbyte (conn p1 (other k))
               then perform_recovery E p1 k else Inr (False, p1)) = Inr (dn, p2)"
      and 3: "(if dn then Inr (True, p2) else setup_segment E k p2) = Inr (b, q)"
      using r False by (auto elim!: bindR_InrE)
    note l = layout_gb_update_goodput [OF 1]
    have ok1: "acct_but J p1" using ok by (simp only: acct_layout [OF l])
    have "(if b then prepared J k q else acct_but J q) \<and> places q = places p1"
    proof (cases "currentbyte (conn p1 k) < currentbyte (conn p1 (other k))")
      case True
      then have 2: "perform_recovery E p1 k = Inr (dn, p2)" using 2 by simp
      have "if dn then b \<and> q = p2 else (\<not> b \<and> q = p2 \<or> setup_segment E k p2 = Inr (b, q))"
        using 3 by (auto split: if_splits)
      with ok1 k rates 2 show ?thesis by (rule recovery_or_segment)
    next
      case no: False
      then have "setup_segment E k p1 = Inr (b, q)" using 2 3 by simp
      with ok1 show ?thesis using rates by (rule setup_segment_prepared)
    qed
    then show ?thesis using layout_places [OF l] by simp
  qed
qed

section \<open>Requesting it\<close>

lemma set_connection_None: "connection (offset_info p) k = None \<Longrightarrow> set_connection k None p = p"
  by (simp add: set_connection_def upd_off_def fun_upd_idem)

text \<open>Where one connection stands.\<close>

definition place :: "proc \<Rightarrow> link \<Rightarrow> int \<times> int" where
  "place p k = (currentbyte (conn p k), lastbyte (conn p k))"

lemma places_place: "places q = places p \<Longrightarrow> place q k = place p k"
  by (simp add: places_def place_def fun_eq_iff)

lemma view_place: "view q = view p \<Longrightarrow> place q k = place p k"
  by (rule places_place) (rule view_places)

lemma aim_at_place: "aim_at k b p = Inr q \<Longrightarrow> place q (other k) = place p (other k)"
  by (cases "ss_chunks b") (auto simp: aim_at_def place_def)

lemma place_set_connection [simp]: "place (set_connection k r p) l = place p l"
  by (simp add: place_def)

lemma return_idle_acct:
  assumes ok: "acct_but J p" and r: "return_downloading_for_idle_conn k p = Inr q"
  shows "acct_but J q \<and> place q (other k) = place p (other k)"
proof (cases "connection (offset_info p) k = None")
  case True
  obtain s where s: "tail_seg p = Inr s"
    using r True unfolding return_downloading_for_idle_conn_def by (auto elim!: bindR_InrE)
  then obtain b where b: "subseg s k = Some b"
    using r True unfolding return_downloading_for_idle_conn_def
    by (auto elim!: bindR_InrE split: option.splits)
  then obtain p1 p2 okh p3 where 1: "aim_at k b (set_connection k (Some (seg_id s)) p) = Inr p1"
    and 2: "checking_last_subseg k p1 = Inr p2" and 3: "gb_receive_http_header_response k p2 = Inr (okh, p3)"
    and q: "(if okh then upd_off (\<lambda>i. i\<lparr>conn_idle := (conn_idle i)(k := False)\<rparr>)
              (upd_conn k (\<lambda>c. c\<lparr>pipeline_requests_sent := False\<rparr>) (start_receiving k p3)) else p3) = q"
    using r True s unfolding return_downloading_for_idle_conn_def by (auto elim!: bindR_InrE)
  have mem: "s \<in> set (segs (offset_info p))" using s by (auto simp: tail_seg_def split: if_splits)
  have "acct_but J (set_connection k None p)" using ok by (simp add: set_connection_None [OF True])
  then have "acct_but J p1" using mem b 1 by (rule attach_twice)
  moreover have v: "view q = view p1"
    using view_checking_last_subseg [OF 2] view_header_response [OF 3] unfolding q [symmetric] by simp
  ultimately have "acct_but J q" by (simp only: view_acct [OF v])
  then show ?thesis using view_place [OF v] aim_at_place [OF 1] by simp
next
  case False
  then have "return_downloading_for_idle_conn k p = Inr p"
    unfolding return_downloading_for_idle_conn_def by (simp only: if_False)
  then show ?thesis using r ok by simp
qed

lemma clear_place_acct:
  assumes ok: "acct_but J p" and none: "connection (offset_info p) k = None"
  shows "acct_but J (upd_conn k (\<lambda>c. c\<lparr>currentbyte := a, lastbyte := b\<rparr>) p)" (is "acct_but J ?q")
proof -
  have cur: "current_chunk (offset_info p) k = None" using none by (simp add: current_chunk_def)
  have "work ?q k = work p k" by (simp add: work_def cur)
  moreover have "aimed J ?q k" by (simp add: aimed_def cur)
  moreover have "sound ?q" using ok sound_cong [of ?q p] by (simp add: acct_but_def)
  ultimately show ?thesis using ok by (intro acct_move [of J p ?q J k]) auto
qed

lemma return_recovered_acct:
  assumes ok: "acct_but J (set_connection k None p)"
    and r: "return_downloading_for_recovered_conn E k p = Inr q"
  shows "acct_but J q \<and> place q (other k) = place p (other k)"
proof -
  obtain s where s: "tail_seg p = Inr s" using r
    unfolding return_downloading_for_recovered_conn_def by (rule bindR_InrE)
  have mem: "s \<in> set (segs (offset_info p))" using s by (auto simp: tail_seg_def split: if_splits)
  show ?thesis
  proof (cases "subseg s k")
    case None
    then have q: "q = upd_conn k (\<lambda>c. c\<lparr>currentbyte := 1, lastbyte := 0\<rparr>) (set_connection k None p)"
      using r s by (auto simp: return_downloading_for_recovered_conn_def elim!: bindR_InrE)
    have "acct_but J q" unfolding q using ok by (rule clear_place_acct) simp
    then show ?thesis by (simp add: q place_def)
  next
    case (Some b)
    obtain okc p1 p2 p3 x p4 okh p5 where 1: "conn_init E k p = Inr (okc, p1)"
      and 2: "aim_at k b (set_connection k (Some (seg_id s)) p1) = Inr p2"
      and 3: "checking_last_subseg k p2 = Inr p3"
      and 4: "send_http_request_for_subsegment E k (Some b) p3 = Inr (x, p4)"
      and 5: "gb_receive_http_header_response k p4 = Inr (okh, p5)"
      and q: "q = (if okh then upd_conn k (\<lambda>c. c\<lparr>pipeline_requests_sent := False\<rparr>) (start_receiving k p5) else p5)"
      using r s Some by (auto simp: return_downloading_for_recovered_conn_def elim!: bindR_InrE split: if_splits)
    note v1 = view_conn_init [OF 1]
    have "acct_but J (set_connection k None p1)"
      using ok by (simp only: view_acct [OF view_set_connection [OF v1]])
    moreover have "s \<in> set (segs (offset_info p1))" using mem view_segs [OF v1] by simp
    ultimately have "acct_but J p2" using Some 2 by (rule attach_twice)
    moreover have v: "view q = view p2"
      using view_checking_last_subseg [OF 3] view_send_http_request [OF 4] view_header_response [OF 5] q by simp
    ultimately have "acct_but J q" by (simp only: view_acct [OF v])
    then show ?thesis using view_place [OF v] aim_at_place [OF 2] view_place [OF v1] by simp
  qed
qed

lemma tail_seg_recovery: "tail_seg p = Inr s \<Longrightarrow> recovery_tail p \<longleftrightarrow> recovery_segment s"
  by (auto simp: tail_seg_def recovery_tail_def split: if_splits)

lemma request_segment_acct:
  assumes ok: "prepared J k p" and r: "request_segment E k p = Inr q"
  shows "acct_but J q \<and> place q k = place p k"
proof -
  obtain s where s: "tail_seg p = Inr s" using r unfolding request_segment_def by (rule bindR_InrE)
  obtain x p1 p3 where 1: "send_http_request_for_subsegment E k (subseg s k) p = Inr (x, p1)"
    and 3: "(if \<not> recovery_segment s
            then bindR (send_http_request_for_subsegment E (other k) (subseg s (other k)) p1) (\<lambda>(sent, p2).
                   if sent then return_downloading_for_idle_conn (other k) p2 else Inr p2)
            else return_downloading_for_recovered_conn E (other k) p1) = Inr p3"
    and 4: "checking_last_segment p3 = Inr q"
    using r s unfolding request_segment_def by (auto elim!: bindR_InrE)
  note v1 = view_send_http_request [OF 1] and v4 = view_checking_last_segment [OF 4]
  have "acct_but J p3 \<and> place p3 k = place p1 k"
  proof (cases "recovery_segment s")
    case True
    then have "acct_but J (set_connection (other k) None p)"
      using ok tail_seg_recovery [OF s] by (simp add: prepared_def)
    then have "acct_but J (set_connection (other k) None p1)"
      by (simp only: view_acct [OF view_set_connection [OF v1]])
    moreover have "return_downloading_for_recovered_conn E (other k) p1 = Inr p3" using 3 True by simp
    ultimately show ?thesis using return_recovered_acct [of J "other k" p1 E p3] by simp
  next
    case False
    then have "acct_but J p" using ok tail_seg_recovery [OF s] by (simp add: prepared_def)
    then have ok1: "acct_but J p1" by (simp only: view_acct [OF v1])
    obtain sent p2 where 2: "send_http_request_for_subsegment E (other k) (subseg s (other k)) p1 = Inr (sent, p2)"
      and p3: "(if sent then return_downloading_for_idle_conn (other k) p2 else Inr p2) = Inr p3"
      using 3 False by (auto elim!: bindR_InrE)
    note v2 = view_send_http_request [OF 2]
    have ok2: "acct_but J p2" using ok1 by (simp only: view_acct [OF v2])
    have "acct_but J p3 \<and> place p3 k = place p2 k"
      using p3 ok2 return_idle_acct [OF ok2, of "other k" p3] by (auto split: if_splits)
    then show ?thesis using view_place [OF v2] by simp
  qed
  then show ?thesis using view_place [OF v1] view_place [OF v4] by (simp add: view_acct [OF v4])
qed

lemma request_ahead_acct:
  assumes ok: "acct_but J p" and k: "other k \<notin> J"
    and r: "request_ahead E k remaining n p = Inr q" and rates: "rates_ok q"
  shows "acct_but J q \<and> place q k = place p k \<and> connection (offset_info p) k \<noteq> None"
proof -
  obtain s where s: "seg_deref (offset_info p) (connection (offset_info p) k) = Inr s"
    using r unfolding request_ahead_def Let_def by (rule bindR_InrE)
  then obtain b where b: "subseg s k = Some b"
    using r unfolding request_ahead_def Let_def by (auto split: option.splits)
  have some: "connection (offset_info p) k \<noteq> None" using s by (cases "connection (offset_info p) k") simp_all
  consider (same) "q = p" | (ahead) dn p1 where "gb_setup_next_segment E k p = Inr (dn, p1)"
      "(if dn then request_segment E k p1 else Inr p1) = Inr q"
    using r s b unfolding request_ahead_def Let_def by (auto elim!: bindR_InrE split: if_splits)
  then show ?thesis
  proof cases
    case same
    then show ?thesis using ok some by simp
  next
    case ahead
    have "keeps p1 q" using ahead(2) keeps_request_segment by (auto split: if_splits)
    then have "rates_ok p1" using rates keeps_rates by simp
    from setup_next_acct [OF ok k ahead(1) this]
    have 1: "if dn then prepared J k p1 else acct_but J p1" "places p1 = places p" by simp_all
    have "acct_but J q \<and> place q k = place p1 k"
      using 1(1) ahead(2) request_segment_acct [of J k p1 E q] by (auto split: if_splits)
    then show ?thesis using places_place [OF 1(2)] some by simp
  qed
qed

section \<open>Receiving\<close>

lemma acct_current:
  assumes ok: "acct_but J p" and some: "connection (offset_info p) k \<noteq> None"
  obtains c where "current_chunk (offset_info p) k = Some c" "lastbyte (conn p k) = last_byte c"
proof -
  let ?i = "offset_info p"
  obtain q where q: "connection ?i k = Some q" using some by blast
  have i: "wf_segs ?i" "wf_conns ?i" "subs_ok ?i" using ok by (simp_all add: acct_but_def sound_def)
  obtain s b where s: "s \<in> set (segs ?i)" "seg_id s = q" "subseg s k = Some b"
    using i(2) [unfolded wf_conns_def, rule_format, OF q] by auto
  obtain c cs where c: "ss_chunks b = c # cs" using i(3) s by (cases "ss_chunks b") (auto simp: subs_ok_def)
  have cur: "current_chunk ?i k = Some c" using i(1) s c q by (intro current_chunk_seg) auto
  moreover have "aimed J p k" using ok by (simp add: acct_but_def)
  ultimately show thesis using that by (simp add: aimed_def)
qed

lemma acct_not_at_end:
  assumes ok: "acct_but {k} p" and le: "currentbyte (conn p k) \<le> lastbyte (conn p k)"
  shows "acct p"
proof -
  have "aimed {} p j" for j
  proof (cases "j = k")
    case True
    have "aimed {k} p k" using ok by (simp add: acct_but_def)
    then show ?thesis using le True by (auto simp: aimed_def)
  next
    case False
    have "aimed {k} p j" using ok by (simp add: acct_but_def)
    then show ?thesis using False by (simp add: aimed_def)
  qed
  then show ?thesis using ok by (simp add: acct_but_def)
qed

lemma read_socket_length:
  "read_socket E k n p = Inr (m, data, q) \<Longrightarrow> m = - 1 \<or> m = int (length data) \<and> m \<le> n"
  by (auto simp: read_socket_def Let_def min.coboundedI2 nat_le_iff [symmetric] split: if_splits)
     linarith

lemma view_read_socket: "read_socket E k n p = Inr (m, data, q) \<Longrightarrow> view q = view p"
  by (auto simp: read_socket_def Let_def split: if_splits)

text \<open>The balance does not depend on the flag of the loop.\<close>

lemma acct_ready [simp]: "acct_but J (p\<lparr>ready := x\<rparr>) \<longleftrightarrow> acct_but J p"
  by (simp add: acct_but_def sound_def aimed_def balanced_def work_def conn_ok_def cong: option.case_cong)

lemma closed_acct [simp]:
  "acct_but J (conn_disconnect k (upd_conn k (\<lambda>c. c\<lparr>enabled := False\<rparr>) r)) \<longleftrightarrow> acct_but J r"
  by (rule view_acct) simp

lemma message_acct [simp]: "acct_but J (gb_message t r) \<longleftrightarrow> acct_but J r"
  by (rule view_acct) simp

lemma exception_for_read_acct: "exception_for_read n k p = (b, q) \<Longrightarrow> acct_but J q \<longleftrightarrow> acct_but J p"
  by (auto simp: exception_for_read_def Let_def split: if_splits)

lemma exception_for_read_passes:
  "exception_for_read n k p = (False, q) \<Longrightarrow> q = p \<and> n \<noteq> - 1"
  by (auto simp: exception_for_read_def Let_def split: if_splits)

lemma exception_ready:
  "exception_for_read n k p = (b, q) \<Longrightarrow> supported (conn p LTE) \<Longrightarrow> ready q = ready p"
proof -
  have close: "ready (conn_disconnect k (upd_conn k (\<lambda>c. c\<lparr>enabled := False\<rparr>) r)) = ready r" for r
    using view_steady [of "conn_disconnect k (upd_conn k (\<lambda>c. c\<lparr>enabled := False\<rparr>) r)" r]
    by (simp add: steady_def)
  assume "exception_for_read n k p = (b, q)" "supported (conn p LTE)"
  then show ?thesis using close by (auto simp: exception_for_read_def gb_message_def Let_def split: if_splits)
qed

lemma write_received_cases:
  "view (write_received_data E k data p) = view (advance k data p) 
    \<or> ready (write_received_data E k data p) = - 1 \<and> (\<exists>n. env_write E n < length data)"
proof (cases "min (env_write E (tick p)) (length data) = length data")
  case True
  then show ?thesis
    by (simp add: write_received_data_def Let_def)
       (simp add: view_def layout_def advance_def upd_conn_def fun_eq_iff)
next
  case False
  then have "env_write E (tick p) < length data" by simp
  moreover have "ready (write_received_data E k data p) = - 1"
    using False unfolding write_received_data_def Let_def by (simp only: if_True not_False_eq_True) simp
  ultimately show ?thesis by blast
qed

text \<open>The file may take fewer bytes than one block.\<close>

definition short_writes :: "env \<Rightarrow> proc \<Rightarrow> bool" where
  "short_writes E p \<longleftrightarrow> (\<exists>n. int (env_write E n) < buffer_size (conf p))"

lemma write_received_ready:
  "ready (write_received_data E k data p) = ready p \<or> ready (write_received_data E k data p) = - 1"
  by (simp add: write_received_data_def Let_def gettime_def)

lemma steady_request_ahead:
  assumes "request_ahead E k remaining n p = Inr q"
  shows "steady p q"
proof -
  obtain s where s: "seg_deref (offset_info p) (connection (offset_info p) k) = Inr s"
    using assms unfolding request_ahead_def Let_def by (rule bindR_InrE)
  then obtain b where b: "subseg s k = Some b"
    using assms unfolding request_ahead_def Let_def by (auto split: option.splits)
  consider (same) "q = p" | (ahead) dn p1 where "gb_setup_next_segment E k p = Inr (dn, p1)"
      "(if dn then request_segment E k p1 else Inr p1) = Inr q"
    using assms s b unfolding request_ahead_def Let_def by (auto elim!: bindR_InrE split: if_splits)
  then show ?thesis
  proof cases
    case ahead
    have "steady p1 q" using ahead(2) keeps_steady keeps_request_segment by (auto split: if_splits)
    then show ?thesis using steady_setup_next [OF ahead(1)] steady_trans by blast
  qed simp
qed

lemma finish_chunk_attached:
  assumes "finish_chunk k p = Inr q"
  shows "connection (offset_info p) k \<noteq> None"
proof
  assume "connection (offset_info p) k = None"
  then show False using assms by (simp add: finish_chunk_def finish_last_chunk_of_subseg_def)
qed

text \<open>The steps of \<open>receive\<close>.\<close>

lemma receive_cases:
  assumes r: "receive E k p = Inr q"
  obtains (failed) p1 p2 n data where "view p1 = view p" "view p2 = view p1"
      "exception_for_read n k p2 = (True, q)"
      "touch E k p = Inr p1" "read_socket E k (min (buffer_size (conf p)) (lastbyte (conn p k) - currentbyte (conn p k) + 1)) p1
         = Inr (n, data, p2)"
  | (received) p2 n data p4 where "view p2 = view p" "n = int (length data)"
      "n \<le> lastbyte (conn p k) - currentbyte (conn p k) + 1" "n \<le> buffer_size (conf p)"
      "request_ahead E k (lastbyte (conn p k) - currentbyte (conn p k) + 1) n (write_received_data E k data p2) = Inr p4"
      "(if lastbyte (conn p k) - currentbyte (conn p k) + 1 \<le> n then finish_chunk k p4
        else update_inorder_offset p4) = Inr q" "0 < n"
proof -
  let ?rem = "\<lambda>p. lastbyte (conn p k) - currentbyte (conn p k) + 1"
  let ?want = "\<lambda>p. if ?rem p \<ge> buffer_size (conf p) then buffer_size (conf p) else ?rem p"
  obtain p1 n data p2 where 1: "touch E k p = Inr p1"
    and 2: "read_socket E k (?want p1) p1 = Inr (n, data, p2)"
    and 3: "(let (failed, p3) = exception_for_read n k p2 in
         if failed then Inr p3
         else bindR (request_ahead E k (?rem p1) n (write_received_data E k data p3)) (\<lambda>p4.
                if ?rem p1 \<le> n then finish_chunk k p4 else update_inorder_offset p4)) = Inr q"
    using r unfolding receive_def Let_def [of "conn _ k"] Let_def [of "lastbyte _ - _ + 1"] Let_def [of "If _ _ _"]
    by (auto elim!: bindR_InrE)
  note v1 = view_touch [OF 1] and v2 = view_read_socket [OF 2]
  have rem: "?rem p1 = ?rem p" using view_place [OF v1, of k] by (simp add: place_def)
  obtain b p3 where e: "exception_for_read n k p2 = (b, p3)" by fastforce
  show thesis
  proof (cases b)
    case True
    have "conf p1 = conf p" using view_steady [OF v1] by (simp add: steady_def)
    then have "?want p1 = min (buffer_size (conf p)) (?rem p)" unfolding rem by auto
    then show thesis using failed [OF v1 v2 _ 1] e 3 2 True by simp
  next
    case False
    then have p3: "p3 = p2" "n \<noteq> - 1" using exception_for_read_passes [of n k p2 p3] e by simp_all
    have "n \<noteq> 0" using e False by (auto simp: exception_for_read_def Let_def split: if_splits)
    have n: "n = int (length data) \<and> n \<le> ?want p1" using read_socket_length [OF 2] p3 by simp
    then have pos: "0 < n" using \<open>n \<noteq> 0\<close> by simp
    have le: "n \<le> ?rem p" using n unfolding rem [symmetric] by (auto split: if_splits)
    have "conf p1 = conf p" using view_steady [OF v1] by (simp add: steady_def)
    then have buf: "n \<le> buffer_size (conf p)" using n by (auto split: if_splits)
    obtain p4 where "request_ahead E k (?rem p) n (write_received_data E k data p2) = Inr p4"
      "(if ?rem p \<le> n then finish_chunk k p4 else update_inorder_offset p4) = Inr q"
      using 3 e False p3 unfolding rem by (auto elim!: bindR_InrE)
    then show thesis using n le buf v1 v2 pos by (intro received [of p2 n data p4]) simp_all
  qed
qed

text \<open>With a server that takes ranges, receiving leaves the flag alone or gives up.\<close>

lemma receive_ready:
  assumes r: "receive E k p = Inr q" and sup: "supported (conn p LTE)"
  shows "ready q = ready p \<or> ready q = - 1"
  using r
proof (cases rule: receive_cases)
  case (failed p1 p2 n)
  then have "supported (conn p2 LTE)" "ready p2 = ready p" using sup by (simp_all add: view_def layout_def)
  with failed(3) show ?thesis using exception_ready by simp
next
  case (received p2 n data p4)
  have "ready p2 = ready p" using received(1) by (simp add: view_def layout_def)
  then have "ready p4 = ready p \<or> ready p4 = - 1"
    using steady_request_ahead [OF received(5)] write_received_ready [of E k data p2] by (simp add: steady_def)
  moreover have "keeps p4 q" using received(6) keeps_finish_chunk keeps_inorder by (auto split: if_splits)
  ultimately show ?thesis by (simp add: keeps_def)
qed

lemma receive_acct:
  assumes ok: "acct p" and r: "receive E k p = Inr q" and rates: "rates_ok q"
  shows "acct q \<or> ready q = - 1 \<and> short_writes E p"
  using r
proof (cases rule: receive_cases)
  case (failed p1 p2 n)
  have "acct p2" using ok by (simp only: view_acct [OF failed(1)] view_acct [OF failed(2)])
  then show ?thesis using exception_for_read_acct [OF failed(3)] by simp
next
  case (received p2 n data p4)
  let ?w = "write_received_data E k data p2"
  let ?rem = "lastbyte (conn p k) - currentbyte (conn p k) + 1"
  have k4: "keeps p4 q" using received(6) keeps_finish_chunk keeps_inorder by (auto split: if_splits)
  consider (full) "view ?w = view (advance k data p2)"
    | (short) n where "ready ?w = - 1" "env_write E n < length data"
    using write_received_cases [of E k data p2] by blast
  then show ?thesis
  proof cases
    case short
    then have "ready p4 = - 1" using steady_request_ahead [OF received(5)] by (simp add: steady_def)
    moreover have "int (env_write E n) < buffer_size (conf p)" using short(2) received(2,4) by simp
    ultimately show ?thesis using k4 by (auto simp: keeps_def short_writes_def)
  next
    case full
    have rates4: "rates_ok p4" using rates keeps_rates [OF k4] by simp
    have ok2: "acct p2" using ok by (simp only: view_acct [OF received(1)])
    have pl2: "currentbyte (conn p2 k) = currentbyte (conn p k)" "lastbyte (conn p2 k) = lastbyte (conn p k)"
      using view_place [OF received(1), of k] by (simp_all add: place_def)
    have "connection (offset_info ?w) k \<noteq> None"
    proof -
      obtain s where s: "seg_deref (offset_info ?w) (connection (offset_info ?w) k) = Inr s"
        using received(5) unfolding request_ahead_def Let_def by (rule bindR_InrE)
      then show ?thesis by (cases "connection (offset_info ?w) k") simp_all
    qed
    then have "connection (offset_info p2) k \<noteq> None" using full by (simp add: view_def layout_def)
    then obtain c where c: "current_chunk (offset_info p2) k = Some c" "lastbyte (conn p2 k) = last_byte c"
      using acct_current [OF ok2] by blast
    have "currentbyte (conn p2 k) + int (length data) \<le> last_byte c + 1"
      using received(2,3) pl2 c by simp
    with ok2 c(1) have "acct_but {k} (advance k data p2)" by (rule advance_acct)
    then have "acct_but {k} ?w" by (simp only: view_acct [OF full])
    from request_ahead_acct [OF this _ received(5) rates4]
    have a4: "acct_but {k} p4" "place p4 k = place ?w k" by simp_all
    have pl4: "currentbyte (conn p4 k) = currentbyte (conn p k) + n" "lastbyte (conn p4 k) = lastbyte (conn p k)"
      using a4(2) view_place [OF full, of k] pl2 received(2) by (simp_all add: place_def)
    show ?thesis
    proof (cases "?rem \<le> n")
      case False
      then have i: "update_inorder_offset p4 = Inr q" using received(6) by simp
      have "acct p4" using a4(1) pl4 False by (intro acct_not_at_end [of k]) simp_all
      then show ?thesis by (simp add: view_acct [OF view_update_inorder_offset [OF i]])
    next
      case True
      then have f: "finish_chunk k p4 = Inr q" using received(6) by simp
      have "connection (offset_info p4) k \<noteq> None"
        using finish_chunk_attached [OF f] .
      then obtain d where d: "current_chunk (offset_info p4) k = Some d" "lastbyte (conn p4 k) = last_byte d"
        using acct_current [OF a4(1)] by blast
      have "currentbyte (conn p4 k) = last_byte d + 1" using pl4 d(2) True received(3) by simp
      with a4(1) d(1) show ?thesis using f finish_chunk_acct by blast
    qed
  qed
qed

end
