(* ===== verification/Run_Laws.thy ===== *)
theory Run_Laws
  imports Turn_Laws Machine
begin

text \<open>
  The balance in every state that the download loop reaches. It is an invariant of the loop
  for every configuration, clock, network and player, as long as the shares that a turn hands out
  are not negative: each byte handed out is either written or assigned to exactly one connection.
  Only a short write loses it, and then the loop has given up (\<open>ready\<close> is \<open>-1\<close>).
\<close>

section \<open>One connection\<close>

definition intact :: "env \<Rightarrow> proc \<Rightarrow> bool" where
  "intact E p \<longleftrightarrow> supported (conn p LTE) \<and> (acct p \<or> ready p = - 1 \<and> short_writes E p)"

lemma short_writes_conf: "conf q = conf p \<Longrightarrow> short_writes E q \<longleftrightarrow> short_writes E p"
  by (simp add: short_writes_def)

lemma view_intact: "view q = view p \<Longrightarrow> intact E q \<longleftrightarrow> intact E p"
  using view_acct [of q p "{}"] view_steady [of q p] by (auto simp: intact_def steady_def short_writes_def)

lemma conf_exception: "exception_for_read n k p = (b, q)
  \<Longrightarrow> conf q = conf p \<and> g_size q = g_size p \<and> supported (conn q LTE) = supported (conn p LTE)"
proof -
  have close [simp]: "conf (conn_disconnect k (upd_conn k (\<lambda>c. c\<lparr>enabled := False\<rparr>) r)) = conf r"
      "g_size (conn_disconnect k (upd_conn k (\<lambda>c. c\<lparr>enabled := False\<rparr>) r)) = g_size r"
      "supported (conn (conn_disconnect k (upd_conn k (\<lambda>c. c\<lparr>enabled := False\<rparr>) r)) LTE) = supported (conn r LTE)" for r
    using view_steady [of "conn_disconnect k (upd_conn k (\<lambda>c. c\<lparr>enabled := False\<rparr>) r)" r]
    by (simp_all add: steady_def)
  assume "exception_for_read n k p = (b, q)"
  then show ?thesis by (auto simp: exception_for_read_def gb_message_def Let_def split: if_splits)
qed

lemma conf_write_received [simp]:
  "conf (write_received_data E k data p) = conf p" "g_size (write_received_data E k data p) = g_size p"
  "supported (conn (write_received_data E k data p) l) = supported (conn p l)"
  by (simp_all add: write_received_data_def Let_def gettime_def gb_message_def upd_conn_def)

lemma receive_conf:
  assumes "receive E k p = Inr q"
  shows "conf q = conf p \<and> g_size q = g_size p \<and> supported (conn q LTE) = supported (conn p LTE)"
  using assms
proof (cases rule: receive_cases)
  case (failed p1 p2 n)
  then show ?thesis
    using conf_exception [OF failed(3)] view_steady [of p1 p] view_steady [of p2 p1] by (simp add: steady_def)
next
  case (received p2 n data p4)
  have "keeps p4 q" using received(6) keeps_finish_chunk keeps_inorder by (auto split: if_splits)
  then show ?thesis
    using steady_request_ahead [OF received(5)] view_steady [OF received(1)] by (simp add: keeps_def steady_def)
qed

lemma handle_conn_conf:
  "handle_conn E fds k p = Inr q \<Longrightarrow> conf q = conf p \<and> g_size q = g_size p \<and> supported (conn q LTE) = supported (conn p LTE)"
  using receive_conf by (auto simp: handle_conn_def split: if_splits)

lemma handle_conn_intact:
  assumes ok: "intact E p" and r: "handle_conn E fds k p = Inr q" and rates: "rates_ok q"
  shows "intact E q"
proof (cases "receive E k p = Inr q")
  case True
  have sw: "short_writes E q = short_writes E p" using receive_conf [OF True] by (intro short_writes_conf) simp
  have sup: "supported (conn p LTE)" "supported (conn q LTE)" using ok receive_conf [OF True] by (simp_all add: intact_def)
  show ?thesis
  proof (cases "acct p")
    case True
    then show ?thesis
      using receive_acct [OF True \<open>receive E k p = Inr q\<close> rates] sw sup by (auto simp: intact_def)
  next
    case False
    then have "ready p = - 1" "short_writes E p" using ok by (simp_all add: intact_def)
    then show ?thesis using receive_ready [OF True sup(1)] sw sup by (simp add: intact_def)
  qed
next
  case False
  then have "q = p" using r by (simp add: handle_conn_def split: if_splits)
  then show ?thesis using ok by simp
qed

lemma handle_conn_ready:
  "handle_conn E fds k p = Inr q \<Longrightarrow> supported (conn p LTE) \<Longrightarrow> ready q = ready p \<or> ready q = - 1"
  using receive_ready by (auto simp: handle_conn_def split: if_splits)

section \<open>The goodputs of a turn\<close>

text \<open>
  A share is computed from the configured rates or from the measured goodputs, as C's \<open>int\<close>.
  The condition on a turn is that these are not negative when they are used: always so with
  configured rates, and with measured ones as long as no link is faster than \<open>INT_MAX\<close> bytes a second
  and the clock does not go back.
\<close>

fun paced_conns :: "env \<Rightarrow> int list \<Rightarrow> link list \<Rightarrow> proc \<Rightarrow> bool" where
  "paced_conns E fds [] p \<longleftrightarrow> True"
| "paced_conns E fds (k # ks) p \<longleftrightarrow>
     (case handle_conn E fds k p of Inl _ \<Rightarrow> True | Inr q \<Rightarrow> rates_ok q \<and> paced_conns E fds ks q)"

lemma handle_conns_intact:
  assumes "foldR (handle_conn E fds) ks p = Inr q" "paced_conns E fds ks p" "intact E p"
  shows "intact E q"
  using assms
proof (induction ks arbitrary: p)
  case (Cons k ks)
  then obtain r where r: "handle_conn E fds k p = Inr r" "foldR (handle_conn E fds) ks r = Inr q"
    by (auto elim!: bindR_InrE)
  then have "rates_ok r" "paced_conns E fds ks r" using Cons.prems(2) by simp_all
  then show ?case using Cons r handle_conn_intact by blast
qed simp

text \<open>The descriptors \<open>algo_general\<close> watches in the set that \<open>select\<close> returns.\<close>

definition watched :: "(link \<Rightarrow> bool) \<Rightarrow> proc \<Rightarrow> int list" where
  "watched sel p = map (\<lambda>k. c_fd (conn p k))
     (filter (\<lambda>k. enabled (conn p k) \<and> c_fd (conn p k) \<noteq> - 1 \<and> sel k) (conn_indices p))"

text \<open>The state in which the connections are handled: after the clock and the player were asked.\<close>

definition turn_start :: "env \<Rightarrow> proc \<Rightarrow> proc" where
  "turn_start E p = mark_qos_start_time E (snd (gettime E p))"

definition after_select :: "env \<Rightarrow> proc \<Rightarrow> proc" where
  "after_select E p = (turn_start E p)\<lparr>tick := Suc (tick (turn_start E p))\<rparr>"

definition paced :: "env \<Rightarrow> proc \<Rightarrow> bool" where
  "paced E p \<longleftrightarrow> (case env_select E (tick (turn_start E p)) of
       None \<Rightarrow> True
     | Some sel \<Rightarrow> paced_conns E (watched sel (after_select E p)) (conn_indices (after_select E p)) (after_select E p))"

lemma view_turn_start [simp]: "view (turn_start E p) = view p"
  by (simp add: turn_start_def)

lemma view_after_select [simp]: "view (after_select E p) = view p"
  by (simp add: after_select_def)

lemma algo_general_cases:
  assumes "algo_general E p = Inr q"
  obtains (idle) "finish_turn E (turn_start E p) = Inr q"
      "fold max (map (\<lambda>k. c_fd (conn (turn_start E p) k)) (conn_indices (turn_start E p))) 0 = 0"
  | (error) "env_select E (tick (turn_start E p)) = None" "q = (after_select E p)\<lparr>ready := - 1\<rparr>"
  | (handled) sel p3 where "env_select E (tick (turn_start E p)) = Some sel"
      "foldR (handle_conn E (watched sel (after_select E p))) (conn_indices (after_select E p)) (after_select E p) = Inr p3"
      "(if ready p3 \<noteq> 0 then Inr p3 else finish_turn E p3) = Inr q"
proof -
  obtain now p0 where g: "gettime E p = (now, p0)" by fastforce
  have start: "mark_qos_start_time E p0 = turn_start E p" by (simp add: turn_start_def g)
  note a = assms [unfolded algo_general_def g Let_def prod.case start, folded after_select_def]
  show thesis
  proof (cases "fold max (map (\<lambda>k. c_fd (conn (turn_start E p) k)) (conn_indices (turn_start E p))) 0 = 0")
    case True
    then show thesis using a idle by simp
  next
    case hifd: False
    show thesis
    proof (cases "env_select E (tick (turn_start E p))")
      case None
      then show thesis using a hifd error by simp
    next
      case (Some sel)
      then show thesis using a hifd handled unfolding watched_def by (auto elim!: bindR_InrE)
    qed
  qed
qed

section \<open>The end of a turn\<close>

lemma intact_check_one:
  assumes "check_one_conn E k p = Inr q"
  shows "(acct_but J p \<longrightarrow> acct_but J q) \<and> conf q = conf p \<and> g_size q = g_size p \<and> supported (conn q LTE) = supported (conn p LTE)"
  using view_check_one_conn [OF assms]
proof
  assume v: "view q = view p"
  then show ?thesis using view_steady [OF v] by (simp add: view_acct [OF v] steady_def)
next
  assume "ready q = - 1 \<and> view (q\<lparr>ready := ready p\<rparr>) = view p"
  then have v: "view (q\<lparr>ready := ready p\<rparr>) = view p" and r: "ready q = - 1" by simp_all
  have "acct_but J q = acct_but J p" using view_acct [OF v, of J] by simp
  then show ?thesis using view_steady [OF v] r by (simp add: steady_def)
qed

lemma intact_check_conn:
  assumes "check_conn E p = Inr q"
  shows "(acct_but J p \<longrightarrow> acct_but J q) \<and> conf q = conf p \<and> g_size q = g_size p \<and> supported (conn q LTE) = supported (conn p LTE)"
  using assms unfolding check_conn_def
  by (rule foldR_inv) (auto dest!: intact_check_one [where J = J])

lemma finish_turn_result:
  assumes "finish_turn E p = Inr q"
  obtains p1 f b where "check_conn E p = Inr p1" "view (q\<lparr>ready := ready p1\<rparr>) = view p1"
    "ready q = (if bytes_done q = g_size q then 1 else ready p1)"
proof -
  obtain p1 where c: "check_conn E p = Inr p1"
    and r: "(let (now, p2) = gettime E p1;
           bps = cast_int_x86 (of_ll (bytes_done p2 - g_start_byte p2) / (now - g_start_time p2));
           p3 = p2\<lparr>g_bytes_per_second := bps,
                   finish_time := cast_int_x86 (g_start_time p2 + of_ll (g_size p2 - g_start_byte p2) / of_ll bps)\<rparr>
       in Inr (if bytes_done p3 = g_size p3 then p3\<lparr>ready := 1\<rparr> else p3)) = (Inr q :: proc res)"
    using assms unfolding finish_turn_def by (rule bindR_InrE)
  have "view (q\<lparr>ready := ready p1\<rparr>) = view p1 \<and> ready q = (if bytes_done q = g_size q then 1 else ready p1)"
    using r by (auto simp: gettime_def Let_def view_def layout_def split: if_splits)
  then show thesis using that c by blast
qed

lemma finish_turn_acct:
  assumes ok: "acct p" and r: "finish_turn E p = Inr q"
  shows "acct q \<and> conf q = conf p \<and> g_size q = g_size p \<and> supported (conn q LTE) = supported (conn p LTE)"
proof -
  obtain p1 where c: "check_conn E p = Inr p1" and v: "view (q\<lparr>ready := ready p1\<rparr>) = view p1"
    and f: "ready q = (if bytes_done q = g_size q then 1 else ready p1)"
    using r by (rule finish_turn_result)
  note i = intact_check_conn [OF c, of "{}"]
  have a: "acct q = acct p1" using view_acct [OF v, of "{}"] by simp
  have cf: "conf q = conf p" "g_size q = g_size p" "supported (conn q LTE) = supported (conn p LTE)" using view_steady [OF v] i by (simp_all add: steady_def)
  then show ?thesis using a ok i by simp
qed

lemma handle_conns_conf:
  assumes "foldR (handle_conn E fds) ks p = Inr q"
  shows "conf q = conf p \<and> g_size q = g_size p \<and> supported (conn q LTE) = supported (conn p LTE)"
  using assms by (rule foldR_inv) (auto dest!: handle_conn_conf)

lemma handle_conns_ready:
  assumes "foldR (handle_conn E fds) ks p = Inr q" "supported (conn p LTE)"
  shows "ready q = ready p \<or> ready q = - 1"
proof -
  have "(ready q = ready p \<or> ready q = - 1) \<and> supported (conn q LTE)"
    using assms(1)
  proof (rule foldR_inv)
    show "(ready t = ready p \<or> ready t = - 1) \<and> supported (conn t LTE)"
      if "(ready s = ready p \<or> ready s = - 1) \<and> supported (conn s LTE)" "handle_conn E fds k s = Inr t" for k s t
      using that handle_conn_ready [OF that(2)] handle_conn_conf [OF that(2)] by auto
  qed (use assms(2) in simp)
  then show ?thesis ..
qed

lemma intact_gives_up: "intact E p \<Longrightarrow> intact E (p\<lparr>ready := - 1\<rparr>)"
  by (auto simp: intact_def short_writes_def)

lemma intact_not_ready: "intact E p \<Longrightarrow> ready p \<noteq> - 1 \<Longrightarrow> acct p"
  by (simp add: intact_def)

lemma acct_intact: "acct p \<Longrightarrow> supported (conn p LTE) \<Longrightarrow> intact E p"
  by (simp add: intact_def)

lemma intact_supported: "intact E p \<Longrightarrow> supported (conn p LTE)"
  by (simp add: intact_def)

lemma algo_general_intact:
  assumes ok: "intact E p" "ready p = 0" and r: "algo_general E p = Inr q" and rates: "paced E p"
  shows "intact E q \<and> conf q = conf p \<and> g_size q = g_size p \<and> supported (conn q LTE) = supported (conn p LTE)"
proof -
  have i: "intact E (turn_start E p)" "intact E (after_select E p)"
    using ok(1) by (simp_all only: view_intact [OF view_turn_start] view_intact [OF view_after_select])
  have "ready (turn_start E p) = 0" using ok(2) view_steady [OF view_turn_start] by (simp add: steady_def)
  then have start: "acct (turn_start E p)" using i(1) by (simp add: intact_not_ready)
  have c: "conf (turn_start E p) = conf p" "conf (after_select E p) = conf p"
    "g_size (turn_start E p) = g_size p" "g_size (after_select E p) = g_size p"
    "supported (conn (turn_start E p) LTE) = supported (conn p LTE)"
    "supported (conn (after_select E p) LTE) = supported (conn p LTE)"
    using view_steady [OF view_turn_start] view_steady [OF view_after_select] by (simp_all add: steady_def)
  from r show ?thesis
  proof (cases rule: algo_general_cases)
    case idle
    then show ?thesis using finish_turn_acct [OF start] c ok(1) by (simp add: acct_intact intact_supported)
  next
    case error
    then show ?thesis using intact_gives_up [OF i(2)] c by simp
  next
    case (handled sel p3)
    have "intact E p3" using handled(2) rates i(2)
      by (intro handle_conns_intact [OF handled(2)]) (simp_all add: paced_def handled(1))
    moreover have "conf p3 = conf p \<and> g_size p3 = g_size p \<and> supported (conn p3 LTE) = supported (conn p LTE)" using handle_conns_conf [OF handled(2)] c by simp
    ultimately show ?thesis
      using handled(3) finish_turn_acct [of p3 E q] by (auto simp: intact_not_ready intact_supported intro: acct_intact split: if_splits)
  qed
qed

lemma view_last_downloaded: "update_last_downloaded_byte p = Inr q \<Longrightarrow> view q = view p"
  by (auto simp: update_last_downloaded_byte_def elim!: bindR_InrE split: if_splits)

lemma loop_turn_intact:
  assumes ok: "intact E p" "ready p = 0" and r: "loop_turn E p = Inr q" and rates: "paced E p"
  shows "intact E q \<and> conf q = conf p \<and> g_size q = g_size p \<and> supported (conn q LTE) = supported (conn p LTE)"
proof -
  obtain p1 where 1: "algo_general E p = Inr p1" and 2: "update_last_downloaded_byte p1 = Inr q"
    using r unfolding loop_turn_def by (rule bindR_InrE)
  note v = view_last_downloaded [OF 2]
  show ?thesis
    using algo_general_intact [OF ok 1 rates] view_steady [OF v] by (simp add: view_intact [OF v] steady_def)
qed

text \<open>How a turn leaves the flag: at \<open>0\<close>, at \<open>1\<close> with as many bytes as the file has, or at \<open>-1\<close>.\<close>

lemma check_conn_ready:
  assumes "check_conn E p = Inr q"
  shows "ready q = ready p \<or> ready q = - 1"
proof -
  have one: "ready s = ready r \<or> ready s = - 1" if "check_one_conn E k r = Inr s" for k r s
    using view_check_one_conn [OF that] by (auto simp: view_def layout_def)
  show ?thesis using assms unfolding check_conn_def by (rule foldR_inv) (auto dest: one)
qed

lemma finish_turn_ready:
  assumes "finish_turn E p = Inr q"
  shows "ready q = ready p \<or> ready q = - 1 \<or> ready q = 1 \<and> bytes_done q = g_size q"
  using assms
proof (rule finish_turn_result)
  fix p1 assume "check_conn E p = Inr p1" "ready q = (if bytes_done q = g_size q then 1 else ready p1)"
  then show ?thesis using check_conn_ready by auto
qed

lemma loop_turn_ready:
  assumes r: "loop_turn E p = Inr q" and p: "ready p = 0" "supported (conn p LTE)"
  shows "ready q = 0 \<or> ready q = - 1 \<or> ready q = 1 \<and> bytes_done q = g_size q"
proof -
  obtain p1 where 1: "algo_general E p = Inr p1" and 2: "update_last_downloaded_byte p1 = Inr q"
    using r unfolding loop_turn_def by (rule bindR_InrE)
  have f: "ready (turn_start E p) = 0" "ready (after_select E p) = 0" "supported (conn (after_select E p) LTE)"
    using view_steady [OF view_turn_start] view_steady [OF view_after_select] p by (simp_all add: steady_def)
  from 1 have "ready p1 = 0 \<or> ready p1 = - 1 \<or> ready p1 = 1 \<and> bytes_done p1 = g_size p1"
  proof (cases rule: algo_general_cases)
    case idle
    then show ?thesis using finish_turn_ready [OF idle(1)] f(1) by auto
  next
    case (handled sel p3)
    then show ?thesis using handle_conns_ready [OF handled(2) f(3)] f(2) finish_turn_ready [of E p3 p1]
      by (auto split: if_splits)
  qed simp
  then show ?thesis using view_last_downloaded [OF 2] by (simp add: view_def layout_def)
qed

end
