(* ===== verification/Start_Laws.thy ===== *)
theory Start_Laws
  imports Run_Laws
begin

text \<open>
  The first segment sets up the balance, and the loop keeps it: the invariant as an instance of
  the machine interface, and what it means at the end of a download.
\<close>

section \<open>The first segment\<close>

lemma first_segment_bounds:
  assumes "first_segment_size n segments size_KB = Inr (m, cnt)" "0 \<le> n"
  shows "m \<le> n"
proof (cases "segments = 0")
  case True
  then show ?thesis using assms by (auto simp: first_segment_size_def elim!: bindR_InrE split: if_splits)
next
  case False
  then have m: "m = n sdiv segments" "segments \<noteq> 0"
    using assms by (auto simp: first_segment_size_def cdiv_def elim!: bindR_InrE split: if_splits)
  have "n div \<bar>segments\<bar> \<le> n"
    using assms(2) m(2) pos_imp_zdiv_nonneg_iff [of "\<bar>segments\<bar>" n]
      zdiv_mono2 [of n 1 "\<bar>segments\<bar>"] by simp
  moreover have "0 \<le> n div \<bar>segments\<bar>" using assms(2) m(2) by (simp add: pos_imp_zdiv_nonneg_iff)
  ultimately have "\<bar>n sdiv segments\<bar> \<le> n"
    using assms(2) m(2) by (auto simp: signed_divide_int_def abs_mult sgn_if)
  then show ?thesis using m assms(2) by linarith
qed

lemma assign_head_acct:
  assumes ok: "acct_but J p" and none: "connection (offset_info p) k = None" and r: "assign_head k p = Inr q"
  shows "acct_but J q \<and> (\<forall>l. l \<noteq> k \<longrightarrow> connection (offset_info q) l = connection (offset_info p) l)
    \<and> keeps p q"
proof -
  obtain s ss where s: "segs (offset_info p) = s # ss"
    using r by (cases "segs (offset_info p)") (simp_all add: assign_head_def)
  obtain lc where lc: "get_last_chunk (seg_chunks s) = Inr lc"
    using r s by (auto simp: assign_head_def elim!: bindR_InrE)
  define p1 where "p1 = (if last_byte lc = g_size p - 1
                      then upd_conn k (\<lambda>c. c\<lparr>last_segment_flag := True\<rparr>) p else p)"
  have v: "view p1 = view p" and o1: "offset_info p1 = offset_info p" by (simp_all add: p1_def)
  have ok1: "acct_but J p1" using ok by (simp only: view_acct [OF v])
  have k1: "keeps p p1" using v by (rule view_keeps)
  have r1: "(case subseg s k of
              None \<Rightarrow> Inr (upd_conn k (\<lambda>c. c\<lparr>currentbyte := g_size p, lastbyte := g_size p + 1\<rparr>) p1)
            | Some b \<Rightarrow>
                (case ss_chunks b of
                   [] \<Rightarrow> Inl NullDeref
                 | c # _ \<Rightarrow>
                     Inr (upd_conn k (\<lambda>x. x\<lparr>currentbyte := start_byte c, lastbyte := last_byte c\<rparr>)
                            (upd_off (\<lambda>i. i\<lparr>connection := (connection i)(k := Some (seg_id s))\<rparr>) p1)))) = Inr q"
    using r unfolding assign_head_def s lc list.case bindR_Inr Let_def p1_def [symmetric] .
  show ?thesis
  proof (cases "subseg s k")
    case None
    then have q: "q = upd_conn k (\<lambda>c. c\<lparr>currentbyte := g_size p, lastbyte := g_size p + 1\<rparr>) p1"
      using r1 by simp
    have "acct_but J q" unfolding q using ok1 by (rule clear_place_acct) (simp add: o1 none)
    then show ?thesis using k1 by (simp add: q o1)
  next
    case (Some b)
    then obtain c cs where c: "ss_chunks b = c # cs" and q: "q = aim k (seg_id s) c p1"
      using r1 by (cases "ss_chunks b") (simp_all add: aim_def set_connection_def)
    have "acct_but J q" unfolding q
      using ok1 none s Some c by (intro attach_acct) (simp_all add: o1)
    then show ?thesis using k1 by (simp add: q aim_def o1)
  qed
qed

text \<open>The state with the first segment cut and nothing assigned.\<close>

definition cut_first :: "proc \<Rightarrow> int \<Rightarrow> int \<Rightarrow> proc" where
  "cut_first p n cnt = p\<lparr>offset_info := empty_offset_info\<lparr>init_seg_size := n, num_segments := 1,
       segment_count := 1, last_seg_offset := n - 1,
       segs := [\<lparr>seg_id = 1, recovery_segment = False, seg_chunks = [mk_chunk 0 n], seg_size = n,
                 subseg = (\<lambda>_. None)\<rparr>]\<rparr>,
     conf := (conf p)\<lparr>num_of_segments := cnt\<rparr>\<rparr>"

definition nothing_yet :: "proc \<Rightarrow> bool" where
  "nothing_yet p \<longleftrightarrow> outfile p = Map.empty \<and> bytes_done p = 0"

lemma cut_first_acct:
  assumes "nothing_yet p" "conn_ok p WIFI" "0 < n" "n \<le> g_size p"
  shows "acct_with (mset [0..n - 1]) {} (cut_first p n cnt)"
proof -
  let ?p = "cut_first p n cnt"
  have cur: "current_chunk (offset_info ?p) k = None" for k
    by (simp add: current_chunk_def cut_first_def empty_offset_info_def)
  have "assigned (offset_info ?p) k = []" for k
    by (simp add: assigned_def cut_first_def)
  then have w: "work ?p k = {#}" for k by (simp add: work_def others_def cur)
  have "wf_segs (offset_info ?p)" "wf_conns (offset_info ?p)" "subs_ok (offset_info ?p)"
    using assms by (simp_all add: cut_first_def empty_offset_info_def wf_segs_def wf_conns_def subs_ok_def mk_chunk_def)
  then have "sound ?p"
    using assms by (simp add: sound_def) (simp add: cut_first_def empty_offset_info_def conn_ok_def)
  moreover have "balanced_with (mset [0..n - 1]) ?p"
    using assms(1) w by (simp add: balanced_with_def mset_upto [symmetric])
      (simp add: cut_first_def nothing_yet_def)
  ultimately show ?thesis by (simp add: acct_with_def aimed_def cur)
qed

lemma init_segment_acct:
  assumes r: "gb_init_segment_setup p = Inr q"
    and n: "first_segment_size (g_size p) (num_of_segments (conf p)) (fixed_segment_size_KB (conf p)) = Inr (n, cnt)"
      "0 < n"
    and size: "0 \<le> g_size p" and cok: "conn_ok p WIFI" and none: "nothing_yet p"
    and rates: "\<And>k. 0 \<le> initial_chunk_rate (conf p) k"
  shows "acct q \<and> ready q = ready p \<and> conf q = (conf p)\<lparr>num_of_segments := cnt\<rparr> \<and> g_size q = g_size p
    \<and> supported (conn q LTE) = supported (conn p LTE)"
proof -
  let ?p0 = "cut_first p n cnt"
  let ?i0 = "empty_offset_info\<lparr>init_seg_size := n\<rparr>"
  let ?sg = "\<lparr>seg_id = 1, recovery_segment = False, seg_chunks = [mk_chunk 0 n], seg_size = n, subseg = (\<lambda>_. None)\<rparr>"
  obtain i x p1 p2 bits where
    2: "add_new_segment ?i0 False (add_new_chunk [] 0 n) n = Inr (i, x)"
    and 3: "add_new_subsegment
              (p\<lparr>offset_info := i, conf := (conf p)\<lparr>num_of_segments := cnt\<rparr>\<rparr>) LTE
              (initial_chunk_rate (conf p) LTE) (initial_chunk_rate (conf p) WIFI)
              (fixed_subsegment_mode (conf p)) = Inr p1"
    and 4: "foldR assign_head (conn_indices p1) p1 = Inr p2"
    and q: "q = p2\<lparr>qos_bytes_per_second := bits sdiv 8, qos_bytes := 0\<rparr>"
    using r n(1) unfolding gb_init_segment_setup_def by (auto elim!: bindR_InrE)
  have wf0: "wf_segs ?i0" by (simp add: wf_segs_def empty_offset_info_def)
  have one: "sorting_chunks [mk_chunk 0 n] = [mk_chunk 0 n]" by (simp add: sorting_chunks_eq_sort_key)
  have eq: "add_new_segment ?i0 False (add_new_chunk [] 0 n) n = Inr (offset_info ?p0, 1)"
    using n(2) unfolding add_new_segment_Inr [OF wf0 add_new_chunk_not_Nil]
    by (simp add: add_new_chunk_def one cut_first_def empty_offset_info_def mk_chunk_def)
  have "i = offset_info ?p0" using 2 unfolding eq by simp
  then have p0: "p\<lparr>offset_info := i, conf := (conf p)\<lparr>num_of_segments := cnt\<rparr>\<rparr> = ?p0"
    by (simp add: cut_first_def)
  have le: "n \<le> g_size p" using first_segment_bounds [OF n(1) size] .
  have a0: "acct_with (mset [0..n - 1]) {} ?p0" using none cok n(2) le by (rule cut_first_acct)
  have bytes: "bytes_of (seg_chunks ?sg) = [0..n - 1]" by (simp add: mk_chunk_bytes)
  have sg: "segs (offset_info ?p0) = [] @ [?sg]" "seg_ok ?sg" "subseg ?sg = (\<lambda>_. None)"
    using n(2) by (simp_all add: cut_first_def seg_ok_def mk_chunk_def chunk_ok_def)
  have snd: "sound ?p0" "\<And>k. aimed {} ?p0 k" using a0 by (simp_all add: acct_with_def)
  have virt: "0 \<le> v" if "get_virtual_seg_size ?p0 LTE (seg_size ?sg) = Inr v" for v
    by (rule get_virtual_seg_size_nonneg [OF snd that]) (use n(2) sg in simp_all)
  have wf: "wf_segs (offset_info ?p0)" "conn_ok ?p0 WIFI" using snd(1) by (simp_all add: sound_def)
  have "acct p1 \<and> keeps ?p0 p1 \<and> connection (offset_info p1) = (\<lambda>_. None)"
  proof (rule add_new_subsegment_divides [OF 3 [unfolded p0] rates rates wf sg])
    show "0 \<le> v" if "get_virtual_seg_size ?p0 LTE (seg_size ?sg) = Inr v" for v using that by (rule virt)
  next
    fix sg' fast
    assume p1: "p1 = ?p0\<lparr>offset_info := (offset_info ?p0)\<lparr>segs := [] @ [sg']\<rparr>\<rparr>"
      and d: "seg_id sg' = seg_id ?sg" "seg_chunks sg' = seg_chunks ?sg"
        "sub_bytes sg' fast @ sub_bytes sg' (other fast) = bytes_of (seg_chunks ?sg)" "\<forall>j. sub_ok sg' j"
    have "acct_with (mset (bytes_of (seg_chunks ?sg))) {} ?p0" using a0 bytes by simp
    from hand_out [OF this sg(1,3) d]
    have "acct p1" unfolding p1 using n(2) by simp
    moreover have "connection (offset_info p1) = (\<lambda>_. None)"
      by (simp add: p1 cut_first_def empty_offset_info_def)
    ultimately show ?thesis by (simp add: p1)
  qed
  then have a1: "acct p1" "keeps ?p0 p1" "connection (offset_info p1) = (\<lambda>_. None)" by simp_all
  have "conn_ok p1 WIFI" using a1(1) by (simp add: acct_but_def sound_def)
  then obtain pm where 5: "assign_head LTE p1 = Inr pm" "assign_head WIFI pm = Inr p2"
    using 4 by (auto simp: conn_indices_dual elim!: bindR_InrE)
  have "acct pm \<and> connection (offset_info pm) WIFI = None \<and> keeps p1 pm"
    using assign_head_acct [OF a1(1) _ 5(1)] a1(3) by simp
  then have m: "acct pm" "connection (offset_info pm) WIFI = None" "keeps p1 pm" by simp_all
  have "acct p2 \<and> keeps pm p2" using assign_head_acct [OF m(1,2) 5(2)] by simp
  then have a2: "acct p2" "keeps ?p0 p2" using a1(2) m(3) keeps_trans by blast+
  have v: "view q = view p2" unfolding q by (simp add: view_def layout_def)
  have "acct q" using a2(1) by (simp only: view_acct [OF v])
  moreover have "keeps ?p0 q" using a2(2) v by (rule keeps_view_trans)
  ultimately show ?thesis by (auto simp: keeps_def cut_first_def)
qed

section \<open>The invariant of the loop\<close>

text \<open>A download that \<open>gb_init_segment_setup\<close> has just set up, with an empty file and a first segment
  that is not empty, from a server that takes ranges (\<open>gb_open\<close> comes here with no other) and
  configured shares that are not negative. The other options are free.\<close>

definition started :: "proc \<Rightarrow> bool" where
  "started q \<longleftrightarrow> (\<exists>p n cnt. gb_init_segment_setup p = Inr q
     \<and> first_segment_size (g_size p) (num_of_segments (conf p)) (fixed_segment_size_KB (conf p)) = Inr (n, cnt)
     \<and> 0 < n \<and> 0 \<le> g_size p \<and> conn_ok p WIFI \<and> supported (conn p LTE) \<and> nothing_yet p \<and> (\<forall>k. 0 \<le> initial_chunk_rate (conf p) k))"

lemma started_supported: "started q \<Longrightarrow> acct q \<and> supported (conn q LTE)"
  unfolding started_def using init_segment_acct by blast

lemma started_acct: "started q \<Longrightarrow> acct q"
  using started_supported by blast

lemma started_intact: "started q \<Longrightarrow> intact E q"
  using started_supported by (simp add: intact_def)

inductive paced_step :: "env \<Rightarrow> proc \<Rightarrow> proc \<Rightarrow> bool" for E where
  paced_turn: "ready p = 0 \<Longrightarrow> run p \<Longrightarrow> loop_turn E p = Inr q \<Longrightarrow> paced E p \<Longrightarrow> paced_step E p q"
| other_thread: "thread p k \<Longrightarrow> setup_thread E k p = Inr q \<Longrightarrow> paced_step E p q"
| told_to_stop: "paced_step E p (p\<lparr>run := False\<rparr>)"

lemma paced_run_step: "paced_step E p q \<Longrightarrow> run_step E p q"
  by (induction rule: paced_step.induct) (auto intro: run_step.intros)

lemma paced_step_intact:
  assumes step: "paced_step E p q" and ok: "intact E p"
  shows "intact E q \<and> conf q = conf p \<and> g_size q = g_size p \<and> supported (conn q LTE) = supported (conn p LTE)"
  using step
proof (cases rule: paced_step.cases)
  case paced_turn
  then show ?thesis using loop_turn_intact [OF ok] by blast
next
  case (other_thread k)
  then have v: "view q = view p" by (intro view_setup_thread)
  then show ?thesis using ok view_steady [OF v] by (simp add: view_intact [OF v] steady_def)
next
  case told_to_stop
  then have v: "view q = view p" by simp
  show ?thesis using ok view_steady [OF v] by (simp add: view_intact [OF v] steady_def)
qed

interpretation download: machine started "paced_step E" "intact E" for E
proof
  show "intact E s" if "started s" for s using that by (rule started_intact)
  show "intact E t" if "paced_step E s t" "intact E s" for s t
    using paced_step_intact [OF that] by blast
qed

text \<open>With configured shares every turn is paced, whatever the clock does.\<close>

definition fixed_rates :: "conf_t \<Rightarrow> bool" where
  "fixed_rates c \<longleftrightarrow> fixed_subsegment_mode c \<noteq> 0 \<and> (\<forall>k. 0 \<le> initial_chunk_rate c k)"

lemma fixed_rates_ok: "fixed_rates (conf p) \<Longrightarrow> rates_ok p"
  by (simp add: fixed_rates_def rates_ok_def)

lemma fixed_paced_conns: "fixed_rates (conf p) \<Longrightarrow> paced_conns E fds ks p"
proof (induction ks arbitrary: p)
  case (Cons k ks)
  show ?case
  proof (cases "handle_conn E fds k p")
    case (Inr q)
    then have "fixed_rates (conf q)" using handle_conn_conf [OF Inr] Cons.prems by simp
    then show ?thesis using Cons.IH fixed_rates_ok Inr by simp
  qed simp
qed simp

lemma fixed_paced: "fixed_rates (conf p) \<Longrightarrow> paced E p"
proof -
  assume "fixed_rates (conf p)"
  moreover have "conf (after_select E p) = conf p"
    using view_steady [OF view_after_select [of E p]] by (simp add: steady_def)
  ultimately show ?thesis by (simp add: paced_def fixed_paced_conns split: option.split)
qed

lemma fixed_step: "run_step E p q \<Longrightarrow> fixed_rates (conf p) \<Longrightarrow> paced_step E p q"
  by (erule run_step.cases) (auto intro: paced_step.intros fixed_paced)

section \<open>The end of a download\<close>

lemma acct_complete:
  assumes ok: "acct p" and full: "bytes_done p = g_size p"
  shows "dom (outfile p) = {0..<g_size p}" "work p k = {#}"
proof -
  let ?D = "dom (outfile p)" and ?l = "last_seg_offset (offset_info p)"
  have b: "finite ?D" "int (card ?D) = g_size p"
    and eq: "work p LTE + work p WIFI + mset_set ?D = mset_set {0..?l}"
    and l: "?l < g_size p" "0 \<le> ?l"
    using ok full by (simp_all add: acct_but_def balanced_def sound_def)
  have "mset_set ?D \<subseteq># mset_set {0..?l}" unfolding eq [symmetric] by simp
  then have sub: "?D \<subseteq> {0..?l}" using b(1) by (simp add: msubset_mset_set_iff)
  have "card {0..?l} \<le> card ?D" using b(2) l by simp
  then have D: "?D = {0..?l}" using sub by (intro card_seteq) simp_all
  moreover have "{0..?l} = {0..<g_size p}" using b(2) l unfolding D by auto
  ultimately show "dom (outfile p) = {0..<g_size p}" by simp
  have "work p LTE + work p WIFI = {#}" using eq unfolding D by simp
  then show "work p k = {#}" by (cases k) simp_all
qed

lemma acct_once:
  assumes ok: "acct p" and b: "0 \<le> b" "b \<le> last_seg_offset (offset_info p)"
  shows "count (work p LTE) b + count (work p WIFI) b + (if outfile p b = None then 0 else 1) = 1"
proof -
  let ?D = "dom (outfile p)" and ?l = "last_seg_offset (offset_info p)"
  have fin: "finite ?D" and eq: "work p LTE + work p WIFI + mset_set ?D = mset_set {0..?l}"
    using ok by (simp_all add: acct_but_def balanced_def)
  have "count (work p LTE + work p WIFI + mset_set ?D) b = 1" unfolding eq using b by simp
  then show ?thesis using fin by (auto simp: count_mset_set' domIff split: if_splits)
qed

end
