(* ===== verification/Progress_Laws.thy ===== *)
theory Progress_Laws
  imports Start_Laws
begin

text \<open>
  Progress: the count of received bytes never falls, and a turn in which a connection has data
  waiting for it makes it grow. As the count never exceeds the size of the file, this bounds the
  number of such turns.
\<close>

section \<open>Receiving\<close>

lemma view_bytes: "view q = view p \<Longrightarrow> bytes_done q = bytes_done p"
  by (simp add: view_def layout_def)

lemma keeps_bytes: "keeps p q \<Longrightarrow> bytes_done q = bytes_done p"
  by (simp add: keeps_def)

lemma exception_bytes:
  assumes "exception_for_read n k p = (b, q)"
  shows "bytes_done q = bytes_done p"
proof -
  have close: "bytes_done (conn_disconnect k (upd_conn k (\<lambda>c. c\<lparr>enabled := False\<rparr>) r)) = bytes_done r" for r
    by (rule view_bytes) simp
  show ?thesis
    using assms close by (auto simp: exception_for_read_def gb_message_def Let_def split: if_splits)
qed

lemma write_received_bytes:
  "ready (write_received_data E k data p) = - 1 \<and> bytes_done (write_received_data E k data p) = bytes_done p
   \<or> bytes_done (write_received_data E k data p) = bytes_done p + int (length data)"
  by (simp add: write_received_data_def Let_def gettime_def gb_message_def)

lemma receive_received_bytes:
  assumes "request_ahead E k r n (write_received_data E k data p) = Inr p4"
    and "(if c then finish_chunk k p4 else update_inorder_offset p4) = Inr q"
  shows "ready q = - 1 \<and> bytes_done q = bytes_done p \<or> bytes_done q = bytes_done p + int (length data)"
proof -
  have "keeps p4 q" using assms(2) keeps_finish_chunk keeps_inorder by (auto split: if_splits)
  then show ?thesis
    using steady_request_ahead [OF assms(1)] write_received_bytes [of E k data p] by (auto simp: keeps_def steady_def)
qed

lemma receive_bytes:
  assumes "receive E k p = Inr q"
  shows "bytes_done p \<le> bytes_done q"
  using assms
proof (cases rule: receive_cases)
  case (failed p1 p2 n data)
  then show ?thesis
    using exception_bytes [OF failed(3)] view_bytes [OF failed(1)] view_bytes [OF failed(2)] by simp
next
  case (received p2 n data p4)
  then show ?thesis
    using receive_received_bytes [OF received(5,6)] view_bytes [OF received(1)] by auto
qed

definition reads_succeed :: "env \<Rightarrow> bool" where
  "reads_succeed E \<longleftrightarrow> (\<forall>n. 0 \<le> env_read E n)"

lemma read_socket_data:
  assumes "read_socket E k n p = Inr (m, data, q)" "reads_succeed E" "0 < n" "rx p k \<noteq> []"
  shows "0 < m"
proof -
  have "\<not> env_read E (tick p) < 0" using assms(2) by (simp add: reads_succeed_def linorder_not_less)
  then have "m = int (min (min (nat n) (max 1 (nat (env_read E (tick p))))) (length (rx p k)))"
    using assms(1,3) by (simp add: read_socket_def Let_def min.commute)
  then show ?thesis using assms(3,4) by (simp add: less_max_iff_disj)
qed

lemma receive_gains:
  assumes r: "receive E k p = Inr q" and ok: "acct p" and at: "connection (offset_info p) k \<noteq> None"
    and env: "reads_succeed E" "0 < buffer_size (conf p)" "rx p k \<noteq> []"
  shows "bytes_done p < bytes_done q \<or> ready q = - 1"
  using r
proof (cases rule: receive_cases)
  case (failed p1 p2 n data)
  obtain c where c: "current_chunk (offset_info p) k = Some c" "lastbyte (conn p k) = last_byte c"
    using acct_current [OF ok at] by blast
  have "currentbyte (conn p k) \<le> lastbyte (conn p k)" using ok c by (auto simp: acct_but_def aimed_def)
  moreover have "rx p1 k = rx p k" using failed(4) by (auto simp: touch_def gettime_def upd_conn_def elim!: bindR_InrE)
  ultimately have "0 < n" using read_socket_data [OF failed(5) env(1)] env(2,3) by simp
  then show ?thesis using failed(3) by (simp add: exception_for_read_def Let_def)
next
  case (received p2 n data p4)
  then show ?thesis
    using receive_received_bytes [OF received(5,6)] view_bytes [OF received(1)] by auto
qed

section \<open>A turn\<close>

lemma handle_conn_bytes: "handle_conn E fds k p = Inr q \<Longrightarrow> bytes_done p \<le> bytes_done q"
  using receive_bytes by (auto simp: handle_conn_def split: if_splits)

lemma handle_conns_bytes:
  assumes "foldR (handle_conn E fds) ks p = Inr q"
  shows "bytes_done p \<le> bytes_done q"
  using assms by (rule foldR_inv) (auto dest!: handle_conn_bytes)

lemma check_conn_bytes:
  assumes "check_conn E p = Inr q"
  shows "bytes_done q = bytes_done p"
proof -
  have one: "bytes_done s = bytes_done r" if "check_one_conn E k r = Inr s" for k r s
    using view_check_one_conn [OF that] by (auto simp: view_def layout_def)
  show ?thesis using assms unfolding check_conn_def by (rule foldR_inv) (auto dest!: one)
qed

lemma finish_turn_bytes:
  assumes "finish_turn E p = Inr q"
  shows "bytes_done q = bytes_done p"
  using assms
proof (rule finish_turn_result)
  fix p1 assume "check_conn E p = Inr p1" "view (q\<lparr>ready := ready p1\<rparr>) = view p1"
  then show ?thesis using check_conn_bytes [of E p p1] view_bytes [of "q\<lparr>ready := ready p1\<rparr>" p1] by simp
qed

lemma loop_turn_bytes:
  assumes "loop_turn E p = Inr q"
  shows "bytes_done p \<le> bytes_done q"
proof -
  obtain p1 where 1: "algo_general E p = Inr p1" and 2: "update_last_downloaded_byte p1 = Inr q"
    using assms unfolding loop_turn_def by (rule bindR_InrE)
  have s: "bytes_done (turn_start E p) = bytes_done p" "bytes_done (after_select E p) = bytes_done p"
    using view_bytes view_turn_start view_after_select by blast+
  from 1 have "bytes_done p \<le> bytes_done p1"
  proof (cases rule: algo_general_cases)
    case idle
    then show ?thesis using finish_turn_bytes s by simp
  next
    case error
    then show ?thesis using s by simp
  next
    case (handled sel p3)
    have "bytes_done p1 = bytes_done p3" using handled(3) finish_turn_bytes by (auto split: if_splits)
    then show ?thesis using handle_conns_bytes [OF handled(2)] s by simp
  qed
  then show ?thesis using view_bytes [OF view_last_downloaded [OF 2]] by simp
qed

text \<open>
  In this turn \<open>select\<close> reports a connection that is in the middle of a subsegment and has data
  waiting; WiFi counts when LTE is not reported, as LTE is served first.
\<close>

definition delivers :: "env \<Rightarrow> proc \<Rightarrow> bool" where
  "delivers E p \<longleftrightarrow> (\<exists>sel k. env_select E (tick (turn_start E p)) = Some sel \<and> k \<in> set (conn_indices p)
     \<and> enabled (conn p k) \<and> 0 < c_fd (conn p k) \<and> sel k \<and> connection (offset_info p) k \<noteq> None
     \<and> rx p k \<noteq> [] \<and> (k = WIFI \<longrightarrow> c_fd (conn p LTE) \<notin> set (watched sel p)))"

lemma after_select_fields:
  "conn (after_select E p) = conn p" "rx (after_select E p) = rx p" "conf (after_select E p) = conf p"
  "offset_info (after_select E p) = offset_info p" "conn_indices (after_select E p) = conn_indices p"
  "conn (turn_start E p) = conn p" "conn_indices (turn_start E p) = conn_indices p"
  "watched sel (after_select E p) = watched sel p"
  by (simp_all add: after_select_def turn_start_def mark_qos_start_time_def gettime_def Let_def
      get_cur_player_pos_def conn_indices_def conn_ok_def watched_def)

lemma handle_conns_gain:
  assumes r: "foldR (handle_conn E fds) (k # ks) p = Inr q" and ok: "acct p"
    and on: "enabled (conn p k)" "c_fd (conn p k) \<noteq> - 1" "c_fd (conn p k) \<in> set fds"
    and at: "connection (offset_info p) k \<noteq> None"
    and env: "reads_succeed E" "0 < buffer_size (conf p)" "rx p k \<noteq> []" and sup: "supported (conn p LTE)"
  shows "bytes_done p < bytes_done q \<or> ready q = - 1"
proof -
  obtain s where s: "receive E k p = Inr s" "foldR (handle_conn E fds) ks s = Inr q"
    using r on by (auto simp: handle_conn_def elim!: bindR_InrE)
  have "bytes_done p < bytes_done s \<or> ready s = - 1" using s(1) ok at env by (rule receive_gains)
  then show ?thesis using handle_conns_bytes [OF s(2)] handle_conns_ready [OF s(2)] sup receive_conf [OF s(1)] by auto
qed

lemma loop_turn_gains:
  assumes r: "loop_turn E p = Inr q" and ok: "acct p" "supported (conn p LTE)" and d: "delivers E p"
    and env: "reads_succeed E" "0 < buffer_size (conf p)"
  shows "bytes_done p < bytes_done q \<or> ready q = - 1"
proof -
  let ?p = "after_select E p"
  obtain p1 where 1: "algo_general E p = Inr p1" and 2: "update_last_downloaded_byte p1 = Inr q"
    using r unfolding loop_turn_def by (rule bindR_InrE)
  obtain sel k where sel: "env_select E (tick (turn_start E p)) = Some sel" and k: "k \<in> set (conn_indices p)"
    "enabled (conn p k)" "0 < c_fd (conn p k)" "sel k" "connection (offset_info p) k \<noteq> None" "rx p k \<noteq> []"
    and first: "k = WIFI \<Longrightarrow> c_fd (conn p LTE) \<notin> set (watched sel p)"
    using d unfolding delivers_def by blast
  have fold: "fold max (map (\<lambda>k. c_fd (conn p k)) (conn_indices p)) 0 \<noteq> 0"
    using k(1,3) by (cases k) (auto simp: conn_indices_def split: if_splits)
  from 1 obtain p3 where
    3: "foldR (handle_conn E (watched sel p)) (conn_indices p) ?p = Inr p3"
    and 4: "(if ready p3 \<noteq> 0 then Inr p3 else finish_turn E p3) = Inr p1"
    by (cases rule: algo_general_cases) (use fold sel in \<open>auto simp: after_select_fields\<close>)
  have vp: "view ?p = view p" by simp
  have ok': "acct ?p" "supported (conn ?p LTE)"
    using ok view_steady [OF vp] by (simp_all only: view_acct [OF vp] steady_def)
  have fd: "c_fd (conn p k) \<in> set (watched sel p)" using k by (auto simp: watched_def)
  have "\<exists>ks. foldR (handle_conn E (watched sel p)) (k # ks) ?p = Inr p3"
  proof (cases k)
    case LTE
    then obtain ks where "conn_indices p = k # ks" using k(1) by (auto simp: conn_indices_def split: if_splits)
    then show ?thesis using 3 by metis
  next
    case WIFI
    then have "conn_indices p = [LTE, WIFI]" using k(1) by (intro conn_indices_dual) (simp add: conn_indices_def split: if_splits)
    moreover have "handle_conn E (watched sel p) LTE ?p = Inr ?p"
      using first [OF WIFI] by (simp add: handle_conn_def after_select_fields)
    ultimately have "foldR (handle_conn E (watched sel p)) [WIFI] ?p = Inr p3" using 3 by simp
    then show ?thesis using WIFI by blast
  qed
  then obtain ks where "foldR (handle_conn E (watched sel p)) (k # ks) ?p = Inr p3" by blast
  then have "bytes_done ?p < bytes_done p3 \<or> ready p3 = - 1"
    using ok' k fd env by (intro handle_conns_gain) (simp_all add: after_select_fields)
  moreover have "bytes_done p1 = bytes_done p3" "ready p3 = - 1 \<longrightarrow> ready p1 = - 1"
    using 4 finish_turn_bytes by (auto split: if_splits)
  moreover have "bytes_done ?p = bytes_done p" using vp by (rule view_bytes)
  moreover have "bytes_done q = bytes_done p1 \<and> ready q = ready p1"
    using view_last_downloaded [OF 2] by (simp add: view_def layout_def)
  ultimately show ?thesis by auto
qed

section \<open>The loop\<close>

lemma acct_bytes_bound: "acct p \<Longrightarrow> bytes_done p \<le> g_size p"
proof -
  assume ok: "acct p"
  let ?D = "dom (outfile p)" and ?l = "last_seg_offset (offset_info p)"
  have b: "finite ?D" "bytes_done p = int (card ?D)" and l: "?l < g_size p" "0 \<le> ?l"
    and eq: "work p LTE + work p WIFI + mset_set ?D = mset_set {0..?l}"
    using ok by (simp_all add: acct_but_def balanced_def sound_def)
  have "mset_set ?D \<subseteq># mset_set {0..?l}" unfolding eq [symmetric] by simp
  then have "?D \<subseteq> {0..?l}" using b(1) by (simp add: msubset_mset_set_iff)
  then have "card ?D \<le> card {0..?l}" by (intro card_mono) simp_all
  then show ?thesis using b(2) l by simp
qed

text \<open>The turns of the loop while it runs.\<close>

definition turn_of :: "env \<Rightarrow> proc \<Rightarrow> proc \<Rightarrow> bool" where
  "turn_of E p q \<longleftrightarrow> ready p = 0 \<and> run p \<and> loop_turn E p = Inr q"

lemma run_loop_stop: "ready p \<noteq> 0 \<or> \<not> run p \<Longrightarrow> \<exists>r. run_loop n E p = Some r"
  by (subst run_loop.simps) simp

lemma run_loop_turn:
  "ready p = 0 \<Longrightarrow> run p \<Longrightarrow>
   run_loop (Suc n) E p = (case loop_turn E p of Inl e \<Rightarrow> Some (Inl e) | Inr q \<Rightarrow> run_loop n E q)"
  by (subst run_loop.simps) simp

text \<open>After the loop everything received counts as downloaded.\<close>

definition all_downloaded :: "proc \<Rightarrow> proc" where
  "all_downloaded p = p\<lparr>last_downloaded_byte := g_size p\<rparr>"

lemma run_loop_over: "ready p \<noteq> 0 \<or> \<not> run p \<Longrightarrow> run_loop n E p = Some (Inr (all_downloaded p))"
  by (subst run_loop.simps) (auto simp: all_downloaded_def update_last_downloaded_byte_def)

text \<open>How the loop ends: with the whole file, giving up, stopped from outside, or in a turn that fails.\<close>

definition ends :: "env \<Rightarrow> proc \<Rightarrow> proc res \<Rightarrow> bool" where
  "ends E p r \<longleftrightarrow> (case r of
       Inr r \<Rightarrow> (\<exists>q. (turn_of E)\<^sup>*\<^sup>* p q \<and> r = all_downloaded q
         \<and> (ready q = 1 \<and> dom (outfile q) = {0..<g_size q} \<or> ready q = - 1 \<or> ready q = 0 \<and> \<not> run q))
     | Inl e \<Rightarrow> (\<exists>q. (turn_of E)\<^sup>*\<^sup>* p q \<and> ready q = 0 \<and> run q \<and> loop_turn E q = Inl e))"

lemma ends_here:
  "ready p = 1 \<and> dom (outfile p) = {0..<g_size p} \<or> ready p = - 1 \<or> ready p = 0 \<and> \<not> run p
   \<Longrightarrow> ends E p (Inr (all_downloaded p))"
  unfolding ends_def by auto

lemma ends_step: "turn_of E p q \<Longrightarrow> ends E q r \<Longrightarrow> ends E p r"
proof -
  assume t: "turn_of E p q" and e: "ends E q r"
  have "(turn_of E)\<^sup>*\<^sup>* p s" if "(turn_of E)\<^sup>*\<^sup>* q s" for s
    using t that by (rule converse_rtranclp_into_rtranclp)
  with e show "ends E p r" unfolding ends_def by (cases r; simp only: sum.case) blast+
qed

lemma run_loop_returns:
  assumes "\<And>q. (turn_of E)\<^sup>*\<^sup>* p q \<Longrightarrow> ready q = 0 \<Longrightarrow> run q \<Longrightarrow> delivers E q \<and> paced E q"
    and "intact E p" "ready p = 0 \<or> ready p = - 1 \<or> ready p = 1 \<and> bytes_done p = g_size p"
    and "reads_succeed E" "0 < buffer_size (conf p)" "ready p = 0 \<Longrightarrow> g_size p - bytes_done p < int n"
  shows "\<exists>r. run_loop n E p = Some r \<and> ends E p r"
  using assms
proof (induction n arbitrary: p)
  case (0 p)
  have "ready p \<noteq> 0" using 0 acct_bytes_bound [of p] by (auto simp: intact_def)
  then have "ready p = - 1 \<or> ready p = 1 \<and> acct p" using 0 by (auto simp: intact_def)
  then have "ends E p (Inr (all_downloaded p))" using 0(3) acct_complete(1) by (intro ends_here) auto
  then show ?case using run_loop_over [of p 0 E] \<open>ready p \<noteq> 0\<close> by blast
next
  case (Suc n p)
  show ?case
  proof (cases "ready p \<noteq> 0 \<or> \<not> run p")
    case True
    have "ready p = - 1 \<or> ready p = 0 \<or> ready p = 1 \<and> acct p" using Suc.prems(2,3) by (auto simp: intact_def)
    then have "ends E p (Inr (all_downloaded p))" using Suc.prems(3) acct_complete(1) True by (intro ends_here) auto
    then show ?thesis using run_loop_over [OF True] by blast
  next
    case False
    then have loop: "ready p = 0" "run p" by simp_all
    show ?thesis
    proof (cases "loop_turn E p")
      case (Inl e)
      then have "ends E p (Inl e)" using loop by (auto simp: ends_def)
      then show ?thesis using run_loop_turn [OF loop] Inl by simp
    next
      case (Inr q)
      have t: "turn_of E p q" using loop Inr by (simp add: turn_of_def)
      have ok: "acct p" "supported (conn p LTE)" using Suc.prems(2) loop by (simp_all add: intact_def)
      have d: "delivers E p" "paced E p" using Suc.prems(1) [of p] loop by simp_all
      note i = loop_turn_intact [OF Suc.prems(2) loop(1) Inr d(2)]
      have g: "bytes_done p < bytes_done q \<or> ready q = - 1"
        using loop_turn_gains [OF Inr ok d(1)] Suc.prems(4,5) by simp
      have "\<exists>r. run_loop n E q = Some r \<and> ends E q r"
      proof (rule Suc.IH)
        show "delivers E r \<and> paced E r" if "(turn_of E)\<^sup>*\<^sup>* q r" "ready r = 0" "run r" for r
          using Suc.prems(1) that t by (meson converse_rtranclp_into_rtranclp)
        show "ready q = 0 \<or> ready q = - 1 \<or> ready q = 1 \<and> bytes_done q = g_size q"
          using Inr loop(1) ok(2) by (rule loop_turn_ready)
        show "g_size q - bytes_done q < int n" if "ready q = 0"
          using that g i Suc.prems(6) [OF loop(1)] by simp
      qed (use i Suc.prems(4,5) in simp_all)
      then show ?thesis using run_loop_turn [OF loop] Inr ends_step [OF t] by auto
    qed
  qed
qed

section \<open>Runs with other threads\<close>

text \<open>The step is a turn with data.\<close>

definition data_turn :: "env \<Rightarrow> proc \<Rightarrow> proc \<Rightarrow> bool" where
  "data_turn E p q \<longleftrightarrow> turn_of E p q \<and> delivers E p"

text \<open>Blocks can be read: no read fails, and the buffer has room.\<close>

definition readable :: "env \<Rightarrow> conf_t \<Rightarrow> bool" where
  "readable E c \<longleftrightarrow> reads_succeed E \<and> 0 < buffer_size c"

text \<open>What has been received; a loop that has given up receives no more.\<close>

definition received :: "proc \<Rightarrow> int" where
  "received p = (if ready p = - 1 then g_size p else bytes_done p)"

lemma received_bound: "intact E p \<Longrightarrow> received p \<le> g_size p"
  using acct_bytes_bound by (auto simp: received_def intact_def)

lemma run_step_bytes:
  assumes "run_step E p q"
  shows "bytes_done p \<le> bytes_done q"
  using assms
proof (cases rule: run_step.cases)
  case turn
  then show ?thesis by (intro loop_turn_bytes)
next
  case (thread_runs k)
  then show ?thesis using view_bytes [OF view_setup_thread [OF thread_runs(2)]] by simp
qed simp

lemma run_step_over:
  assumes "run_step E p q" "ready p \<noteq> 0"
  shows "ready q = ready p"
  using assms(1)
proof (cases rule: run_step.cases)
  case (thread_runs k)
  then show ?thesis using view_steady [OF view_setup_thread [OF thread_runs(2)]] by (simp add: steady_def)
qed (use assms(2) in simp_all)

interpretation arriving: progress_machine "\<lambda>p. started p \<and> readable E (conf p)" "paced_step E"
  "\<lambda>p. intact E p \<and> readable E (conf p)" received g_size "data_turn E" "\<lambda>p. ready p \<noteq> 0" for E
proof
  show "intact E s \<and> readable E (conf s)" if "started s \<and> readable E (conf s)" for s
    using that started_intact by blast
  have keep: "intact E t \<and> conf t = conf s \<and> g_size t = g_size s"
    if "paced_step E s t" "intact E s \<and> readable E (conf s)" for s t
    using that paced_step_intact [of E s t] by simp
  show "intact E t \<and> readable E (conf t)" if "paced_step E s t" "intact E s \<and> readable E (conf s)" for s t
    using keep [OF that] that(2) by simp
  show "g_size t = g_size s" if "paced_step E s t" "intact E s \<and> readable E (conf s)" for s t
    using keep [OF that] by simp
  show "received s \<le> received t" if r: "paced_step E s t" and ok: "intact E s \<and> readable E (conf s)" for s t
  proof (cases "ready s = - 1")
    case True
    then show ?thesis using run_step_over [OF paced_run_step [OF r]] keep [OF r ok] by (simp add: received_def)
  next
    case False
    then show ?thesis
      using run_step_bytes [OF paced_run_step [OF r]] keep [OF r ok] acct_bytes_bound [of s] ok
      by (simp add: received_def intact_def)
  qed
  show "received s \<le> g_size s" if "intact E s \<and> readable E (conf s)" for s using that received_bound by blast
  show "ready t \<noteq> 0" if "paced_step E s t" "ready s \<noteq> 0" for s t
    using that run_step_over [OF paced_run_step] by metis
  show "\<not> ready s \<noteq> 0" if "data_turn E s t" for s t using that by (simp add: data_turn_def turn_of_def)
  show "received s < received t \<or> ready t \<noteq> 0"
    if "intact E s \<and> readable E (conf s)" "data_turn E s t" for s t
    using that loop_turn_gains [of E s t] by (auto simp: data_turn_def turn_of_def readable_def intact_def received_def)
qed

end
