(* ===== verification/Run_Theorems.thy ===== *)
theory Run_Theorems
  imports Progress_Laws Samples
begin

text \<open>
  The properties of whole downloads: the balance of bytes in every reachable state, the file at
  the end, and the operations that keep the balance. The witnesses run the model on a file of 4
  bytes that two connections download in one turn, with the shares of the default configuration, and on one of 8 bytes whose second
  half is requested in advance.
\<close>

section \<open>Samples\<close>

definition small_file :: proc where
  "small_file = sample\<lparr>conf := sample_conf\<lparr>fixed_subsegment_mode := 0\<rparr>, g_size := 4, rx := (\<lambda>k. if k = LTE then ''abc'' else ''d''),
     conn := (\<lambda>k. sample_conn\<lparr>c_fd := (if k = LTE then 5 else 6), c_size := 4\<rparr>)\<rparr>"

definition part :: "link \<Rightarrow> chunk" where
  "part k = (if k = LTE then \<lparr>start_byte = 0, last_byte = 2, csize = 3\<rparr>
             else \<lparr>start_byte = 3, last_byte = 3, csize = 1\<rparr>)"

definition small_started :: proc where
  "small_started = small_file\<lparr>
     conf := (conf small_file)\<lparr>num_of_segments := 1\<rparr>,
     offset_info := empty_offset_info\<lparr>init_seg_size := 4, num_segments := 1, segment_count := 1,
       last_seg_offset := 3, connection := (\<lambda>_. Some 1),
       segs := [\<lparr>seg_id = 1, recovery_segment = False,
         seg_chunks = [\<lparr>start_byte = 0, last_byte = 3, csize = 4\<rparr>], seg_size = 4,
         subseg = (\<lambda>k. Some \<lparr>ss_chunks = [part k], ss_size = csize (part k)\<rparr>)\<rparr>]\<rparr>,
     conn := (\<lambda>k. sample_conn\<lparr>c_fd := (if k = LTE then 5 else 6), c_size := 4, last_segment_flag := True,
       currentbyte := start_byte (part k), lastbyte := last_byte (part k)\<rparr>)\<rparr>"

lemmas c_arith_defs = chk_ll_def in_ll_def ll_min_def ll_max_def chk_int_def in_int_def int_min_def
  int_max_def cmod_def cdiv_def to_int_def signed_divide_int_def signed_modulo_int_def cast_ll_def
  trunc_rat_def cast_int_def of_ll_def cast_int_x86_def

lemmas init_defs = gb_init_segment_setup_def first_segment_size_def add_new_segment_def
  empty_offset_info_def add_new_chunk_def mk_chunk_def conn_indices_def conn_ok_def upd_conn_def
  upd_off_def assign_head_def add_new_subsegment_def get_fast_conn_index_def target_share_def
  get_virtual_seg_size_def conn_at_def upd_seg_def divide_chunks_def ratio_share_def

lemmas receive_defs = handle_conn_def receive_def touch_def gettime_def read_socket_def
  exception_for_read_def write_received_data_def request_ahead_def seg_at_def
  gb_setup_next_segment_def SEND_PIPELINE_REQ_THRS_FACTOR_def finish_chunk_def
  finish_last_chunk_of_subseg_def delete_subsegment_def finish_downloading_subseg_def
  set_connection_def conn_disconnect_def PROTO_HTTP_def upd_http_def http_disconnect_def
  delete_finished_heads.simps delete_finished_head_segment_def seg_finished_def
  update_inorder_offset_def mark_idle_def find_inorder_offset_def is_using_only_one_link_def
  min_start_of_def conn_at_def upd_conn_def upd_off_def upd_seg_def conn_indices_def conn_ok_def
  empty_offset_info_def

lemmas turn_defs = loop_turn_def algo_general_def mark_qos_start_time_def get_cur_player_pos_def
  finish_turn_def check_conn_def check_one_conn_def update_last_downloaded_byte_def

lemmas small_defs = small_started_def small_file_def part_def sample_defs

lemma small_init: "gb_init_segment_setup small_file = Inr small_started"
  by (simp add: small_defs init_defs c_arith_defs Let_def fun_eq_iff) (metis link.exhaust)

lemma small_is_started: "started small_started"
  unfolding started_def
  by (intro exI [of _ small_file] exI [of _ 4] exI [of _ 1])
     (simp add: small_init, simp add: small_defs first_segment_size_def c_arith_defs conn_ok_def nothing_yet_def)

lemma small_paced: "paced sample_env small_started"
  by (simp add: paced_def turn_start_def after_select_def watched_def turn_defs receive_defs small_defs rates_ok_def
      to_int_def c_arith_defs Let_def cong: bindR_weak_cong)

lemma small_writes: "\<not> short_writes sample_env small_started"
  by (simp add: small_defs short_writes_def)

lemma small_turn:
  "\<exists>q. loop_turn sample_env small_started = Inr q \<and> bytes_done q = 4 \<and> g_size q = 4
    \<and> last_seg_offset (offset_info q) = 3 \<and> ready q = 1"
  by (simp add: turn_defs receive_defs small_defs c_arith_defs Let_def cong: bindR_weak_cong)

lemma small_receive: "\<exists>q. receive sample_env LTE small_started = Inr q \<and> rates_ok q"
  by (simp add: rates_ok_def to_int_def receive_defs small_defs c_arith_defs Let_def cong: bindR_weak_cong)

text \<open>A file of 8 bytes in two segments, and one of 2000 bytes with slow Wi-Fi and recovery on.\<close>

definition half_started :: proc where
  "half_started = small_started\<lparr>g_size := 8, conf := sample_conf\<lparr>num_of_segments := 2\<rparr>,
     conn := (\<lambda>k. (conn small_started k)\<lparr>c_size := 8, last_segment_flag := False\<rparr>)\<rparr>"

definition half_file :: proc where
  "half_file = small_file\<lparr>g_size := 8, conf := sample_conf\<lparr>num_of_segments := 2\<rparr>,
     conn := (\<lambda>k. (conn small_file k)\<lparr>c_size := 8\<rparr>)\<rparr>"

lemma half_init: "gb_init_segment_setup half_file = Inr half_started"
  by (simp add: half_started_def half_file_def small_defs init_defs c_arith_defs Let_def fun_eq_iff) (metis link.exhaust)

definition slow_file :: proc where
  "slow_file = sample\<lparr>g_size := 8000, conf := sample_conf\<lparr>num_of_segments := 2, recovery_mode := 1\<rparr>,
     conn := (\<lambda>k. sample_conn\<lparr>c_size := 8000, c_fd := (if k = LTE then 5 else 6), 
          c_bytes_per_second := (if k = LTE then 300 else 1)\<rparr>)\<rparr>"

definition slow_part :: "link \<Rightarrow> chunk" where
  "slow_part k = (if k = LTE then \<lparr>start_byte = 0, last_byte = 2999, csize = 3000\<rparr>
             else \<lparr>start_byte = 3000, last_byte = 3999, csize = 1000\<rparr>)"

definition slow_started :: proc where
  "slow_started = slow_file\<lparr>
     offset_info := empty_offset_info\<lparr>init_seg_size := 4000, num_segments := 1, segment_count := 1,
       last_seg_offset := 3999, connection := (\<lambda>_. Some 1),
       segs := [\<lparr>seg_id = 1, recovery_segment = False,
         seg_chunks = [\<lparr>start_byte = 0, last_byte = 3999, csize = 4000\<rparr>], seg_size = 4000,
         subseg = (\<lambda>k. Some \<lparr>ss_chunks = [slow_part k], ss_size = csize (slow_part k)\<rparr>)\<rparr>]\<rparr>,
     conn := (\<lambda>k. sample_conn\<lparr>c_size := 8000, c_fd := (if k = LTE then 5 else 6),
       c_bytes_per_second := (if k = LTE then 300 else 1),
       currentbyte := start_byte (slow_part k), lastbyte := last_byte (slow_part k)\<rparr>)\<rparr>"

lemmas slow_defs = slow_started_def slow_file_def slow_part_def sample_defs

lemma slow_init: "gb_init_segment_setup slow_file = Inr slow_started"
  by (simp add: slow_defs init_defs c_arith_defs Let_def fun_eq_iff) (metis link.exhaust)

lemmas setup_defs = gb_setup_next_segment_def get_conn_order_case_def gb_update_goodput_def
  measure_goodput_def reset_bytes_done_start_time_def reset_conn_counter_def perform_recovery_def
  setup_segment_def gb_determine_next_segment_size_def is_using_only_one_link_def absorb_rest_def
  get_start_byte_next_segment_def add_new_segment_def add_new_chunk_def mk_chunk_def
  gb_determine_next_subsegment_def add_new_subsegment_def get_fast_conn_index_def target_share_def
  get_virtual_seg_size_def divide_chunks_def ratio_share_def conn_at_def conn_ok_def upd_off_def
  upd_seg_def upd_conn_def gettime_def conn_indices_def empty_offset_info_def tail_seg_def DUAL_LINK_MODE_def
  pending_of_conn_def

lemmas request_defs = request_segment_def send_http_request_for_subsegment_def request_chunk_def
  gb_get_request_def send_request_def upd_http_def touch_def return_downloading_for_idle_conn_def
  checking_last_segment_def check_last_segment_def seg_at_def get_first_next_segment_assigned_to_conn_def

lemma request_fd [simp]:
  "h_fd (http_addheader l h) = h_fd h" "h_fd (http_get u h) = h_fd h"
  "h_fd (end_request h) = h_fd h" "h_fd (add_conf_headers cf h) = h_fd h"
proof -
  show add: "h_fd (http_addheader l h) = h_fd h" for l h by (simp add: http_addheader_def)
  have "h_fd (fold http_addheader ls h) = h_fd h" for ls h by (induction ls arbitrary: h) (simp_all add: add)
  then show "h_fd (http_get u h) = h_fd h" "h_fd (end_request h) = h_fd h"
    "h_fd (add_conf_headers cf h) = h_fd h"
    by (simp_all add: http_get_def end_request_def add_conf_headers_def Let_def add)
qed

lemmas recovery_defs = decide_recovery_mode_def get_player_state_def get_cur_player_pos_def
  get_bn_chunk_info_def get_chunk_being_dwnd_by_conn_def get_segment_being_dwnd_by_conn_def
  get_next_chunk_dwnd_by_conn_def does_qos_miss_until_bn_chunk_def get_remaining_playable_time_def
  update_last_downloaded_byte_def very_small_portion_threshold_def NO_RECOVERY_MODE_def
  RECOVERY_FOR_INSUFFICIENT_PLAYABLE_TIME_def recover_outorder_portion_and_next_segment_def take_over_def
  current_rest_def unassign_def delete_subsegment_def get_first_next_segment_assigned_to_conn_def
  add_recovery_segment_def delete_finished_head_segment_def seg_finished_def conn_disconnect_def
  upd_http_def http_disconnect_def PROTO_HTTP_def seg_at_def

definition half_part :: "link \<Rightarrow> chunk" where
  "half_part k = (if k = LTE then \<lparr>start_byte = 4, last_byte = 6, csize = 3\<rparr>
                  else \<lparr>start_byte = 7, last_byte = 7, csize = 1\<rparr>)"

definition half_prepared :: proc where
  "half_prepared = half_started\<lparr>
     conn := (\<lambda>k. (conn half_started k)\<lparr>c_start_time := Fin (if k = LTE then 4 else 5)\<rparr>),
     offset_info := (offset_info half_started)\<lparr>num_segments := 2, segment_count := 2, last_seg_offset := 7,
       segs := segs (offset_info half_started) @
         [\<lparr>seg_id = 2, recovery_segment = False, seg_chunks = [\<lparr>start_byte = 4, last_byte = 7, csize = 4\<rparr>],
           seg_size = 4,
           subseg = (\<lambda>k. Some \<lparr>ss_chunks = [half_part k], ss_size = csize (half_part k)\<rparr>)\<rparr>]\<rparr>,
     tick := 6\<rparr>"

lemmas half_defs = half_prepared_def half_part_def half_started_def small_defs

lemma half_setup: "gb_setup_next_segment sample_env LTE half_started = Inr (True, half_prepared)"
  by (simp add: setup_defs half_defs c_arith_defs Let_def fun_eq_iff cong: bindR_weak_cong) (metis link.exhaust)

lemma half_request: "\<exists>q. request_segment sample_env LTE half_prepared = Inr q"
  by (simp add: setup_defs request_defs half_defs c_arith_defs Let_def cong: bindR_weak_cong)

lemma half_ahead: "\<exists>p q. gb_setup_next_segment sample_env LTE half_started = Inr (True, p)
    \<and> request_segment sample_env LTE p = Inr q"
  using half_setup half_request by blast

definition slow_decided :: proc where
  "slow_decided = slow_started\<lparr>tick := 4, st_num_vframe := 1, st_last_num_vframe := 1, st_last_recorded := Fin 1\<rparr>"

lemma slow_decide: "decide_recovery_mode sample_env slow_started LTE = Inr (1, slow_decided)"
  by (simp add: setup_defs recovery_defs slow_decided_def slow_defs c_arith_defs Let_def cong: bindR_weak_cong)

lemma slow_rest: "\<exists>q. bindR (recover_outorder_portion_and_next_segment
     (conn_disconnect WIFI (upd_conn WIFI (\<lambda>c. c\<lparr>enabled := False\<rparr>) slow_decided)) LTE) (\<lambda>p3.
     gb_determine_next_subsegment p3 LTE DUAL_LINK_MODE) = Inr q"
  by (simp add: setup_defs recovery_defs slow_decided_def slow_defs c_arith_defs Let_def cong: bindR_weak_cong)

lemma slow_recovery: "\<exists>q. perform_recovery sample_env slow_started LTE = Inr (True, q)"
proof -
  let ?p = "conn_disconnect WIFI (upd_conn WIFI (\<lambda>c. c\<lparr>enabled := False\<rparr>) slow_decided)"
  obtain p3 q where "recover_outorder_portion_and_next_segment ?p LTE = Inr p3"
    "gb_determine_next_subsegment p3 LTE DUAL_LINK_MODE = Inr q"
    using slow_rest by (auto elim!: bindR_InrE)
  moreover have "recovery_mode (conf slow_started) = 1" by (simp add: slow_defs)
  ultimately show ?thesis
    by (simp add: perform_recovery_def slow_decide Let_def NO_RECOVERY_MODE_def
        RECOVERY_FOR_INSUFFICIENT_PLAYABLE_TIME_def)
qed

lemma half_is_started: "started half_started"
  unfolding started_def
  by (intro exI [of _ half_file] exI [of _ 4] exI [of _ 2])
     (simp add: half_init, simp add: half_file_def small_defs first_segment_size_def c_arith_defs conn_ok_def nothing_yet_def)

lemma slow_is_started: "started slow_started"
  unfolding started_def
  by (intro exI [of _ slow_file] exI [of _ 4000] exI [of _ 2])
     (simp add: slow_init, simp add: slow_defs first_segment_size_def c_arith_defs conn_ok_def nothing_yet_def)

lemma small_reach:
  obtains q where "reach started (paced_step sample_env) q" "loop_turn sample_env small_started = Inr q"
    "bytes_done q = g_size q" "ready q = 1" "last_seg_offset (offset_info q) = 3"
proof -
  obtain q where q: "loop_turn sample_env small_started = Inr q" "bytes_done q = 4" "g_size q = 4" 
    "last_seg_offset (offset_info q) = 3" "ready q = 1"
    using small_turn by blast
  have "ready small_started = 0" "run small_started" by (simp_all add: small_defs)
  then have "paced_step sample_env small_started q" using q(1) small_paced by (rule paced_turn)
  then have "reach started (paced_step sample_env) q"
    using small_is_started by (blast intro: reach.intros)
  then show thesis using that q by simp
qed

section \<open>Whole downloads\<close>

text \<open>C1: in every state that the download loop reaches from the set-up of the first segment, in every
  configuration and whatever the clock, the network, the player and the other threads do, as long as the shares
  that its turns hand out are not negative: the bytes written and the bytes still assigned to the two connections
  are together exactly the bytes handed out so far, each once. Only a write that takes less than a block loses
  this, and then the loop has given up.\<close>

theorem balance_invariant:
  assumes "reach started (paced_step E) p"
  shows "acct_but {} p \<or> ready p = - 1 \<and> short_writes E p"
  using download.reach_inv [OF assms] by (simp add: intact_def)

theorem balance_invariant_witness:
  "\<exists>q. loop_turn sample_env small_started = Inr q
     \<and> (acct_but {} q \<or> ready q = - 1 \<and> short_writes sample_env q)"
proof -
  obtain q where "reach started (paced_step sample_env) q" "loop_turn sample_env small_started = Inr q"
    by (rule small_reach)
  then show ?thesis using balance_invariant [of sample_env q] by blast
qed

text \<open>C2: when the loop has received as many bytes as the file has and has not given up, every byte of the
  file has been written and nothing outside it, and no connection has anything left to do: in every state of every
  download whose turns hand out no negative share.\<close>

theorem download_complete:
  assumes "reach started (paced_step E) p" "ready p \<noteq> - 1" "bytes_done p = g_size p"
  shows "dom (outfile p) = {0..<g_size p} \<and> work p k = {#}"
proof -
  have "acct p" using download.reach_inv [OF assms(1)] assms(2) by (rule intact_not_ready)
  then show ?thesis using acct_complete assms(3) by blast
qed

theorem download_complete_witness:
  "\<exists>q. loop_turn sample_env small_started = Inr q \<and> dom (outfile q) = {0..<g_size q} \<and> work q LTE = {#}"
proof -
  obtain q where "reach started (paced_step sample_env) q" "loop_turn sample_env small_started = Inr q"
    "bytes_done q = g_size q" "ready q = 1"
    by (rule small_reach)
  then show ?thesis using download_complete [of sample_env q LTE] by auto
qed






text \<open>In every reachable state of a loop that has not given up each byte handed out is in the file or left to do for one
  connection, and only one of these.\<close>

theorem every_byte_once:
  assumes "reach started (paced_step E) p" "ready p \<noteq> - 1" "0 \<le> b" "b \<le> last_seg_offset (offset_info p)"
  shows "count (work p LTE) b + count (work p WIFI) b + (if outfile p b = None then 0 else 1) = 1"
proof -
  have "acct p" using download.reach_inv [OF assms(1)] assms(2) by (rule intact_not_ready)
  then show ?thesis using acct_once assms(3,4) by blast
qed

theorem every_byte_once_witness:
  "\<exists>q. loop_turn sample_env small_started = Inr q
     \<and> count (work q LTE) 2 + count (work q WIFI) 2 + (if outfile q 2 = None then 0 else 1) = 1"
proof -
  obtain q where "reach started (paced_step sample_env) q"
    "loop_turn sample_env small_started = Inr q" "ready q = 1" "last_seg_offset (offset_info q) = 3"
    by (rule small_reach)
  then show ?thesis using every_byte_once [of sample_env q 2] by auto
qed

text \<open>C6: the first segment sets up the balance: all its bytes are assigned, none is written, when it is not empty
  and no negative share is configured.\<close>

theorem first_segment_balance:
  assumes "gb_init_segment_setup p = Inr q"
    and "first_segment_size (g_size p) (num_of_segments (conf p)) (fixed_segment_size_KB (conf p)) = Inr (n, cnt)"
    and "0 < n" "0 \<le> g_size p" "conn_ok p WIFI" "nothing_yet p" "\<And>k. 0 \<le> initial_chunk_rate (conf p) k"
  shows "acct_but {} q \<and> g_size q = g_size p"
  using init_segment_acct [OF assms] by blast

theorem first_segment_balance_witness: "acct_but {} half_started \<and> g_size half_started = g_size half_file"
  by (rule first_segment_balance [OF half_init, of 4 2])
     (simp_all add: half_file_def small_defs first_segment_size_def c_arith_defs conn_ok_def nothing_yet_def)

text \<open>receiving a block on a connection keeps the balance: writing it, preparing and requesting the
  next segment, going on to the next chunk or subsegment; only a short write loses it, with
  \<open>ready = -1\<close>.\<close>

theorem receive_keeps_balance:
  assumes "acct_but {} p" "receive E k p = Inr q" "rates_ok q"
  shows "acct_but {} q \<or> ready q = - 1 \<and> short_writes E p"
  using assms by (rule receive_acct)

theorem receive_keeps_balance_witness:
  "\<exists>q. receive sample_env LTE small_started = Inr q
     \<and> (acct_but {} q \<or> ready q = - 1 \<and> short_writes sample_env small_started)"
proof -
  obtain q where q: "receive sample_env LTE small_started = Inr q" "rates_ok q" using small_receive by blast
  then show ?thesis using receive_keeps_balance [OF started_acct [OF small_is_started] q] by blast
qed

text \<open>C7: recovery keeps the balance. When it happens, the segment it appends holds each byte that the other connection
  had still to do and each byte of the next piece of the file once, and nothing else; the next piece follows the last byte
  handed out and has at least \<open>init_seg_size\<close> bytes unless the file ends. Until the other connection is pointed at its part of this
  segment it counts as detached, and no position moves. When nothing is recovered nothing changes. The shares
  in which the segment is divided must not be negative.\<close>

theorem recovery_keeps_balance:
  assumes "acct_but J p" "other k \<notin> J" "perform_recovery E p k = Inr (b, q)" "rates_ok q"
  shows "if b
    then acct_but J (set_connection (other k) None q) \<and> places q = places p
      \<and> (let sg = last (segs (offset_info q)); old = last_seg_offset (offset_info p);
             new = last_seg_offset (offset_info q)
         in recovery_segment sg
          \<and> mset (bytes_of (seg_chunks sg)) = mset (still_to_do p (other k)) + mset [old + 1..new]
          \<and> min (old + init_seg_size (offset_info p)) (g_size p - 1) \<le> new \<and> new < g_size p)
    else view q = view p"
  using perform_recovery_acct [OF assms] by (simp add: recovers_def recovery_tail_def Let_def split: if_splits)

theorem recovery_keeps_balance_witness:
  "\<exists>q. perform_recovery sample_env slow_started LTE = Inr (True, q)
     \<and> acct_but {} (set_connection WIFI None q) \<and> recovery_segment (last (segs (offset_info q)))"
proof -
  obtain q where q: "perform_recovery sample_env slow_started LTE = Inr (True, q)" using slow_recovery by blast
  have "fixed_rates (conf slow_started)" by (simp add: slow_defs fixed_rates_def)
  then have "rates_ok q" using steady_perform_recovery [OF q] by (intro fixed_rates_ok) (simp add: steady_def)
  then show ?thesis
    using recovery_keeps_balance [OF started_acct [OF slow_is_started] _ q] q by (auto simp: Let_def)
qed

text \<open>preparing the next segment in advance and sending its requests keeps the balance and leaves
  the position of the requesting connection alone, recovery included.\<close>

theorem ahead_keeps_balance:
  assumes "acct_but J p" "other k \<notin> J" "gb_setup_next_segment E k p = Inr (True, p1)" "rates_ok p1"
    and "request_segment E k p1 = Inr q"
  shows "acct_but J q \<and> place q k = place p k"
proof -
  have "prepared J k p1" "places p1 = places p" using setup_next_acct [OF assms(1-4)] by simp_all
  then show ?thesis using request_segment_acct assms(5) places_place by metis
qed

theorem ahead_keeps_balance_witness:
  "\<exists>p q. gb_setup_next_segment sample_env LTE half_started = Inr (True, p)
     \<and> request_segment sample_env LTE p = Inr q \<and> acct_but {} q \<and> place q LTE = place half_started LTE"
proof -
  obtain p q where pq: "gb_setup_next_segment sample_env LTE half_started = Inr (True, p)"
      "request_segment sample_env LTE p = Inr q" using half_ahead by blast
  have "fixed_rates (conf half_started)" by (simp add: half_started_def small_defs fixed_rates_def)
  then have "rates_ok p" using steady_setup_next [OF pq(1)] by (intro fixed_rates_ok) (simp add: steady_def)
  then show ?thesis
    using ahead_keeps_balance [OF started_acct [OF half_is_started] _ pq(1) _ pq(2)] pq by auto
qed

end
