(* ===== verification/Proxy.thy ===== *)
theory Proxy
  imports Http
begin

text \<open>
  The local proxy (\<^verbatim>\<open>ahttpd.c\<close>) and the string functions of \<^verbatim>\<open>util.c\<close> it uses: reading the request
  line, deciding what to send, the header of a reply, and the loop that passes the video to the
  player while it is still being downloaded. Sockets are the strings they deliver and are given; the file
  system answers which paths exist.
\<close>

section \<open>String functions of \<^verbatim>\<open>util.c\<close>\<close>

definition starts_with :: "string \<Rightarrow> string \<Rightarrow> bool" where
  "starts_with str prefix \<longleftrightarrow>
     (if length str < length prefix then False else take (length prefix) str = prefix)"

definition ends_with :: "string \<Rightarrow> string \<Rightarrow> bool" where
  "ends_with str suffix \<longleftrightarrow>
     (if length suffix > length str then False else drop (length str - length suffix) str = suffix)"

definition prepend :: "string \<Rightarrow> string \<Rightarrow> string" where
  "prepend dst prefix = prefix @ dst"

text \<open>
  \<open>decompose_url\<close>: protocol, host, port and path; it exits unless the URL starts with
  \<open>http://\<close>, and writes through NULL when there is no slash after the host.
\<close>

definition decompose_url :: "string \<Rightarrow> (string \<times> string \<times> string \<times> string) res" where
  "decompose_url url =
     (let start = skip_space url in
      if \<not> starts_with start ''http://'' then Inl (Exit 1)
      else case strchr (drop 7 start) (CHR ''/'') of
          None \<Rightarrow> Inl NullDeref
        | Some (addr, path) \<Rightarrow>
            (case strchr addr (CHR '':'') of
               Some (host, num) \<Rightarrow> Inr (''http'', host, tl num, path)
             | None \<Rightarrow> Inr (''http'', addr, ''80'', path)))"

definition GPROXY_ADDR :: string where "GPROXY_ADDR = ''127.0.0.1''"
definition GPROXY_PORT :: int where "GPROXY_PORT = 8188"

definition rewrite_url_gproxy :: "string \<Rightarrow> string" where
  "rewrite_url_gproxy file_url =
     ''http://'' @ GPROXY_ADDR @ '':'' @ show_int GPROXY_PORT @ ''/?'' @ file_url"

section \<open>The request line\<close>

text \<open>
  \<open>get_line\<close> reads byte by byte up to a carriage return and newline, the end of the stream, or
  its limit of 1001 bytes. The buffer of the only caller has 2048 bytes.
\<close>

fun get_line_loop :: "nat \<Rightarrow> bool \<Rightarrow> string \<Rightarrow> string \<Rightarrow> string \<times> string" where
  "get_line_loop n read_cr buf [] = (buf, [])"
| "get_line_loop n read_cr buf (c # cs) =
     (if read_cr \<and> c = CHR 0x0A then (buf @ [c], cs)
      else if n \<ge> 1000 then (buf @ [c], cs)
      else get_line_loop (n + 1) (c = CHR 0x0D) (buf @ [c]) cs)"

definition get_line :: "string \<Rightarrow> int \<times> string \<times> string" where
  "get_line sock = (let (buf, rest) = get_line_loop 0 False [] sock in (int (length buf) - 1, buf, rest))"

text \<open>
  One word of the line, copied into an array of the given size, and the text after the spaces
  that follow it. The copy does not stop at the end of the line: without a space it goes on into
  the unset rest of the array; the test of the index comes after the write.
\<close>

definition scan_word :: "nat \<Rightarrow> string \<Rightarrow> (string \<times> string) res" where
  "scan_word n s =
     (let w = takeWhile (\<lambda>c. \<not> is_space c) s in
      if length w \<ge> n then Inl OutOfBounds
      else if length w = length s then Inl Uninit
      else Inr (w, skip_space (drop (length w) s)))"

definition parse_request :: "string \<Rightarrow> (string \<times> string \<times> string) res" where
  "parse_request line =
     bindR (scan_word 16 line) (\<lambda>(req, s).
     bindR (scan_word 2023 s) (\<lambda>(url, t).
       Inr (req, url, take 8 t)))"

section \<open>What to send\<close>

definition BEGIN_REMOTE_URL :: string where "BEGIN_REMOTE_URL = ''/?http://''"

definition check_url_remote :: "string \<Rightarrow> bool" where
  "check_url_remote url \<longleftrightarrow> take (length BEGIN_REMOTE_URL) url = BEGIN_REMOTE_URL"

definition extract_remote_url :: "string \<Rightarrow> string res" where
  "extract_remote_url url =
     (case strchr url (CHR ''?'') of None \<Rightarrow> Inl NullDeref | Some (_, s) \<Rightarrow> Inr (tl s))"

definition our_servers :: "string list" where
  "our_servers = [''duke3.kaist.ac.kr'', ''cps.kaist.ac.kr'']"

definition is_url_to_our_server :: "string \<Rightarrow> bool res" where
  "is_url_to_our_server url =
     bindR (assertR (take 7 url = ''http://'')) (\<lambda>_.
       Inr (\<exists>s \<in> set our_servers. take (length s) (drop 7 url) = s))"

datatype reply = Unimplemented string | Local string string | Remote string string

text \<open>\<open>accept_request\<close>; \<open>local_path\<close> is an array of 512.\<close>

definition accept_request :: "(string \<Rightarrow> bool) \<Rightarrow> string \<Rightarrow> reply res" where
  "accept_request exist sock =
     (let (_, line, _) = get_line sock in
      bindR (parse_request line) (\<lambda>(req, url, version).
        if map lower req \<noteq> map lower ''GET'' then Inr (Unimplemented version)
        else if check_url_remote url then
          bindR (extract_remote_url url) (\<lambda>remote.
          bindR (decompose_url remote) (\<lambda>(_, _, _, path).
            case strrchr path (CHR ''/'') of
              None \<Rightarrow> Inl NullDeref
            | Some (_, file) \<Rightarrow>
                if length (''.'' @ file) \<ge> 512 then Inl OutOfBounds
                else if exist (''.'' @ file) then Inr (Local path version)
                else Inr (Remote remote version)))
        else Inr (Local url version)))"

section \<open>Replies\<close>

definition SERVER_STRING :: string where "SERVER_STRING = ''Server: ahttpd/0.1.0''"

definition file_exts :: "string list" where "file_exts = [''html'', ''mp4'', ''flv'', ''ico'']"
definition mime_types :: "string list" where
  "mime_types = [''text/html'', ''video/mp4'', ''video/x-flv'', ''image/x-icon'']"

definition content_type_of :: "string \<Rightarrow> string" where
  "content_type_of fname =
     (case strrchr fname (CHR ''.'') of
        None \<Rightarrow> mime_types ! 0
      | Some (_, e) \<Rightarrow>
          (case find (\<lambda>i. tl e = file_exts ! i) [0..<length file_exts] of
             None \<Rightarrow> mime_types ! 0
           | Some i \<Rightarrow> mime_types ! i))"

text \<open>The header of a file; the array has 1024 bytes.\<close>

definition send_file_headers :: "string \<Rightarrow> int \<Rightarrow> string res" where
  "send_file_headers fname content_length =
     (let h = ''HTTP/1.0 200 OK'' @ crlf @ SERVER_STRING @ crlf @ ''Accept-Ranges: none'' @ crlf
              @ ''Connection: close'' @ crlf @ ''Content-Type: '' @ content_type_of fname @ crlf
              @ (if content_length > 0 then ''Content-Length: '' @ show_int content_length @ crlf else '''')
              @ crlf
      in if length h \<ge> 1024 then Inl OutOfBounds else Inr h)"

definition unimplemented :: "string \<Rightarrow> string" where
  "unimplemented version = version @ '' 501 Method Not Implemented'' @ crlf @ SERVER_STRING @ crlf
     @ ''Content-Type: text/html'' @ crlf @ crlf
     @ ''<HTML><HEAD><TITLE>Method Not Implemented'' @ crlf @ ''</TITLE></HEAD>'' @ crlf
     @ ''<BODY>HTTP request method not supported.<br>'' @ crlf
     @ ''Currently only support GET method'' @ crlf @ ''</BODY></HTML>'' @ crlf"

definition not_found :: "string \<Rightarrow> string" where
  "not_found version = version @ '' 404 NOT FOUND'' @ crlf @ SERVER_STRING @ crlf
     @ ''Content-Type: text/html'' @ crlf @ crlf
     @ ''<HTML><TITLE>Not Found</TITLE>'' @ crlf
     @ ''<BODY>The server cannot find the requested file</BODY></HTML>'' @ crlf"

text \<open>
  \<open>send_local_file\<close>: \<open>is_dir\<close> is what the \<open>file_status\<close> says that the code tests before it has
  been filled in. The contents go out in blocks of 512 bytes.
\<close>

definition INDEX_PAGE :: string where "INDEX_PAGE = ''index.html''"

definition local_path :: "bool \<Rightarrow> string \<Rightarrow> string res" where
  "local_path is_dir url =
     (let a = ''.'' @ url;
          b = (if last a = CHR ''/'' then a @ INDEX_PAGE else a);
          c = (if is_dir then b @ ''/'' @ INDEX_PAGE else b)
      in if length c \<ge> 512 then Inl OutOfBounds else Inr c)"

text \<open>
  The block loop: each answer of \<open>send\<close> is how many bytes it took (negative: gone). What a
  short \<open>send\<close> leaves is not sent again. The last block is the first that reaches the end.
\<close>

fun send_file_content :: "int list \<Rightarrow> string \<Rightarrow> string" where
  "send_file_content [] content = []"
| "send_file_content (n # ns) content =
     (let block = take 512 content in
      if n < 0 then []
      else take (nat n) block
           @ (if length content < 512 then [] else send_file_content ns (drop 512 content)))"

definition send_local_file :: "(string \<Rightarrow> string option) \<Rightarrow> bool \<Rightarrow> int list \<Rightarrow> string \<Rightarrow> string \<Rightarrow> string res" where
  "send_local_file files is_dir sends url version =
     bindR (local_path is_dir url) (\<lambda>path.
       case files path of
         None \<Rightarrow> Inr (not_found version)
       | Some content \<Rightarrow>
           (let fname = (case strrchr path (CHR ''/'') of None \<Rightarrow> path | Some (_, f) \<Rightarrow> f) in
            bindR (send_file_headers fname 0) (\<lambda>h. Inr (h @ send_file_content sends content))))"

section \<open>Passing the video on\<close>

text \<open>
  The loop of \<open>send_remote_file\<close>. \<open>ld\<close> are the values of \<open>gb->last_downloaded_byte\<close> at the four
  places of one round where the loop reads it, while the downloading thread may change it; \<open>contents\<close> is
  the file as the round reads it, where a byte that was not written yet reads as zero; \<open>got\<close> and
  \<open>sent\<close> are the answers of \<open>read\<close> and \<open>send\<close>. \<open>freed\<close>: the downloading thread has come to the end of
  \<open>gb_process\<close>, where \<open>gb_close\<close> frees \<open>gb\<close> without waiting for this loop, before the round last looks at it.
\<close>

record round =
  ld :: "int \<times> int \<times> int \<times> int"
  contents :: "int \<Rightarrow> char option"
  got :: int
  sent :: int
  freed :: bool

record server =
  first_not_sent_byte :: int
  delivered :: string

definition BUF_FILE_BUF_SIZE :: int where "BUF_FILE_BUF_SIZE = 128"

definition read_file :: "(int \<Rightarrow> char option) \<Rightarrow> int \<Rightarrow> nat \<Rightarrow> string" where
  "read_file f pos n = map (\<lambda>i. case f (pos + int i) of None \<Rightarrow> CHR 0x00 | Some c \<Rightarrow> c) [0..<n]"

text \<open>
  One round: whether the loop goes on, and the state after it. The comparison with \<open>sizeof\<close> is one of
  unsigned numbers, so a negative difference counts as large; the difference is then stored in an int.
\<close>

definition serve_round :: "int \<Rightarrow> round \<Rightarrow> server \<Rightarrow> (bool \<times> server) res" where
  "serve_round fsize r s =
     (let (ld1, ld2, ld3, ld4) = ld r; pos = first_not_sent_byte s in
      if freed r then Inl UseAfterFree
      else if pos > ld1 then Inr (True, s)
      else
        let read_size = (if ld2 < pos \<or> BUF_FILE_BUF_SIZE \<le> ld2 - pos then BUF_FILE_BUF_SIZE
                         else to_int (ld3 - pos)) in
        if read_size > BUF_FILE_BUF_SIZE \<or> read_size < 0 then Inl OutOfBounds
        else
          let n = min (got r) read_size; data = read_file (contents r) pos (nat n) in
          if n > 0 \<and> sent r \<le> 0 then Inr (False, s)
          else
            let s1 = s\<lparr>delivered := delivered s @ take (nat (sent r)) data\<rparr>;
                pos1 = pos + max n 0 in
            if pos = fsize then Inr (False, s1)
            else bindR (assertR (pos1 \<le> ld4 \<and> pos1 \<le> fsize)) (\<lambda>_.
                   Inr (True, s1\<lparr>first_not_sent_byte := pos1\<rparr>)))"

fun send_remote_file :: "int \<Rightarrow> round list \<Rightarrow> server \<Rightarrow> server res" where
  "send_remote_file fsize [] s = Inr s"
| "send_remote_file fsize (r # rs) s =
     bindR (serve_round fsize r s) (\<lambda>(more, s1). if more then send_remote_file fsize rs s1 else Inr s1)"

definition start_serving :: server where
  "start_serving = \<lparr>first_not_sent_byte = 0, delivered = []\<rparr>"

section \<open>Lemmas\<close>

lemma starts_with_append: "starts_with (p @ s) p"
  by (simp add: starts_with_def)

lemma starts_with_iff: "starts_with s p \<longleftrightarrow> (\<exists>t. s = p @ t)"
  by (auto simp: starts_with_def intro: exI [of _ "drop (length p) s"])
     (metis append_take_drop_id)

lemma ends_with_iff: "ends_with s p \<longleftrightarrow> (\<exists>t. s = t @ p)"
proof
  assume "ends_with s p"
  then have "s = take (length s - length p) s @ p"
    by (auto simp: ends_with_def split: if_splits) (metis append_take_drop_id)
  then show "\<exists>t. s = t @ p" by blast
qed (auto simp: ends_with_def)

lemma get_line_loop_line:
  assumes "CHR 0x0A \<notin> set l" "n + length l < 1000"
  shows "get_line_loop n r buf (l @ crlf @ rest) = (buf @ l @ crlf, rest)"
  using assms
proof (induction l arbitrary: n r buf)
  case (Cons c l)
  then show ?case by auto
qed simp

lemma decompose_url_http:
  assumes "CHR ''/'' \<notin> set host" "CHR '':'' \<notin> set host" "CHR ''/'' \<notin> set num"
    and "path \<noteq> []" "hd path = CHR ''/''"
  shows "decompose_url (''http://'' @ host @ '':'' @ num @ path) = Inr (''http'', host, num, path)"
    and "decompose_url (''http://'' @ host @ path) = Inr (''http'', host, ''80'', path)"
proof -
  obtain q where p: "path = CHR ''/'' # q" using assms(4,5) by (cases path) auto
  have "strchr ((host @ '':'' @ num) @ CHR ''/'' # q) (CHR ''/'') = Some (host @ '':'' @ num, path)"
    using assms p by (subst strchr_split) auto
  then show "decompose_url (''http://'' @ host @ '':'' @ num @ path) = Inr (''http'', host, num, path)"
    using assms by (simp add: decompose_url_def skip_space_def is_space_def starts_with_def p)
  show "decompose_url (''http://'' @ host @ path) = Inr (''http'', host, ''80'', path)"
    using assms by (simp add: decompose_url_def skip_space_def is_space_def starts_with_def p)
qed

end
