(* ===== verification/Prefix_Laws.thy ===== *)
theory Prefix_Laws
  imports Start_Laws Proxy
begin

text \<open>
  What the player may be given: below the in-order offset every byte has been written while both connections
  work, and the loop that passes the file on sends each byte once, in order, and only below the mark.
\<close>

section \<open>Below the in-order offset\<close>

lemma ascending_head:
  assumes "subs_ok i" "s \<in> set (segs i)" "subseg s k = Some b" "d \<in> set (ss_chunks b)"
  shows "start_byte (hd (ss_chunks b)) \<le> start_byte d"
proof (cases "ss_chunks b")
  case (Cons c cs)
  have "ascending (ss_chunks b)" "chunk_ok c" using subs_okD [OF assms(1-3)] Cons by simp_all
  then show ?thesis using assms(4) Cons by (auto simp: chunk_ok_def)
qed (use assms(4) in simp)

lemma bytes_of_chunk: "x \<in> set (bytes_of cs) \<longleftrightarrow> (\<exists>c \<in> set cs. start_byte c \<le> x \<and> x \<le> last_byte c)"
  by (induction cs) (auto simp: chunk_bytes_def)

lemma assigned_chunk_seg:
  "c \<in> set (assigned_chunks k ss) \<Longrightarrow> \<exists>s \<in> set ss. \<exists>b. subseg s k = Some b \<and> c \<in> set (ss_chunks b)"
  by (induction ss) (auto split: option.splits)

lemma other_segment_start:
  assumes "x \<in> set (bytes_of (assigned_chunks k ss))" "set ss \<subseteq> set (segs i)"
    and "\<forall>s \<in> set ss. Some (seg_id s) \<noteq> connection i k" "subs_ok i"
  shows "\<exists>y \<in> other_starts k (connection i k) (segs i). y \<le> x"
proof -
  obtain d where d: "d \<in> set (assigned_chunks k ss)" "start_byte d \<le> x" using assms(1) bytes_of_chunk by blast
  obtain s b where s: "s \<in> set ss" "subseg s k = Some b" "d \<in> set (ss_chunks b)"
    using assigned_chunk_seg [OF d(1)] by blast
  have mem: "s \<in> set (segs i)" using s(1) assms(2) by blast
  have "start_byte (hd (ss_chunks b)) \<le> start_byte d"
    using assms(4) mem s(2,3) by (rule ascending_head)
  moreover have "start_byte (hd (ss_chunks b)) \<in> other_starts k (connection i k) (segs i)"
    using s mem assms(3) unfolding other_starts_def by auto
  ultimately show ?thesis using d(2) by (meson order_trans)
qed

lemma work_after_start:
  assumes ok: "acct p" and some: "connection (offset_info p) k \<noteq> None"
    and x: "x \<in># work p k"
  shows "\<exists>y \<in> pending_starts p k. y \<le> x"
proof -
  let ?i = "offset_info p"
  have i: "wf_segs ?i" "subs_ok ?i" using ok by (simp_all add: acct_but_def sound_def)
  obtain c where c: "current_chunk ?i k = Some c" using ok some by (rule acct_current)
  have cur: "currentbyte (conn p k) \<le> last_byte c" using ok c by (simp add: acct_but_def aimed_def)
  obtain q s b cs where s: "connection ?i k = Some q" "s \<in> set (segs ?i)" "seg_id s = q"
      "subseg s k = Some b" "ss_chunks b = c # cs"
    using c by (rule current_chunk_SomeD)
  obtain pre post where sp: "segs ?i = pre @ s # post" using s(2) by (meson split_list)
  have ids: "\<forall>t \<in> set pre \<union> set post. seg_id t \<noteq> seg_id s"
    using i(1) by (auto simp: wf_segs_def sp sorted_wrt_append)
  have "others ?i k = mset (bytes_of (assigned_chunks k pre)) + mset (bytes_of cs)
      + mset (bytes_of (assigned_chunks k post))"
    using s(4,5) by (simp add: others_def c assigned_def sp)
  then consider "x \<in> set [currentbyte (conn p k)..last_byte c]" | "x \<in> set (bytes_of cs)"
    | "x \<in> set (bytes_of (assigned_chunks k pre))" | "x \<in> set (bytes_of (assigned_chunks k post))"
    using x by (auto simp: work_def c)
  then show ?thesis
  proof cases
    case 1
    then show ?thesis by (auto simp: pending_starts_def)
  next
    case 2
    then obtain d where d: "d \<in> set cs" "start_byte d \<le> x" using bytes_of_chunk by blast
    have "ascending (c # cs)" using subs_okD(3) [OF i(2) s(2,4)] s(5) by simp
    then have "last_byte c < start_byte d" using d(1) by simp
    then show ?thesis using cur d(2) by (auto simp: pending_starts_def intro!: bexI [of _ "currentbyte (conn p k)"])
  next
    case 3
    then have "\<exists>y \<in> other_starts k (connection ?i k) (segs ?i). y \<le> x"
      using ids i(2) s(1,3) by (intro other_segment_start) (auto simp: sp)
    then show ?thesis by (auto simp: pending_starts_def)
  next
    case 4
    then have "\<exists>y \<in> other_starts k (connection ?i k) (segs ?i). y \<le> x"
      using ids i(2) s(1,3) by (intro other_segment_start) (auto simp: sp)
    then show ?thesis by (auto simp: pending_starts_def)
  qed
qed

lemma inorder_written:
  assumes ok: "acct p" and some: "\<And>k. connection (offset_info p) k \<noteq> None"
    and r: "update_inorder_offset p = Inr p'" and x: "0 \<le> x" "x < inorder_offset p'"
  shows "outfile p' x \<noteq> None"
proof -
  let ?i = "offset_info p"
  have ends: "currentbyte (conn p k) \<le> lastbyte (conn p k)" for k
  proof -
    obtain c where "current_chunk ?i k = Some c" "lastbyte (conn p k) = last_byte c"
      using ok some by (rule acct_current)
    then show ?thesis using ok by (simp add: acct_but_def aimed_def)
  qed
  have cok: "conn_ok p WIFI" and subs: "subs_ok ?i" using ok by (simp_all add: acct_but_def sound_def)
  have "\<forall>s \<in> set (segs ?i). \<forall>k. has_first s k" using subs by (auto simp: subs_ok_def has_first_def)
  then have m: "inorder_offset p' = Min (pending_starts p LTE \<union> pending_starts p WIFI)"
    using cok r
  proof (intro update_inorder_offset_both_active)
    show "\<forall>k. currentbyte (conn p k) \<noteq> lastbyte (conn p k) + 1"
      using ends by (metis zle_add1_eq_le less_irrefl)
  qed simp_all
  have fin: "finite (pending_starts p LTE \<union> pending_starts p WIFI)" by (simp add: pending_starts_def)
  have below: "x < y" if "y \<in> pending_starts p k" for y k
    using Min_le [OF fin, of y] that x(2) m by (cases k) force+
  have none: "count (work p k) x = 0" for k
  proof (rule ccontr)
    assume "count (work p k) x \<noteq> 0"
    then have "x \<in># work p k" by (simp add: not_in_iff)
    then obtain y where "y \<in> pending_starts p k" "y \<le> x" using work_after_start [OF ok some] by blast
    then show False using below by force
  qed
  obtain c where c: "current_chunk ?i LTE = Some c" "lastbyte (conn p LTE) = last_byte c"
    using ok some by (rule acct_current)
  have "last_byte c \<in># work p LTE" using c ends [of LTE] by (simp add: work_def)
  then have "last_byte c \<in># work p LTE + work p WIFI + mset_set (dom (outfile p))" by simp
  moreover have "work p LTE + work p WIFI + mset_set (dom (outfile p)) = mset_set {0..last_seg_offset ?i}"
    using ok by (simp only: acct_but_def balanced_def)
  ultimately have "last_byte c \<in># mset_set {0..last_seg_offset ?i}" by (simp only:)
  then have "last_byte c \<le> last_seg_offset ?i" by simp
  moreover have "x < currentbyte (conn p LTE)" by (rule below [of _ LTE]) (simp add: pending_starts_def)
  ultimately have "x \<le> last_seg_offset ?i" using ends [of LTE] c(2) by simp
  then have "outfile p x \<noteq> None" using acct_once [OF ok x(1)] none by (simp split: if_splits)
  then show ?thesis using view_update_inorder_offset [OF r] by (simp add: view_def layout_def)
qed

section \<open>Serving the file\<close>

text \<open>
  Inside a round the values of \<open>last_downloaded_byte\<close> do not fall (the downloading thread asserts it) and do
  not pass the size of the file. They may grow between any two reads.
\<close>

definition mark_grows :: "int \<Rightarrow> round \<Rightarrow> bool" where
  "mark_grows fsize r \<longleftrightarrow> (case ld r of (ld1, ld2, ld3, ld4) \<Rightarrow> ld1 \<le> ld2 \<and> ld2 \<le> ld3 \<and> ld3 \<le> ld4 \<and> ld4 \<le> fsize)"

text \<open>\<open>send\<close> takes the whole block.\<close>

definition full_send :: "round \<Rightarrow> bool" where
  "full_send r \<longleftrightarrow> BUF_FILE_BUF_SIZE \<le> sent r"

text \<open>The byte \<open>c\<close> was read at offset \<open>x\<close> in this round, when the mark was above \<open>x\<close>; what was not written reads as zero.\<close>

definition read_at :: "round \<Rightarrow> nat \<Rightarrow> char \<Rightarrow> bool" where
  "read_at r x c \<longleftrightarrow> int x < fst (snd (snd (ld r)))
     \<and> c = (case contents r (int x) of None \<Rightarrow> CHR 0x00 | Some c \<Rightarrow> c)"

definition serves :: "round set \<Rightarrow> server \<Rightarrow> bool" where
  "serves R s \<longleftrightarrow> int (length (delivered s)) = first_not_sent_byte s
     \<and> (\<forall>x < length (delivered s). \<exists>r \<in> R. read_at r x (delivered s ! x))"

lemma length_read_file [simp]: "length (read_file f pos n) = n"
  by (simp add: read_file_def)

lemma nth_read_file: "i < n \<Longrightarrow> read_file f pos n ! i = (case f (pos + int i) of None \<Rightarrow> CHR 0x00 | Some c \<Rightarrow> c)"
  by (simp add: read_file_def)

lemma serve_round_serves:
  assumes c: "mark_grows fsize r" "full_send r" and s: "serves R s" "r \<in> R" and r: "serve_round fsize r s = Inr (go, s')"
  shows "serves R s'"
proof -
  obtain ld1 ld2 ld3 ld4 where l: "ld r = (ld1, ld2, ld3, ld4)" by (cases "ld r")
  let ?pos = "first_not_sent_byte s"
  have live: "freed r = False" using r by (cases "freed r") (simp_all add: serve_round_def l)
  have m: "ld1 \<le> ld2" "ld2 \<le> ld3" "ld3 \<le> ld4" "ld4 \<le> fsize" "BUF_FILE_BUF_SIZE \<le> sent r"
    using c by (simp_all add: mark_grows_def full_send_def l)
  have pos: "int (length (delivered s)) = ?pos" using s(1) by (simp add: serves_def)
  show ?thesis
  proof (cases "?pos > ld1")
    case True
    then show ?thesis using r s live by (simp add: serve_round_def l)
  next
    case False
    define size where "size = (if ld2 < ?pos \<or> BUF_FILE_BUF_SIZE \<le> ld2 - ?pos then BUF_FILE_BUF_SIZE
      else to_int (ld3 - ?pos))"
    have fits: "\<not> (size > BUF_FILE_BUF_SIZE \<or> size < 0)"
      using r live False by (auto simp: serve_round_def l size_def split: if_splits)
    have sz: "0 \<le> size" "size \<le> BUF_FILE_BUF_SIZE" "?pos + size \<le> ld3"
    proof -
      show "0 \<le> size" "size \<le> BUF_FILE_BUF_SIZE" using fits by auto
      have "to_int (ld3 - ?pos) \<le> ld3 - ?pos" if "0 \<le> ld3 - ?pos"
        using that zmod_le_nonneg_dividend [of "ld3 - ?pos + 2 ^ 31" "2 ^ 32"] by (simp add: to_int_def)
      then show "?pos + size \<le> ld3" using False m(1,2) by (auto simp: size_def)
    qed
    define n where "n = min (got r) size"
    define data where "data = read_file (contents r) ?pos (nat n)"
    have n: "n \<le> size" "nat n \<le> nat (sent r)" using sz m(5) by (auto simp: n_def)
    have tk: "take (nat (sent r)) data = data" using n(2) by (simp add: data_def)
    have out: "serves R (s\<lparr>delivered := delivered s @ data, first_not_sent_byte := ?pos + max n 0\<rparr>)"
    proof -
      have "read_at r x ((delivered s @ data) ! x)"
        if "length (delivered s) \<le> x" "x < length (delivered s) + nat n" for x
      proof -
        have "int x < ?pos + n" using that pos by simp
        then have "int x < ld3" using n(1) sz(3) by simp
        moreover have "?pos + int (x - length (delivered s)) = int x" using that(1) pos by simp
        ultimately show ?thesis
          using that by (simp add: read_at_def l data_def nth_append nth_read_file)
      qed
      moreover have "(delivered s @ data) ! x = delivered s ! x" if "x < length (delivered s)" for x
        using that by (simp add: nth_append)
      ultimately show ?thesis
        using s pos by (auto simp: serves_def data_def not_less) (metis not_less)
    qed
    have fin: "n \<le> 0" if "?pos = fsize" using that n(1) sz m(3,4) by simp
    have "(if ?pos = fsize then Inr (False, s\<lparr>delivered := delivered s @ data\<rparr>)
         else bindR (assertR (?pos + max n 0 \<le> ld4 \<and> ?pos + max n 0 \<le> fsize)) (\<lambda>_.
           Inr (True, s\<lparr>delivered := delivered s @ data, first_not_sent_byte := ?pos + max n 0\<rparr>))) = Inr (go, s')"
    proof -
      have ns: "\<not> (n > 0 \<and> sent r \<le> 0)" using m(5) by (simp add: BUF_FILE_BUF_SIZE_def)
      note r = r [unfolded serve_round_def l prod.case Let_def live if_False size_def [symmetric] n_def [symmetric]
          data_def [symmetric] tk]
      show ?thesis using r False fits ns by (simp only: if_False)
    qed
    then show ?thesis
      using out fin by (auto simp: data_def max_def elim!: bindR_InrE split: if_splits)
  qed
qed

lemma send_remote_file_serves:
  assumes "\<forall>r \<in> set rs. mark_grows fsize r \<and> full_send r" "set rs \<subseteq> R" "serves R s" "send_remote_file fsize rs s = Inr s'"
  shows "serves R s'"
  using assms
proof (induction rs arbitrary: s)
  case (Cons r rs)
  obtain go s1 where 1: "serve_round fsize r s = Inr (go, s1)"
    and 2: "(if go then send_remote_file fsize rs s1 else Inr s1) = Inr s'"
    using Cons.prems(4) by (auto elim!: bindR_InrE)
  have "serves R s1" by (rule serve_round_serves [OF _ _ Cons.prems(3) _ 1]) (use Cons.prems(1,2) in simp_all)
  then show ?case using 2 Cons by (cases go) auto
qed simp

lemma start_serves: "serves R start_serving"
  by (simp add: serves_def start_serving_def)

end
