(* ===== verification/Proxy_Theorems.thy ===== *)
theory Proxy_Theorems
  imports Prefix_Laws Run_Theorems
begin

text \<open>
  The properties of the proxy: which requests are fetched by GreenBag, what the player is sent and
  what the mark it waits for promises.
\<close>

section \<open>Routing\<close>

lemma scan_word_word:
  assumes "\<forall>c \<in> set w. \<not> is_space c" "length w < n" "\<not> is_space (hd t)" "t \<noteq> []"
  shows "scan_word n (w @ '' '' @ t) = Inr (w, t)"
proof -
  have "takeWhile (\<lambda>c. \<not> is_space c) (w @ '' '' @ t) = w"
    using assms(1) by (subst takeWhile_append2) (auto simp: is_space_def)
  moreover have "skip_space t = t" using assms(3,4) by (cases t) (simp_all add: skip_space_def)
  then have "skip_space ('' '' @ t) = t" by (simp add: skip_space_def is_space_def)
  ultimately show ?thesis using assms(2) by (simp add: scan_word_def)
qed

lemma parse_request_line:
  assumes "\<forall>c \<in> set url. \<not> is_space c" "url \<noteq> []" "length url < 2023"
  shows "parse_request (''GET '' @ url @ '' HTTP/1.1'' @ rest) = Inr (''GET'', url, ''HTTP/1.1'')"
proof -
  have a: "scan_word 16 (''GET'' @ '' '' @ url @ '' HTTP/1.1'' @ rest) = Inr (''GET'', url @ '' HTTP/1.1'' @ rest)"
    using assms(1,2) by (intro scan_word_word) (auto simp: is_space_def)
  have b: "scan_word 2023 (url @ '' '' @ ''HTTP/1.1'' @ rest) = Inr (url, ''HTTP/1.1'' @ rest)"
    using assms by (intro scan_word_word) (auto simp: is_space_def)
  show ?thesis using a b by (simp add: parse_request_def)
qed

lemma decompose_url_any:
  assumes "CHR ''/'' \<notin> set addr" "path = CHR ''/'' # q"
  shows "\<exists>host num. decompose_url (''http://'' @ addr @ path) = Inr (''http'', host, num, path)"
proof -
  have "strchr (addr @ CHR ''/'' # q) (CHR ''/'') = Some (addr, CHR ''/'' # q)" using assms by simp
  then show ?thesis
    by (simp add: decompose_url_def skip_space_def is_space_def starts_with_def assms(2) split: option.split)
qed

lemma length_strrchr: "strrchr s c = Some (a, b) \<Longrightarrow> length b \<le> length s"
  by (auto simp: strrchr_def Let_def split: if_splits)

text \<open>The request line that a player sends for an URL made by \<open>rewrite_url_gproxy\<close>.\<close>

definition player_request :: "string \<Rightarrow> string \<Rightarrow> string" where
  "player_request path rest = ''GET '' @ path @ '' HTTP/1.1'' @ crlf @ rest"

text \<open>C16: an URL rewritten for the proxy leads back to it: its host and port are the proxy's, and the
  request for its path is answered by downloading exactly the original URL, unless a local file
  has its name.\<close>

theorem gproxy_url_is_fetched:
  assumes u: "u = ''http://'' @ addr @ path" "CHR ''/'' \<notin> set addr" "path = CHR ''/'' # q"
    and plain: "\<forall>c \<in> set u. \<not> is_space c" and len: "length u < 500"
    and none: "\<And>f. strrchr path (CHR ''/'') = Some f \<Longrightarrow> \<not> exist (''.'' @ snd f)"
  shows "decompose_url (rewrite_url_gproxy u) = Inr (''http'', ''127.0.0.1'', ''8188'', ''/?'' @ u)
    \<and> accept_request exist (player_request (''/?'' @ u) rest) = Inr (Remote u ''HTTP/1.1'')"
proof
  have port: "show_int GPROXY_PORT = ''8188''"
    by (simp add: show_int_def show_nat.simps GPROXY_PORT_def char_of_def bit_0)
  have "decompose_url (''http://'' @ ''127.0.0.1'' @ '':'' @ ''8188'' @ ''/?'' @ u)
    = Inr (''http'', ''127.0.0.1'', ''8188'', ''/?'' @ u)"
    by (rule decompose_url_http) simp_all
  then show "decompose_url (rewrite_url_gproxy u) = Inr (''http'', ''127.0.0.1'', ''8188'', ''/?'' @ u)"
    by (simp add: rewrite_url_gproxy_def GPROXY_ADDR_def port)
  let ?l = "''GET '' @ (''/?'' @ u) @ '' HTTP/1.1''"
  have "is_space (CHR 0x0A)" by (simp add: is_space_def)
  then have "CHR 0x0A \<notin> set u" using plain by blast
  then have nl: "CHR 0x0A \<notin> set ?l" by simp
  have "get_line_loop 0 False [] (?l @ crlf @ rest) = ([] @ ?l @ crlf, rest)"
    by (rule get_line_loop_line [OF nl]) (use len in simp)
  then have line: "get_line (player_request (''/?'' @ u) rest) = (int (length (?l @ crlf)) - 1, ?l @ crlf, rest)"
    by (simp add: get_line_def player_request_def)
  have parse: "parse_request (?l @ crlf) = Inr (''GET'', ''/?'' @ u, ''HTTP/1.1'')"
  proof -
    have "\<not> is_space (CHR ''/'')" "\<not> is_space (CHR ''?'')" by (simp_all add: is_space_def)
    then have "\<forall>c \<in> set (''/?'' @ u). \<not> is_space c" using plain by simp
    from parse_request_line [OF this, of crlf] len show ?thesis by simp
  qed
  have remote: "check_url_remote (''/?'' @ u)" by (simp add: check_url_remote_def BEGIN_REMOTE_URL_def u(1))
  have orig: "extract_remote_url (''/?'' @ u) = Inr u" by (simp add: extract_remote_url_def strchr_def)
  obtain host num where d: "decompose_url u = Inr (''http'', host, num, path)"
    using decompose_url_any [OF u(2,3)] u(1) by auto
  obtain pre f where f: "strrchr path (CHR ''/'') = Some (pre, f)" by (simp add: strrchr_def u(3) Let_def)
  have "length f \<le> length path" using length_strrchr [OF f] .
  then have "length (''.'' @ f) < 512" using len u(1) by simp
  then show "accept_request exist (player_request (''/?'' @ u) rest) = Inr (Remote u ''HTTP/1.1'')"
    using none [OF f] unfolding accept_request_def line prod.case Let_def parse
    by (simp add: remote orig d f del: append.simps)
qed

theorem gproxy_url_is_fetched_witness:
  "accept_request (\<lambda>_. False) (player_request (''/?'' @ ''http://a.org/m/v.mp4'') ''Host: x'')
     = Inr (Remote ''http://a.org/m/v.mp4'' ''HTTP/1.1'')"
  using gproxy_url_is_fetched [of "''http://a.org/m/v.mp4''" "''a.org''" "''/m/v.mp4''" "''m/v.mp4''"
      "\<lambda>_. False" "''Host: x''"] by (simp add: is_space_def)

section \<open>Local files\<close>

lemma send_file_content_full:
  assumes "\<forall>n \<in> set ns. 512 \<le> n" "length content div 512 < length ns"
  shows "send_file_content ns content = content"
  using assms
proof (induction ns arbitrary: content)
  case (Cons n ns)
  have n: "512 \<le> n" using Cons.prems(1) by simp
  then have blk: "take (nat n) (take 512 content) = take 512 content" by (simp add: take_all)
  show ?case
  proof (cases "length content < 512")
    case True
    then show ?thesis using blk n by (simp add: Let_def)
  next
    case False
    have "length (drop 512 content) div 512 < length ns"
      using Cons.prems(2) False by (simp add: div_if [of "length content"])
    then have "send_file_content ns (drop 512 content) = drop 512 content" using Cons by simp
    then show ?thesis using False blk n by (simp add: Let_def)
  qed
qed simp

text \<open>a local file is sent whole after its header, when no \<open>send\<close> is short.\<close>

theorem local_file_sent_whole:
  assumes "local_path False url = Inr path" "files path = Some content"
    and "\<forall>n \<in> set ns. 512 \<le> n" "length content div 512 < length ns"
    and "send_local_file files False ns url version = Inr reply"
  shows "\<exists>h. reply = h @ content \<and> send_file_headers (case strrchr path (CHR ''/'') of None \<Rightarrow> path | Some (_, f) \<Rightarrow> f) 0 = Inr h"
  using assms send_file_content_full [of ns content]
  by (auto simp: send_local_file_def Let_def elim!: bindR_InrE)

theorem local_file_sent_whole_witness:
  "\<exists>reply h. send_local_file (\<lambda>p. if p = ''./a.ico'' then Some ''xyz'' else None) False [512] ''/a.ico'' ''HTTP/1.1'' = Inr reply
     \<and> reply = h @ ''xyz''"
proof -
  let ?f = "\<lambda>p. if p = ''./a.ico'' then Some ''xyz'' else None"
  have path: "local_path False ''/a.ico'' = Inr ''./a.ico''" by (simp add: local_path_def)
  obtain h where h: "send_file_headers (case strrchr ''./a.ico'' (CHR ''/'') of None \<Rightarrow> ''./a.ico'' | Some (_, f) \<Rightarrow> f) 0 = Inr h"
    by (simp add: send_file_headers_def strrchr_def content_type_of_def mime_types_def file_exts_def SERVER_STRING_def Let_def)
  then obtain reply where r: "send_local_file ?f False [512] ''/a.ico'' ''HTTP/1.1'' = Inr reply"
    by (simp add: send_local_file_def path Let_def)
  then show ?thesis using local_file_sent_whole [OF path _ _ _ r] by auto
qed

section \<open>Passing the video on\<close>

text \<open>C17: in whatever rounds the loop comes to its end or to any point before it, with the downloading thread moving
  \<open>last_downloaded_byte\<close> between any two of its reads, the player has been sent each byte of the file up to \<open>first_not_sent_byte\<close> once and
  in order: the byte at place \<open>x\<close> of what was sent is what the file held at offset \<open>x\<close> in a round in which the mark was above
  \<open>x\<close>, so nothing is sent ahead of the mark. Conditions: no \<open>send\<close> is short, the mark does not fall inside a round and does not pass the
  size of the file, and the loop was not stopped by the overlong read of the race below.\<close>

theorem player_gets_prefix:
  assumes "\<forall>r \<in> set rs. mark_grows fsize r \<and> full_send r" "send_remote_file fsize rs start_serving = Inr s"
  shows "int (length (delivered s)) = first_not_sent_byte s
    \<and> (\<forall>x < length (delivered s). \<exists>r \<in> set rs. read_at r x (delivered s ! x))"
  using send_remote_file_serves [OF assms(1) subset_refl start_serves assms(2)] by (simp add: serves_def)

definition sample_rounds :: "round list" where
  "sample_rounds = [\<lparr>ld = (2, 2, 2, 3), contents = store Map.empty 0 ''ab'', got = 5, sent = 128, freed = False\<rparr>,
     \<lparr>ld = (3, 3, 3, 3), contents = store Map.empty 0 ''abc'', got = 5, sent = 128, freed = False\<rparr>]"

theorem player_gets_prefix_witness:
  "\<exists>s. send_remote_file 3 sample_rounds start_serving = Inr s \<and> length (delivered s) = 3
    \<and> read_at (sample_rounds ! 1) 2 (delivered s ! 2)"
proof -
  have "\<exists>s. send_remote_file 3 sample_rounds start_serving = Inr s \<and> first_not_sent_byte s = 3"
    by (simp add: sample_rounds_def serve_round_def start_serving_def BUF_FILE_BUF_SIZE_def to_int_def)
  then obtain s where s: "send_remote_file 3 sample_rounds start_serving = Inr s" "first_not_sent_byte s = 3" by blast
  have "\<forall>r \<in> set sample_rounds. mark_grows 3 r \<and> full_send r"
    by (simp add: sample_rounds_def mark_grows_def full_send_def BUF_FILE_BUF_SIZE_def)
  from player_gets_prefix [OF this s(1)]
  have l: "length (delivered s) = 3" and r: "\<exists>r \<in> set sample_rounds. read_at r 2 (delivered s ! 2)"
    using s(2) by auto
  have "read_at (sample_rounds ! 1) 2 (delivered s ! 2)"
    using r by (auto simp: sample_rounds_def read_at_def)
  then show ?thesis using s(1) l by blast
qed

text \<open>C20: the in-order offset is a promise while both connections are at work (neither \<open>connection\<close> pointer is \<open>NULL\<close>): in
  every state in which the balance holds, as it does throughout a download, each byte below the value that
  \<open>update_inorder_offset\<close> sets has been written.\<close>

theorem inorder_prefix_written:
  assumes "acct_but {} p" "\<And>k. connection (offset_info p) k \<noteq> None"
    and "update_inorder_offset p = Inr q" "0 \<le> x" "x < inorder_offset q"
  shows "outfile q x \<noteq> None"
  using assms by (rule inorder_written)

definition small_half :: proc where
  "small_half = advance LTE ''ab'' small_started"

lemma small_half_acct: "acct small_half"
proof -
  have c: "current_chunk (offset_info small_started) LTE = Some (part LTE)"
    by (simp add: current_chunk_def small_defs empty_offset_info_def)
  have "currentbyte (conn small_started LTE) + int (length ''ab'') \<le> last_byte (part LTE) + 1"
    by (simp add: small_defs)
  with started_acct [OF small_is_started] c have "acct_but {LTE} small_half"
    unfolding small_half_def by (rule advance_acct)
  then show ?thesis by (rule acct_not_at_end) (simp add: small_half_def small_defs)
qed

theorem inorder_prefix_written_witness:
  "\<exists>q. update_inorder_offset small_half = Inr q \<and> inorder_offset q = 2 \<and> outfile q 1 \<noteq> None"
proof -
  have "\<exists>q. update_inorder_offset small_half = Inr q \<and> inorder_offset q = 2"
    by (simp add: small_half_def advance_def small_defs update_inorder_offset_def mark_idle_def
        find_inorder_offset_def is_using_only_one_link_def min_start_of_def conn_ok_def upd_conn_def upd_off_def
        empty_offset_info_def Let_def)
  then obtain q where q: "update_inorder_offset small_half = Inr q" "inorder_offset q = 2" by blast
  have "connection (offset_info small_half) k \<noteq> None" for k
    by (simp add: small_half_def small_defs)
  then have "outfile q 1 \<noteq> None"
    using inorder_prefix_written [OF small_half_acct _ q(1), of 1] q(2) by simp
  then show ?thesis using q by blast
qed

text \<open>C21: between the comparison of the block size and its use the downloading thread may move
  \<open>last_downloaded_byte\<close> on: then the read is longer than its buffer.\<close>

theorem block_size_race:
  assumes "ld r = (ld1, ld2, ld3, ld4)" "first_not_sent_byte s \<le> ld1"
    and "first_not_sent_byte s \<le> ld2" "ld2 - first_not_sent_byte s < 128"
    and "128 < ld3 - first_not_sent_byte s" "ld3 - first_not_sent_byte s < 2 ^ 31" "\<not> freed r"
  shows "serve_round fsize r s = Inl OutOfBounds"
proof -
  have "to_int (ld3 - first_not_sent_byte s) = ld3 - first_not_sent_byte s"
    using assms by (intro to_int_id) (simp add: in_int_def int_min_def int_max_def)
  then show ?thesis using assms by (simp add: serve_round_def BUF_FILE_BUF_SIZE_def)
qed

theorem block_size_race_witness:
  "serve_round 4000 \<lparr>ld = (100, 100, 300, 300), contents = Map.empty, got = 300, sent = 300, freed = False\<rparr> start_serving
     = Inl OutOfBounds"
  by (rule block_size_race [of _ 100 100 300 300]) (simp_all add: start_serving_def)

end
