(* ===== verification/Names.thy ===== *)
theory Names
  imports Proxy
begin

text \<open>
  Files and interfaces looked up by name (\<^verbatim>\<open>util.c\<close>, \<^verbatim>\<open>lookup_if_names.c\<close>): the log file that does not
  exist yet, the bit rate of a video in the dictionary, the first interface that is on line.
  Which files can be opened, the date and the list of interfaces are arguments.
\<close>

section \<open>A file name that is not taken\<close>

text \<open>
  The loop that counts the names up; \<open>file_index\<close> is an int. It ends because the index cannot pass
  \<open>int_max\<close>.
\<close>

function next_free :: "(string \<Rightarrow> bool) \<Rightarrow> string \<Rightarrow> string \<Rightarrow> int \<Rightarrow> string res" where
  "next_free exist base ext i =
     (let f = base @ ''.'' @ show_int i @ ''.'' @ ext in
      if \<not> exist f then Inr f
      else if i \<ge> int_max then Inl SignedOverflow
      else next_free exist base ext (i + 1))"
  by pat_completeness auto

termination by (relation "measure (\<lambda>(_, _, _, i). nat (int_max - i))") auto

declare next_free.simps [simp del]

definition split_ext :: "string \<Rightarrow> string \<times> string" where
  "split_ext path = (case strrchr path (CHR ''.'') of None \<Rightarrow> (path, []) | Some (a, e) \<Rightarrow> (a, tl e))"

text \<open>
  The two functions that put the date and, if that name is taken, a number before the extension.
  \<open>date_id\<close> is the text of \<open>strftime\<close>, day of the year and time of day. The arrays for the extension have
  16 and 8 bytes, the one for the name 536 bytes in \<open>gen_unique_filepath\<close>, which also needs an extension.
\<close>

definition dated_name :: "(string \<Rightarrow> bool) \<Rightarrow> string \<Rightarrow> string \<Rightarrow> string \<Rightarrow> string res" where
  "dated_name exist date_id base ext =
     (let stem = base @ ''.'' @ date_id; f = stem @ ''.'' @ ext in
      if exist f then next_free exist stem ext 1 else Inr f)"

definition get_unique_filepath :: "(string \<Rightarrow> bool) \<Rightarrow> string \<Rightarrow> string \<Rightarrow> string res" where
  "get_unique_filepath exist date_id path =
     (let (base, ext) = split_ext path in
      if length ext \<ge> 16 then Inl OutOfBounds
      else dated_name exist date_id base ext)"

definition gen_unique_filepath :: "(string \<Rightarrow> bool) \<Rightarrow> string \<Rightarrow> string \<Rightarrow> string res" where
  "gen_unique_filepath exist date_id path =
     (if length path \<ge> 536 then Inl OutOfBounds
      else case strrchr path (CHR ''.'') of
          None \<Rightarrow> Inl NullDeref
        | Some (base, e) \<Rightarrow>
            if length (tl e) \<ge> 8 then Inl OutOfBounds
            else bindR (dated_name exist date_id base (tl e)) (\<lambda>f.
              if length f \<ge> 536 then Inl OutOfBounds else Inr f))"

section \<open>The dictionary of bit rates\<close>

text \<open>\<open>fgets\<close> into 2048 bytes: lines with their newline, longer ones in pieces.\<close>

function fgets_lines :: "string \<Rightarrow> string list" where
  "fgets_lines s =
     (if s = [] then []
      else let n = min 2047 (Suc (length (takeWhile (\<lambda>c. c \<noteq> CHR 0x0A) s)))
           in take n s # fgets_lines (drop n s))"
  by pat_completeness auto

termination by (relation "measure length") auto

declare fgets_lines.simps [simp del]

text \<open>
  \<open>sscanf\<close> of a word and a number keeps what a former line left in the variables where it finds
  nothing; before the first word they are not set. The word goes into 512 bytes.
\<close>

definition scan_entry :: "string \<Rightarrow> string option \<times> int option \<Rightarrow> (string option \<times> int option) res" where
  "scan_entry line = (\<lambda>(f_url, bitrate).
     let s = skip_space line; w = takeWhile (\<lambda>c. \<not> is_space c) s in
     if w = [] then Inr (f_url, bitrate)
     else if length w \<ge> 512 then Inl OutOfBounds
     else Inr (Some w,
       case scan_signed (scan_unsigned 10) (skip_space (drop (length w) s)) of
         None \<Rightarrow> bitrate | Some n \<Rightarrow> Some (to_int n)))"

fun get_bitrate_loop :: "string \<Rightarrow> string option \<times> int option \<Rightarrow> string list \<Rightarrow> int res" where
  "get_bitrate_loop url v [] = Inr (- 1)"
| "get_bitrate_loop url v (line # ls) =
     (if starts_with line ''#'' then get_bitrate_loop url v ls
      else bindR (scan_entry line v) (\<lambda>(f_url, bitrate).
        case f_url of
          None \<Rightarrow> Inl Uninit
        | Some f \<Rightarrow>
            if f = url then (case bitrate of None \<Rightarrow> Inl Uninit | Some b \<Rightarrow> Inr b)
            else get_bitrate_loop url (f_url, bitrate) ls))"

text \<open>The dictionary is a file in the working directory, if it is there.\<close>

definition get_bitrate :: "string option \<Rightarrow> string \<Rightarrow> int res" where
  "get_bitrate dict url =
     (case dict of None \<Rightarrow> Inr (- 1)
      | Some text \<Rightarrow> get_bitrate_loop url (None, None) (fgets_lines text))"

section \<open>Interfaces\<close>

definition lte_if_names :: "string list" where
  "lte_if_names = [''rmnet_sdio0'', ''rmnet_sdio1'', ''eth0'']"
definition wifi_if_names :: "string list" where
  "wifi_if_names = [''wlan0'', ''eth1'']"

definition if_names :: "link \<Rightarrow> string list" where
  "if_names k = (case k of LTE \<Rightarrow> lte_if_names | WIFI \<Rightarrow> wifi_if_names)"

text \<open>
  The first known name that is on line (\<open>None\<close>: failure, \<open>found_if_name\<close> stays as it was). The thread
  ends when no interface is on line.
\<close>

definition lookup_if_name :: "string list \<Rightarrow> link \<Rightarrow> string option res" where
  "lookup_if_name online k =
     (if online = [] then Inl (Exit 0)
      else Inr (find (\<lambda>n. \<exists>m \<in> set online. n = m) (if_names k)))"

section \<open>Lemmas\<close>

lemma next_free_not_taken: "next_free exist base ext i = Inr f \<Longrightarrow> \<not> exist f"
proof (induction exist base ext i rule: next_free.induct)
  case (1 exist base ext i)
  then show ?case by (subst (asm) (2) next_free.simps) (auto simp: Let_def split: if_splits)
qed

text \<open>When the loop overflows, all the names it tried are taken.\<close>

lemma next_free_tried:
  "next_free exist base ext i = Inl e \<Longrightarrow> j \<in> {i..int_max} \<Longrightarrow>
   exist (base @ ''.'' @ show_int j @ ''.'' @ ext)"
proof (induction exist base ext i rule: next_free.induct)
  case (1 exist base ext i)
  let ?f = "base @ ''.'' @ show_int i @ ''.'' @ ext"
  have f: "exist ?f" using 1(2) by (subst (asm) next_free.simps) (auto simp: Let_def split: if_splits)
  show ?case
  proof (cases "j = i")
    case False
    then have "i < int_max" "j \<in> {i + 1..int_max}" using 1(3) by auto
    moreover have "next_free exist base ext (i + 1) = Inl e"
      using 1(2) f \<open>i < int_max\<close> by (subst (asm) next_free.simps) simp
    ultimately show ?thesis using 1(1) [OF refl] f by auto
  qed (use f in simp)
qed

lemma next_free_total:
  assumes "finite {f. exist f}" "card {f. exist f} < 2 ^ 31 - 1"
  shows "\<exists>f. next_free exist base ext 1 = Inr f"
proof (cases "next_free exist base ext 1")
  case (Inl e)
  let ?name = "\<lambda>j. base @ ''.'' @ show_int j @ ''.'' @ ext"
  have "inj_on ?name {1..int_max}" by (auto intro!: inj_onI intro: decimal.enc_inj)
  then have "card (?name ` {1..int_max}) = 2 ^ 31 - 1" by (simp add: card_image int_max_def)
  moreover have "?name ` {1..int_max} \<subseteq> {f. exist f}" using next_free_tried [OF Inl] by auto
  ultimately show ?thesis using card_mono [OF assms(1)] assms(2) by (metis not_less)
qed simp

lemma show_int_not_Nil [simp]: "show_int b \<noteq> []"
  by (simp add: show_int_def)

lemma length_show_nat: "n < 10 ^ Suc k \<Longrightarrow> length (show_nat n) \<le> Suc k"
proof (induction k arbitrary: n)
  case (Suc k)
  show ?case
  proof (cases "n < 10")
    case False
    have "n div 10 < 10 ^ Suc k" using Suc.prems by (simp add: less_mult_imp_div_less)
    from Suc.IH [OF this] False show ?thesis by (simp add: show_nat.simps [of n])
  qed (simp add: show_nat.simps [of n])
qed (subst show_nat.simps, simp)

text \<open>One line of a dictionary, and what the scan makes of it.\<close>

definition entry_line :: "string \<times> int \<Rightarrow> string" where
  "entry_line = (\<lambda>(u, b). u @ [CHR 0x09] @ show_int b @ [CHR 0x0A])"

definition entry_ok :: "string \<times> int \<Rightarrow> bool" where
  "entry_ok = (\<lambda>(u, b). u \<noteq> [] \<and> hd u \<noteq> CHR ''#'' \<and> length u < 512 \<and> (\<forall>c \<in> set u. \<not> is_space c)
     \<and> 0 \<le> b \<and> b \<le> int_max)"

lemma is_space_digit: "is_digit 10 c \<Longrightarrow> \<not> is_space c"
  by (auto simp: is_digit_def digit_val_def is_space_def Let_def split: if_splits)

lemma show_int_digits: "0 \<le> b \<Longrightarrow> c \<in> set (show_int b) \<Longrightarrow> is_digit 10 c"
  by (simp add: show_int_def show_nat_digits)

lemma scan_signed_show:
  assumes "0 \<le> b"
  shows "scan_signed (scan_unsigned 10) (show_int b @ [CHR 0x0A]) = Some b"
proof -
  obtain c cs where s: "show_int b = c # cs" by (cases "show_int b") auto
  have c: "is_digit 10 c" using show_int_digits [OF assms, of c] by (simp add: s)
  then have "c \<noteq> CHR ''-''" "c \<noteq> CHR ''+''" by (auto simp: is_digit_def digit_val_def)
  moreover have "scan_digits 10 0 (show_int b @ [CHR 0x0A]) = (b, [CHR 0x0A])"
    using assms scan_digits_show_nat [of "nat b" "[CHR 0x0A]"]
    by (simp add: show_int_def digit_val_def)
  ultimately show ?thesis using c by (simp add: scan_signed_def scan_unsigned_def s)
qed

lemma scan_entry_line:
  assumes "entry_ok (u, b)"
  shows "scan_entry (entry_line (u, b)) v = Inr (Some u, Some b)"
proof -
  have ok: "u \<noteq> []" "length u < 512" "\<forall>c \<in> set u. \<not> is_space c" "0 \<le> b" "b \<le> int_max"
    using assms by (simp_all add: entry_ok_def)
  let ?r = "[CHR 0x09] @ show_int b @ [CHR 0x0A]"
  have tab: "is_space (CHR 0x09)" by (simp add: is_space_def)
  have s: "skip_space (u @ ?r) = u @ ?r" using ok(1,3) by (cases u) (simp_all add: skip_space_def)
  have w: "takeWhile (\<lambda>c. \<not> is_space c) (u @ ?r) = u"
    using ok(3) tab by (subst takeWhile_append2) simp_all
  have "\<not> is_space (hd (show_int b))" "show_int b \<noteq> []"
    using is_space_digit [OF show_int_digits [OF ok(4)], of "hd (show_int b)"] ok(4)
    by auto
  then have r: "skip_space ?r = show_int b @ [CHR 0x0A]"
    using tab by (cases "show_int b") (simp_all add: skip_space_def)
  have "to_int b = b" using ok(4,5) by (intro to_int_id) (simp add: in_int_def int_min_def)
  then show ?thesis
    using ok(1,2) r unfolding scan_entry_def entry_line_def prod.case Let_def s w
    by (cases v) (simp add: scan_signed_show [OF ok(4)])
qed

lemma entry_line_one:
  assumes "entry_ok e"
  shows "fgets_lines (entry_line e @ rest) = entry_line e # fgets_lines rest"
proof -
  obtain u b where e: "e = (u, b)" by (cases e)
  have ok: "u \<noteq> []" "length u < 512" "\<forall>c \<in> set u. \<not> is_space c" "0 \<le> b" "b \<le> int_max"
    using assms by (simp_all add: entry_ok_def e)
  let ?l = "u @ [CHR 0x09] @ show_int b"
  have nl: "is_space (CHR 0x0A)" by (simp add: is_space_def)
  then have "CHR 0x0A \<notin> set ?l" using ok(3) is_space_digit [OF show_int_digits [OF ok(4)]] by auto
  then have "takeWhile (\<lambda>c. c \<noteq> CHR 0x0A) (?l @ [CHR 0x0A] @ rest) = ?l"
    by (subst takeWhile_append2) auto
  then have t: "takeWhile (\<lambda>c. c \<noteq> CHR 0x0A) (entry_line e @ rest) = ?l"
    by (simp add: entry_line_def e)
  have "length (show_nat (nat b)) \<le> Suc 9" using ok(5) by (intro length_show_nat) (simp add: int_max_def)
  then have "length ?l < 2046" using ok(2,4) by (simp add: show_int_def)
  then have "min 2047 (Suc (length ?l)) = length (entry_line e)" by (simp add: entry_line_def e)
  moreover have "entry_line e \<noteq> []" by (simp add: entry_line_def e)
  ultimately show ?thesis
    by (subst fgets_lines.simps) (simp add: t del: append_assoc)
qed

lemma fgets_entries:
  assumes "\<forall>e \<in> set es. entry_ok e"
  shows "fgets_lines (concat (map entry_line es)) = map entry_line es"
  using assms
proof (induction es)
  case (Cons e es)
  then show ?case using entry_line_one [of e] by simp
qed (simp add: fgets_lines.simps)

lemma get_bitrate_loop_entries:
  assumes "\<forall>e \<in> set es. entry_ok e"
  shows "get_bitrate_loop url v (map entry_line es) = Inr (case map_of es url of None \<Rightarrow> - 1 | Some b \<Rightarrow> b)"
  using assms
proof (induction es arbitrary: v)
  case (Cons e es)
  obtain u b where e: "e = (u, b)" by (cases e)
  have ok: "entry_ok (u, b)" using Cons.prems e by simp
  then have "\<not> starts_with (entry_line (u, b)) ''#''"
    by (cases u) (auto simp: entry_ok_def entry_line_def starts_with_def)
  then show ?case using Cons scan_entry_line [OF ok] by (simp add: e)
qed simp

end
