(* ===== verification/Options.thy ===== *)
theory Options
  imports Names
begin

text \<open>
  The configuration: its defaults and the configuration files (\<^verbatim>\<open>conf.c\<close>), and the command line
  (\<open>parse_args\<close> of \<^verbatim>\<open>gbsession.c\<close>). The text of a file, the value of \<open>HOME\<close> and the address of an interface are
  arguments; \<open>getopt_long\<close> of the C library is a function here.
\<close>

section \<open>Reading numbers\<close>

text \<open>
  One conversion of \<open>sscanf\<close> into a variable. \<open>None\<close> is a result of 0; on text with nothing but spaces
  the result is -1, not 0, and the variable keeps its value. \<open>strtol\<close> stops at the bounds of
  \<open>long\<close>, and the value is then stored in an int.
\<close>

definition sscanf1 :: "(string \<Rightarrow> 'a option) \<Rightarrow> string \<Rightarrow> 'a \<Rightarrow> 'a option" where
  "sscanf1 conv s old = (let t = skip_space s in if t = [] then Some old else conv t)"

definition clamp_ll :: "int \<Rightarrow> int" where
  "clamp_ll x = (if x < ll_min then ll_min else if x > ll_max then ll_max else x)"

definition conv_i :: "string \<Rightarrow> int option" where
  "conv_i s = map_option (\<lambda>n. to_int (clamp_ll n)) (scan_i s)"

definition conv_d :: "string \<Rightarrow> int option" where
  "conv_d s = map_option (\<lambda>n. to_int (clamp_ll n)) (scan_signed (scan_unsigned 10) s)"

definition conv_lld :: "string \<Rightarrow> int option" where
  "conv_lld s = map_option clamp_ll (scan_signed (scan_unsigned 10) s)"

text \<open>\<open>%lf\<close>: digits with a fraction and an exponent, of base 10 or, after \<open>0x\<close>, 16; infinity, not-a-number.\<close>

definition scan_mantissa :: "nat \<Rightarrow> string \<Rightarrow> (int \<times> nat \<times> string) option" where
  "scan_mantissa base s =
     (let (i, r) = scan_digits base 0 s;
          (m, k, r') = (if r \<noteq> [] \<and> hd r = CHR ''.''
                        then let (m, t) = scan_digits base i (tl r) in (m, length (tl r) - length t, t)
                        else (i, 0, r))
      in if length s - length r + k = 0 then None else Some (m, k, r'))"

definition rat_power :: "nat \<Rightarrow> int \<Rightarrow> rat" where
  "rat_power b e = (if e \<ge> 0 then of_nat b ^ nat e else 1 / of_nat b ^ nat (- e))"

definition scan_float :: "nat \<Rightarrow> nat \<Rightarrow> char \<Rightarrow> string \<Rightarrow> rat option" where
  "scan_float base ebase mark s =
     (case scan_mantissa base s of
        None \<Rightarrow> None
      | Some (m, k, r) \<Rightarrow>
          (let x = of_int m / of_nat base ^ k in
           if r \<noteq> [] \<and> lower (hd r) = mark
           then map_option (\<lambda>e. x * rat_power ebase e) (scan_signed (scan_unsigned 10) (tl r))
           else Some x))"

definition scan_dbl :: "string \<Rightarrow> dbl option" where
  "scan_dbl s =
     (let t = map lower s in
      if take 3 t = ''nan'' then Some NaN
      else if take 3 t = ''inf'' then (if take 4 t = ''infi'' \<and> take 8 t \<noteq> ''infinity'' then None else Some PInf)
      else if hex_prefix s then map_option Fin (scan_float 16 2 CHR ''p'' (drop 2 s))
      else map_option Fin (scan_float 10 10 CHR ''e'' s))"

definition conv_lf :: "string \<Rightarrow> dbl option" where
  "conv_lf s = (case s of
      [] \<Rightarrow> None
    | c # cs \<Rightarrow> if c = CHR ''-'' then map_option dbl_neg (scan_dbl cs)
                else if c = CHR ''+'' then scan_dbl cs else scan_dbl s)"

section \<open>The command line\<close>

text \<open>
  \<open>getopt_long\<close>: the options in the order of the arguments with their \<open>optarg\<close>, a question mark for what it does
  not know. Other arguments are passed over; \<open>--\<close> ends the options. A long name may be cut short
  as long as only one option starts with it.
\<close>

definition gb_options :: "(string \<times> bool \<times> char) list" where
  "gb_options =
    [(''num-connections'', True, CHR ''n''), (''verbose'', False, CHR ''v''),
     (''num_of_segments'', True, CHR ''i''), (''link_1_chunk_rate'', True, CHR ''1''),
     (''link_2_chunk_rate'', True, CHR ''2''), (''Required-QoS'', True, CHR ''Q''),
     (''Fixed-stage-size-mode'', True, CHR ''F''), (''Fixed-segment-size-mode'', True, CHR ''f''),
     (''Minmum-energy-mode'', True, CHR ''E''), (''Weighted-Bandwidth-factor'', True, CHR ''W''),
     (''Bandwidth-factor-for-mode'', True, CHR ''A''), (''Bandwidth-factor-for-stage'', True, CHR ''B''),
     (''Log-file-name'', True, CHR ''l''), (''Fixed segment size'', True, CHR ''S''),
     (''Recovery mode'', True, CHR ''R''), (''Recovery decision factor'', True, CHR ''d'')]"

definition short_options :: string where "short_options = ''n:vi:1:2:Q:F:f:E:W:A:B:l:S:R:d:''"

text \<open>Whether a letter is an option and takes an argument.\<close>

fun short_option :: "string \<Rightarrow> char \<Rightarrow> bool option" where
  "short_option [] c = None"
| "short_option (x # xs) c =
     (if x = c \<and> c \<noteq> CHR '':'' then Some (xs \<noteq> [] \<and> hd xs = CHR '':'') else short_option xs c)"

text \<open>The letters of one argument, and the arguments that follow what it takes.\<close>

fun scan_cluster :: "string \<Rightarrow> string \<Rightarrow> string list \<Rightarrow> (char \<times> string) list \<times> string list" where
  "scan_cluster opts [] as = ([], as)"
| "scan_cluster opts (c # cs) as =
     (case short_option opts c of
        None \<Rightarrow> (let (os, r) = scan_cluster opts cs as in ((CHR ''?'', []) # os, r))
      | Some False \<Rightarrow> (let (os, r) = scan_cluster opts cs as in ((c, []) # os, r))
      | Some True \<Rightarrow>
          if cs \<noteq> [] then ([(c, cs)], as)
          else (case as of [] \<Rightarrow> ([(CHR ''?'', [])], []) | a # r \<Rightarrow> ([(c, a)], r)))"

definition find_long :: "(string \<times> bool \<times> char) list \<Rightarrow> string \<Rightarrow> (bool \<times> char) option" where
  "find_long longs nm =
     (case map_of longs nm of
        Some x \<Rightarrow> Some x
      | None \<Rightarrow> (case filter (\<lambda>(n, _). take (length nm) n = nm) longs of [(_, x)] \<Rightarrow> Some x | _ \<Rightarrow> None))"

definition scan_long :: "(string \<times> bool \<times> char) list \<Rightarrow> string \<Rightarrow> string list \<Rightarrow> (char \<times> string) \<times> string list" where
  "scan_long longs s as =
     (case find_long longs (takeWhile (\<lambda>c. c \<noteq> CHR ''='') s) of
        None \<Rightarrow> ((CHR ''?'', []), as)
      | Some (has_arg, c) \<Rightarrow>
          (case strchr s (CHR ''='') of
             Some (_, v) \<Rightarrow> if has_arg then ((c, tl v), as) else ((CHR ''?'', []), as)
           | None \<Rightarrow>
               if \<not> has_arg then ((c, []), as)
               else (case as of [] \<Rightarrow> ((CHR ''?'', []), []) | a # r \<Rightarrow> ((c, a), r))))"

lemma length_scan_cluster: "length (snd (scan_cluster opts cs as)) \<le> length as"
  by (induction opts cs as rule: scan_cluster.induct) (auto split: option.splits bool.splits list.splits prod.splits)

lemma length_scan_long: "length (snd (scan_long longs s as)) \<le> length as"
  by (auto simp: scan_long_def split: option.splits list.splits)

function getopt_long :: "string \<Rightarrow> (string \<times> bool \<times> char) list \<Rightarrow> string list \<Rightarrow> (char \<times> string) list" where
  "getopt_long opts longs [] = []"
| "getopt_long opts longs (a # as) =
     (if a = ''--'' then []
      else if take 1 a \<noteq> ''-'' \<or> a = ''-'' then getopt_long opts longs as
      else if take 2 a = ''--'' then
        let x = scan_long longs (drop 2 a) as in fst x # getopt_long opts longs (snd x)
      else
        let x = scan_cluster opts (tl a) as in fst x @ getopt_long opts longs (snd x))"
  by pat_completeness auto

termination
  by (relation "measure (\<lambda>(_, _, as). length as)")
     (auto simp: le_imp_less_Suc length_scan_long length_scan_cluster)

text \<open>
  The loop of \<open>parse_args\<close> with its two flags; \<open>None\<close> is \<open>FAILURE_STATUS\<close>. \<open>-v\<close> only counts in a variable
  that nothing reads.
\<close>

definition set_number :: "(string \<Rightarrow> 'a option) \<Rightarrow> string \<Rightarrow> 'a \<Rightarrow> ('a \<Rightarrow> conf_t) \<Rightarrow> conf_t option" where
  "set_number conv arg old upd = map_option upd (sscanf1 conv arg old)"

definition parse_option :: "char \<Rightarrow> string \<Rightarrow> conf_t \<Rightarrow> conf_t option" where
  "parse_option opt arg c =
     (if opt = CHR ''n'' then set_number conv_i arg (num_connections c) (\<lambda>x. c\<lparr>num_connections := x\<rparr>)
      else if opt = CHR ''i'' then set_number conv_i arg (num_of_segments c) (\<lambda>x. c\<lparr>num_of_segments := x\<rparr>)
      else if opt = CHR ''S'' then
        set_number conv_lld arg (fixed_segment_size_KB c) (\<lambda>x. c\<lparr>fixed_segment_size_KB := x\<rparr>)
      else if opt = CHR ''1'' then
        set_number conv_i arg (initial_chunk_rate c LTE) (\<lambda>x. c\<lparr>initial_chunk_rate := (initial_chunk_rate c)(LTE := x)\<rparr>)
      else if opt = CHR ''2'' then
        set_number conv_i arg (initial_chunk_rate c WIFI) (\<lambda>x. c\<lparr>initial_chunk_rate := (initial_chunk_rate c)(WIFI := x)\<rparr>)
      else if opt = CHR ''Q'' then set_number conv_d arg (qos_kbps c) (\<lambda>x. c\<lparr>qos_kbps := x\<rparr>)
      else if opt = CHR ''F'' then set_number conv_i arg (fixed_segment_mode c) (\<lambda>x. c\<lparr>fixed_segment_mode := x\<rparr>)
      else if opt = CHR ''f'' then
        set_number conv_i arg (fixed_subsegment_mode c) (\<lambda>x. c\<lparr>fixed_subsegment_mode := x\<rparr>)
      else if opt = CHR ''E'' then set_number conv_i arg (minimum_energy_mode c) (\<lambda>x. c\<lparr>minimum_energy_mode := x\<rparr>)
      else if opt = CHR ''W'' then set_number conv_lf arg (ewma_factor c) (\<lambda>x. c\<lparr>ewma_factor := x\<rparr>)
      else if opt = CHR ''A'' then set_number conv_lf arg (BW_factor_for_mode c) (\<lambda>x. c\<lparr>BW_factor_for_mode := x\<rparr>)
      else if opt = CHR ''B'' then set_number conv_lf arg (BW_factor_for_stage c) (\<lambda>x. c\<lparr>BW_factor_for_stage := x\<rparr>)
      else if opt = CHR ''l'' then Some (c\<lparr>log_file := take MAX_STRING arg\<rparr>)
      else if opt = CHR ''R'' then set_number conv_i arg (recovery_mode c) (\<lambda>x. c\<lparr>recovery_mode := x\<rparr>)
      else if opt = CHR ''d'' then
        set_number conv_lf arg (recovery_decision_factor c) (\<lambda>x. c\<lparr>recovery_decision_factor := x\<rparr>)
      else Some c)"

fun parse_options :: "(char \<times> string) list \<Rightarrow> bool \<Rightarrow> bool \<Rightarrow> conf_t \<Rightarrow> conf_t option" where
  "parse_options [] i_set s_set c = Some (if i_set \<and> s_set then c\<lparr>num_of_segments := 0\<rparr> else c)"
| "parse_options ((opt, arg) # os) i_set s_set c =
     (case parse_option opt arg c of
        None \<Rightarrow> None
      | Some c' \<Rightarrow> parse_options os (i_set \<or> opt = CHR ''i'') (s_set \<or> opt = CHR ''S'') c')"

definition parse_args :: "conf_t \<Rightarrow> string list \<Rightarrow> conf_t option" where
  "parse_args c argv = parse_options (getopt_long short_options gb_options (tl argv)) False False c"

section \<open>The configuration files\<close>

text \<open>
  One interface per word, its address looked up unless the word begins with a digit. \<open>if_ip\<close> is what the
  array of the new element holds after \<open>get_if_ip\<close>; it takes a name of at most 15 characters.
\<close>

definition is_blank :: "char \<Rightarrow> bool" where
  "is_blank c \<longleftrightarrow> c = CHR '' '' \<or> c = CHR 0x09"

lemma dropWhile_shorter:
  "dropWhile P s \<noteq> [] \<Longrightarrow> length (dropWhile P s) - Suc n < length s"
proof -
  assume "dropWhile P s \<noteq> []"
  then have "0 < length (dropWhile P s)" by simp
  then show ?thesis using length_dropWhile_le [of P s] by linarith
qed

function interface_words :: "string \<Rightarrow> string list" where
  "interface_words s =
     (let t = dropWhile is_blank s; w = takeWhile (\<lambda>c. \<not> is_blank c) t; r = drop (Suc (length w)) t in
      if r = [] then [w] else w # interface_words r)"
  by pat_completeness auto

termination by (relation "measure length") (auto intro!: dropWhile_shorter)

definition interface_text :: "(string \<Rightarrow> string) \<Rightarrow> string \<Rightarrow> string res" where
  "interface_text if_ip w =
     (if w = [] \<or> \<not> is_digit 10 (hd w)
      then (if length w \<ge> 16 then Inl OutOfBounds else Inr (if_ip w))
      else Inr w)"

fun mapR :: "('a \<Rightarrow> 'b res) \<Rightarrow> 'a list \<Rightarrow> 'b list res" where
  "mapR f [] = Inr []"
| "mapR f (x # xs) = bindR (f x) (\<lambda>y. bindR (mapR f xs) (\<lambda>ys. Inr (y # ys)))"

definition parse_interfaces :: "(string \<Rightarrow> string) \<Rightarrow> string \<Rightarrow> conf_t \<Rightarrow> conf_t res" where
  "parse_interfaces if_ip s c =
     (if s = [] then Inr (c\<lparr>interfaces := [[]]\<rparr>)
      else bindR (mapR (interface_text if_ip) (interface_words s)) (\<lambda>ws. Inr (c\<lparr>interfaces := ws\<rparr>)))"

text \<open>
  A line: at most 100 characters up to a number sign. Without an equals sign it says nothing. A line that
  begins with a blank or the equals sign has no key of its own and takes that of the line before,
  which is not set on the first. Trailing spaces of the value are cut off from its end on, without a
  test for its beginning.
\<close>

definition conf_key :: "string \<Rightarrow> string option \<Rightarrow> string option" where
  "conf_key s key =
     (let k = takeWhile (\<lambda>c. c \<noteq> CHR ''='' \<and> \<not> is_blank c) s in if k = [] then key else Some k)"

definition trim_end :: "string \<Rightarrow> string res" where
  "trim_end v = (if v = [] then Inl OutOfBounds else Inr (rev (dropWhile is_space (rev v))))"

definition conf_value :: "string \<Rightarrow> string res" where
  "conf_value s = trim_end (skip_space (tl (dropWhile (\<lambda>c. c \<noteq> CHR ''='') s)))"

definition conf_number :: "string \<Rightarrow> int \<Rightarrow> int" where
  "conf_number v old = (case sscanf1 conv_i v old of None \<Rightarrow> old | Some n \<Rightarrow> n)"

text \<open>The known keys; \<open>None\<close>: the key is not known.\<close>

definition conf_set :: "(string \<Rightarrow> string) \<Rightarrow> string \<Rightarrow> string \<Rightarrow> conf_t \<Rightarrow> conf_t option res" where
  "conf_set if_ip key v c =
     (if key = ''default_filename'' then Inr (Some (c\<lparr>default_filename := v\<rparr>))
      else if key = ''strip_cgi_parameters'' then
        Inr (Some (c\<lparr>strip_cgi_parameters := conf_number v (strip_cgi_parameters c)\<rparr>))
      else if key = ''connection_timeout'' then
        Inr (Some (c\<lparr>connection_timeout := conf_number v (connection_timeout c)\<rparr>))
      else if key = ''reconnect_delay'' then Inr (Some (c\<lparr>reconnect_delay := conf_number v (reconnect_delay c)\<rparr>))
      else if key = ''num_connections'' then Inr (Some (c\<lparr>num_connections := conf_number v (num_connections c)\<rparr>))
      else if key = ''buffer_size'' then Inr (Some (c\<lparr>buffer_size := conf_number v (buffer_size c)\<rparr>))
      else if key = ''verbose'' then Inr (Some (c\<lparr>verbose := conf_number v (verbose c)\<rparr>))
      else if key = ''alternate_output'' then
        Inr (Some (c\<lparr>alternate_output := conf_number v (alternate_output c)\<rparr>))
      else if key = ''search_timeout'' then Inr (Some (c\<lparr>search_timeout := conf_number v (search_timeout c)\<rparr>))
      else if key = ''search_threads'' then Inr (Some (c\<lparr>search_threads := conf_number v (search_threads c)\<rparr>))
      else if key = ''search_amount'' then Inr (Some (c\<lparr>search_amount := conf_number v (search_amount c)\<rparr>))
      else if key = ''search_top'' then Inr (Some (c\<lparr>search_top := conf_number v (search_top c)\<rparr>))
      else if key = ''speed_type'' then Inr (Some c)
      else if key = ''interfaces'' then bindR (parse_interfaces if_ip v c) (\<lambda>c'. Inr (Some c'))
      else Inr None)"

text \<open>The keys that are looked at after the test.\<close>

definition conf_set_late :: "string \<Rightarrow> string \<Rightarrow> conf_t \<Rightarrow> conf_t" where
  "conf_set_late key v c =
     (let c1 = (if key = ''add_header_count''
                then c\<lparr>add_header_count := conf_number v (add_header_count c)\<rparr> else c);
          c2 = (if key = ''add_header[i]''
                then c1\<lparr>add_header := replicate (nat (add_header_count c1)) v
                                     @ drop (nat (add_header_count c1)) (add_header c1)\<rparr> else c1)
      in if key = ''user_agent'' then c2\<lparr>user_agent := v\<rparr> else c2)"

definition conf_line :: "(string \<Rightarrow> string) \<Rightarrow> string \<Rightarrow> conf_t \<times> string option \<Rightarrow> (conf_t \<times> string option) option res" where
  "conf_line if_ip line = (\<lambda>(c, key).
     let s = take 100 (takeWhile (\<lambda>x. x \<noteq> CHR ''#'') line) in
     if CHR ''='' \<notin> set s then Inr (Some (c, key))
     else
       bindR (conf_value s) (\<lambda>v.
         case conf_key s key of
           None \<Rightarrow> Inl Uninit
         | Some k \<Rightarrow>
             bindR (conf_set if_ip k v c) (\<lambda>r.
               Inr (map_option (\<lambda>c'. (conf_set_late k v c', Some k)) r))))"

fun conf_lines :: "(string \<Rightarrow> string) \<Rightarrow> string list \<Rightarrow> conf_t \<times> string option \<Rightarrow> conf_t option res" where
  "conf_lines if_ip [] st = Inr (Some (fst st))"
| "conf_lines if_ip (l # ls) st =
     bindR (conf_line if_ip l st) (\<lambda>r. case r of None \<Rightarrow> Inr None | Some st' \<Rightarrow> conf_lines if_ip ls st')"

function file_lines :: "string \<Rightarrow> string list" where
  "file_lines s =
     (let r = dropWhile (\<lambda>c. c \<noteq> CHR 0x0A) s in
      takeWhile (\<lambda>c. c \<noteq> CHR 0x0A) s # (if r = [] then [] else file_lines (tl r)))"
  by pat_completeness auto

termination
proof (relation "measure length")
  show "(tl r, s) \<in> measure length" if "r = dropWhile (\<lambda>c. c \<noteq> CHR 0x0A) s" "r \<noteq> []" for s r
    using dropWhile_shorter [of _ s 0] that by simp
qed simp

declare file_lines.simps [simp del] interface_words.simps [simp del]

text \<open>A file that cannot be opened is no failure.\<close>

definition conf_loadfile :: "(string \<Rightarrow> string) \<Rightarrow> string option \<Rightarrow> conf_t \<Rightarrow> conf_t option res" where
  "conf_loadfile if_ip body c =
     (case body of None \<Rightarrow> Inr (Some c) | Some s \<Rightarrow> conf_lines if_ip (file_lines s) (c, None))"

definition conf_defaults :: conf_t where
  "conf_defaults = \<lparr>
     default_filename = ''default'', strip_cgi_parameters = 1, connection_timeout = 45,
     reconnect_delay = 20, num_connections = 2, buffer_size = 5120, verbose = 1,
     alternate_output = 1, interfaces = [[]], search_timeout = 10, search_threads = 3,
     search_amount = 15, search_top = 3, add_header_count = 0, add_header = replicate 10 [],
     user_agent = ''GreenBag 2.4 (Linux)'', num_of_segments = 0, initial_chunk_rate = (\<lambda>_. 1),
     qos_kbps = 6000, fixed_segment_mode = 0, fixed_subsegment_mode = 0, minimum_energy_mode = 0,
     ewma_factor = Fin (3 / 10), BW_factor_for_mode = Fin 1, BW_factor_for_stage = Fin 1,
     log_file = ''log.txt'', fixed_segment_size_KB = 10240, recovery_mode = 0,
     recovery_decision_factor = Fin 1\<rparr>"

definition conf_init :: "(string \<Rightarrow> string) \<Rightarrow> (string \<Rightarrow> string option) \<Rightarrow> string option \<Rightarrow> conf_t option res" where
  "conf_init if_ip files home =
     bindR (conf_loadfile if_ip (files ''/usr/local/etc/gbrc'') conf_defaults) (\<lambda>r.
       case r of None \<Rightarrow> Inr None
       | Some c \<Rightarrow>
           (case home of None \<Rightarrow> Inr (Some c)
            | Some h \<Rightarrow>
                if length (h @ ''/.gbrc'') \<ge> MAX_STRING then Inl OutOfBounds
                else conf_loadfile if_ip (files (h @ ''/.gbrc'')) c))"

end
