(* ===== verification/Session.thy ===== *)
theory Session
  imports Options Download
begin

text \<open>
  A session: \<open>gb_process\<close> of \<^verbatim>\<open>gbsession.c\<close> from the options to the end of the download, with \<open>gb_new\<close>,
  \<open>gb_open\<close>, \<open>gb_start\<close> and \<open>gb_close\<close> of \<^verbatim>\<open>gb.c\<close>. The file system, the home directory and the network
  interfaces are arguments.
\<close>

section \<open>State\<close>

text \<open>
  What the system answers: the files that can be read, \<open>HOME\<close>, the address of an interface, what fresh memory
  holds, the interfaces that are on line, and whether they can be listed, the output file can be opened, and
  the file system seeks past its end.
\<close>

record sys =
  sys_files :: "string \<Rightarrow> string option"
  sys_home :: "string option"
  sys_if_ip :: "string \<Rightarrow> string option"
  sys_memory :: string
  sys_online :: "string list"
  sys_nics :: bool
  sys_can_open :: bool
  sys_can_seek :: bool

text \<open>
  \<open>local_if\<close> of a connection points into the list of the configuration or to a copy of its own;
  \<open>gb_close\<close> frees it. Freeing a pointer that is not an allocation is \<open>UseAfterFree\<close>.
\<close>

datatype if_pointer = NoInterface | InList | OnHeap

record session =
  s_proc :: proc
  outfd :: int
  if_owner :: "link \<Rightarrow> if_pointer"

abbreviation upd_proc :: "(proc \<Rightarrow> proc) \<Rightarrow> session \<Rightarrow> session" where
  "upd_proc f s \<equiv> s\<lparr>s_proc := f (s_proc s)\<rparr>"

definition zero_conn :: conn_t where
  "zero_conn = \<lparr>proto = 0, port = 0, c_host = [], c_dir = [], c_file = [], c_user = [], c_pass = [],
     c_http = \<lparr>h_host = [], h_auth = [], h_request = [], h_headers = [], h_firstbyte = 0,
               h_lastbyte = 0, h_status = 0, h_fd = 0\<rparr>,
     c_size = 0, currentbyte = 0, lastbyte = 0, c_fd = 0, enabled = False, supported = False,
     last_transfer = 0, local_if = [], c_state = False, c_bytes_done = 0, c_start_time = Fin 0,
     c_bytes_per_second = 0, ewma_bytes_per_second = 0, pipeline_requests_sent = False,
     last_segment_flag = False\<rparr>"

text \<open>
  A zeroed \<open>gb_t\<close> with the configuration copied; the static variables of a former download, the clock
  and the requests sent stay.
\<close>

definition blank_gb :: "conf_t \<Rightarrow> proc \<Rightarrow> proc" where
  "blank_gb c p = p\<lparr>
     conn := (\<lambda>_. zero_conn), conf := c, filename := [], g_url := [], g_start_time := Fin 0,
     finish_time := 0, bytes_done := 0, g_start_byte := 0, g_size := 0, g_bytes_per_second := 0,
     ready := 0, messages := [], run := False, finish := False, last_downloaded_byte := 0,
     qos_bytes_per_second := 0, qos_bytes := 0, qos_start_time := Fin 0, qos_start_flag := False,
     offset_info := empty_offset_info, inorder_offset := 0, num_recoveries := 0,
     outfile := Map.empty, rx := (\<lambda>_. []), thread := (\<lambda>_. False)\<rparr>"

section \<open>\<open>gb_new\<close>\<close>

text \<open>
  A message that the server or the user wrote is given to \<open>gb_message\<close> as its format; a conversion in it
  reads an argument that is not there.
\<close>

fun format_text :: "string \<Rightarrow> string res" where
  "format_text [] = Inr []"
| "format_text (c # cs) =
     (if c \<noteq> CHR ''%'' then bindR (format_text cs) (\<lambda>r. Inr (c # r))
      else case cs of
          d # ds \<Rightarrow> if d = CHR ''%'' then bindR (format_text ds) (\<lambda>r. Inr (c # r)) else Inl Uninit
        | [] \<Rightarrow> Inl Uninit)"

definition gb_message_format :: "string \<Rightarrow> proc \<Rightarrow> proc res" where
  "gb_message_format text p = bindR (format_text text) (\<lambda>t. Inr (gb_message t p))"

definition refuse :: "proc \<Rightarrow> proc" where
  "refuse p = p\<lparr>ready := - 1\<rparr>"

definition refuse_conn :: "proc \<Rightarrow> proc res" where
  "refuse_conn p = bindR (gb_message_format (h_headers (c_http (conn p LTE))) p) (\<lambda>q. Inr (refuse q))"

text \<open>The next element of the circular list of interfaces.\<close>

definition use_interface :: "link \<Rightarrow> session \<Rightarrow> session res" where
  "use_interface k s =
     (case interfaces (conf (s_proc s)) of
        [] \<Rightarrow> Inl NullDeref
      | i # is \<Rightarrow> Inr (upd_proc (\<lambda>p. upd_conn k (\<lambda>c. c\<lparr>local_if := i\<rparr>)
                    (p\<lparr>conf := (conf p)\<lparr>interfaces := is @ [i]\<rparr>\<rparr>))
                  (s\<lparr>if_owner := (if_owner s)(k := InList)\<rparr>)))"

definition output_name :: "conf_t \<Rightarrow> string \<Rightarrow> string res" where
  "output_name c name =
     bindR (http_decode name) (\<lambda>f.
       let g = (if f = [] then default_filename c else f) in
       Inr (if strip_cgi_parameters c \<noteq> 0 then takeWhile (\<lambda>x. x \<noteq> CHR ''?'') g else g))"

definition wildcard :: "string \<Rightarrow> bool" where
  "wildcard s \<longleftrightarrow> CHR ''*'' \<in> set s \<or> CHR ''?'' \<in> set s"

text \<open>The part of \<open>gb_new\<close> after the server has answered.\<close>

definition accept_file :: "sys \<Rightarrow> string \<Rightarrow> proc \<Rightarrow> proc res" where
  "accept_file S url p =
     bindR (conn_url (conn p LTE)) (\<lambda>u.
       let p1 = p\<lparr>g_url := u, g_size := c_size (conn p LTE)\<rparr>;
           p2 = (if g_size p1 \<noteq> int_max \<and> verbose (conf p1) > 0
                 then gb_message (''File size: '' @ show_int (g_size p1) @ '' bytes'') p1 else p1);
           p3 = (if wildcard (filename p2) then p2\<lparr>filename := c_file (conn p2 LTE)\<rparr> else p2)
       in bindR (get_bitrate (sys_files S ''bitrate_dict'') url) (\<lambda>rate.
            let p4 = (if rate \<noteq> - 1 then p3\<lparr>conf := (conf p3)\<lparr>qos_kbps := rate\<rparr>\<rparr> else p3) in
            Inr (p4\<lparr>num_recoveries := 0, run := True, finish := False\<rparr>)))"

definition probe_server :: "env \<Rightarrow> sys \<Rightarrow> string \<Rightarrow> proc \<Rightarrow> proc res" where
  "probe_server E S url p =
     bindR (conn_init E LTE p) (\<lambda>(ok, p1).
       if \<not> ok then refuse_conn p1
       else bindR (conn_info E LTE p1) (\<lambda>(ok, p2).
              if \<not> ok then refuse_conn p2 else accept_file S url p2))"

definition gb_new :: "env \<Rightarrow> sys \<Rightarrow> conf_t \<Rightarrow> string \<Rightarrow> proc \<Rightarrow> session res" where
  "gb_new E S c url p =
     (let session = (\<lambda>q. \<lparr>s_proc = q, outfd = 0, if_owner = (\<lambda>_. NoInterface)\<rparr>);
          p1 = blank_gb c p in
      bindR (conn_at p1 LTE) (\<lambda>c0.
      bindR (copy_string url) (\<lambda>u.
      bindR (conn_set c0 u) (\<lambda>(c1, ok).
        let p2 = upd_conn LTE (\<lambda>_. c1) (p1\<lparr>g_url := u\<rparr>) in
        if \<not> ok then Inr (session (refuse (gb_message (''Could not parse URL.'' @ [CHR 0x0A]) p2)))
        else
          bindR (use_interface LTE (session p2)) (\<lambda>s.
          bindR (output_name (conf (s_proc s)) (c_file (conn (s_proc s) LTE))) (\<lambda>f.
          bindR (probe_server E S url ((s_proc s)\<lparr>filename := f\<rparr>)) (\<lambda>q. Inr (s\<lparr>s_proc := q\<rparr>))))))))"

section \<open>\<open>gb_open\<close>\<close>

text \<open>
  Filling the file with blocks of zeros: the sizes of the writes. With a block size of 0 the loop never
  ends. The contents of the output file are the bytes of the download; zeros do not count.
\<close>

partial_function (option) fill_sizes :: "int \<Rightarrow> int \<Rightarrow> int list option" where
  "fill_sizes j n =
     (if j > 0 then Option.bind (fill_sizes (j - n) n) (\<lambda>r. Some (min j n # r)) else Some [])"

text \<open>\<open>None\<close>: the call does not return.\<close>

definition fill_file :: "proc \<Rightarrow> proc res option" where
  "fill_file p =
     (let n = buffer_size (conf p); q = gb_message ''Crappy filesystem/OS.. Working around. :-('' p in
      if n < 0 then Some (Inl OutOfBounds)
      else Option.bind (fill_sizes (g_size p) n) (\<lambda>_. Some (Inr q)))"

definition single_connection :: "proc \<Rightarrow> proc res" where
  "single_connection p =
     gb_init_segment_setup
       (let q = gb_message ''Server unsupported, starting from scratch with one connection.'' p
        in q\<lparr>conf := (conf q)\<lparr>num_connections := 1\<rparr>\<rparr>)"

definition gb_open :: "sys \<Rightarrow> session \<Rightarrow> (bool \<times> session) res option" where
  "gb_open S s =
     (let p = s_proc s in
      case bindR (conn_at p LTE) (\<lambda>c.
           bindR (if \<not> supported c then single_connection p else Inr p) gb_init_segment_setup) of
        Inl e \<Rightarrow> Some (Inl e)
      | Inr q \<Rightarrow>
          if \<not> sys_can_open S
          then Some (Inr (False, s\<lparr>s_proc := gb_message ''Error opening local file'' q, outfd := - 1\<rparr>))
          else if \<not> sys_can_seek S \<and> num_connections (conf q) > 1
          then Option.bind (fill_file q) (\<lambda>r. Some (bindR r (\<lambda>q'. Inr (True, s\<lparr>s_proc := q', outfd := 3\<rparr>))))
          else Some (Inr (True, s\<lparr>s_proc := q, outfd := 3\<rparr>)))"

section \<open>\<open>gb_start\<close>\<close>

text \<open>The loop that sets the connections up, in the order of their numbers.\<close>

definition prepare_conn :: "link \<Rightarrow> session \<Rightarrow> session res" where
  "prepare_conn k s =
     bindR (conn_set (conn (s_proc s) k) (g_url (s_proc s))) (\<lambda>(c, _).
     bindR (use_interface k (upd_proc (upd_conn k (\<lambda>_. c)) s)) (\<lambda>s1.
       Inr (if k = WIFI then upd_proc (upd_conn k (\<lambda>c. c\<lparr>supported := True\<rparr>)) s1 else s1)))"

definition interface_address :: "sys \<Rightarrow> link \<Rightarrow> string res" where
  "interface_address S k =
     bindR (lookup_if_name (sys_online S) k) (\<lambda>found.
       Inr (case sys_if_ip S (case found of None \<Rightarrow> [] | Some n \<Rightarrow> n) of None \<Rightarrow> [] | Some ip \<Rightarrow> ip))"

definition announce_start :: "link \<Rightarrow> proc \<Rightarrow> proc" where
  "announce_start k p =
     (if verbose (conf p) \<ge> 0
      then gb_message (''gb_start: Connection '' @ show_int (idx k) @ '' downloading from ''
             @ c_host (conn p k) @ '':'' @ show_int (port (conn p k))
             @ '' using interface '' @ local_if (conn p k)) p
      else p)"

text \<open>The loop that creates the threads, from the last connection to the first.\<close>

definition start_conn :: "env \<Rightarrow> sys \<Rightarrow> link \<Rightarrow> session \<Rightarrow> session res" where
  "start_conn E S k s =
     (let p = s_proc s in
      if currentbyte (conn p k) \<le> lastbyte (conn p k) then
        bindR (interface_address S k) (\<lambda>ip.
          let p1 = announce_start k (upd_conn k (\<lambda>c. c\<lparr>c_state := True, local_if := ip\<rparr>) p) in
          bindR (launch_thread E k p1) (\<lambda>p2.
            let (now, p3) = gettime E p2 in
            Inr (s\<lparr>s_proc := upd_conn k (\<lambda>c. c\<lparr>c_start_time := now\<rparr>) p3,
                   if_owner := (if_owner s)(k := OnHeap)\<rparr>)))
      else Inr s)"

definition gb_start :: "env \<Rightarrow> sys \<Rightarrow> session \<Rightarrow> session res" where
  "gb_start E S s =
     bindR (guardR (Exit 1) (sys_nics S)) (\<lambda>_.
     bindR (foldR prepare_conn (conn_indices (s_proc s)) s) (\<lambda>s1.
       let s2 = upd_proc (\<lambda>p. if verbose (conf p) > 0 then gb_message ''Starting download'' p else p) s1 in
       bindR (foldR (start_conn E S) (rev (conn_indices (s_proc s2))) s2) (\<lambda>s3.
         let (now, p) = gettime E (s_proc s3) in
         Inr (s3\<lparr>s_proc := p\<lparr>g_start_time := now, ready := 0, g_start_byte := bytes_done p\<rparr>\<rparr>))))"

section \<open>\<open>gb_close\<close>\<close>

definition gb_close :: "env \<Rightarrow> session \<Rightarrow> session res" where
  "gb_close E s =
     (let ks = conn_indices (s_proc s) in
      bindR (foldR (join_setup_thread E) ks (s_proc s)) (\<lambda>p.
        let q = fold conn_disconnect ks (p\<lparr>messages := []\<rparr>) in
        if InList \<in> if_owner s ` set ks then Inl UseAfterFree
        else Inr (s\<lparr>s_proc := q, outfd := - 1, if_owner := (\<lambda>_. NoInterface)\<rparr>)))"

section \<open>\<open>gb_process\<close>\<close>

text \<open>The configuration of a session: the files, then the command line. \<open>None\<close>: the session ends here.\<close>

definition session_conf :: "sys \<Rightarrow> string list \<Rightarrow> conf_t option res" where
  "session_conf S argv =
     bindR (conf_init (\<lambda>n. case sys_if_ip S n of None \<Rightarrow> sys_memory S | Some ip \<Rightarrow> ip) (sys_files S) (sys_home S))
       (\<lambda>r. Inr (Option.bind r (\<lambda>c. parse_args c argv)))"

text \<open>
  From \<open>gb_open\<close> to the end of the loop, with at most \<open>n\<close> turns. \<open>None\<close>: the turns are used up, or \<open>gb_open\<close>
  does not return.
\<close>

definition download :: "nat \<Rightarrow> env \<Rightarrow> sys \<Rightarrow> session \<Rightarrow> session res option" where
  "download n E S s =
     Option.bind (gb_open S s) (\<lambda>r.
       case r of
         Inl e \<Rightarrow> Some (Inl e)
       | Inr (ok, s1) \<Rightarrow>
           if \<not> ok then Some (Inl (Exit 1))
           else case bindR (gb_start E S s1) (\<lambda>s2.
                  bindR (update_last_downloaded_byte (s_proc s2)) (\<lambda>p.
                    Inr (s2\<lparr>s_proc := p\<lparr>messages := []\<rparr>\<rparr>))) of
                Inl e \<Rightarrow> Some (Inl e)
              | Inr s3 \<Rightarrow>
                  Option.bind (run_loop n E (s_proc s3)) (\<lambda>r.
                    Some (bindR r (\<lambda>p. Inr (s3\<lparr>s_proc := p\<rparr>)))))"

definition raw_args :: "string list \<Rightarrow> string res" where
  "raw_args argv =
     (let s = concat (map (\<lambda>a. a @ '' '') (tl argv)) in
      if length s \<ge> 1024 then Inl OutOfBounds else Inr s)"

definition gb_process :: "nat \<Rightarrow> env \<Rightarrow> sys \<Rightarrow> string \<Rightarrow> string list \<Rightarrow> proc \<Rightarrow> proc res option" where
  "gb_process n E S url argv p =
     (case bindR (raw_args argv) (\<lambda>_. session_conf S argv) of
        Inl e \<Rightarrow> Some (Inl e)
      | Inr None \<Rightarrow> Some (Inr (snd (gettime E p)))
      | Inr (Some c) \<Rightarrow>
          (case bindR (gb_new E S c url (snd (gettime E p))) (\<lambda>s.
                bindR (assertR (num_connections (conf (s_proc s)) \<le> 2)) (\<lambda>_. Inr s)) of
             Inl e \<Rightarrow> Some (Inl e)
           | Inr s \<Rightarrow>
               Option.bind (if ready (s_proc s) = - 1 then Some (Inr s) else download n E S s) (\<lambda>r.
                 Some (bindR r (\<lambda>s1. bindR (gb_close E s1) (\<lambda>s2. Inr (s_proc s2)))))))"

text \<open>The program without the proxy, \<^verbatim>\<open>gb_standalone.c\<close>: its first argument is the URL, and all of them are options too.\<close>

definition gb_standalone_main :: "nat \<Rightarrow> env \<Rightarrow> sys \<Rightarrow> string list \<Rightarrow> proc \<Rightarrow> proc res option" where
  "gb_standalone_main n E S argv p =
     (if length argv < 2 then Some (Inl (Exit 1)) else gb_process n E S (argv ! 1) argv p)"

end
