(* ===== verification/Session_Laws.thy ===== *)
theory Session_Laws
  imports Start_Laws Session
begin

text \<open>
  How a session reaches the loop: what \<open>gb_new\<close> leaves, when \<open>gb_open\<close> succeeds, and that \<open>gb_start\<close> only
  changes the interfaces. So the balance of bytes holds in every state of a session.
\<close>

section \<open>What setting a session up leaves alone\<close>

text \<open>The fields of the process that the exchanges with the server do not touch.\<close>

definition base :: "proc \<Rightarrow> (int \<Rightarrow> char option) \<times> int \<times> conf_t \<times> int" where
  "base p = (outfile p, bytes_done p, conf p, ready p)"

lemma view_base: "view q = view p \<Longrightarrow> base q = base p"
  by (simp add: view_def layout_def base_def)

lemma base_upd_conn [simp]: "base (upd_conn k f p) = base p"
  by (simp add: base_def upd_conn_def)

lemma base_upd_http [simp]: "base (upd_http k f p) = base p"
  by (simp add: upd_http_def)

lemma base_proc [simp]:
  "base (p\<lparr>filename := f\<rparr>) = base p" "base (p\<lparr>g_url := f\<rparr>) = base p" "base (p\<lparr>g_size := n\<rparr>) = base p"
  "base (p\<lparr>tick := t\<rparr>) = base p" "base (p\<lparr>rx := r\<rparr>) = base p"
  by (simp_all add: base_def)

lemma base_gb_message [simp]: "base (gb_message t p) = base p"
  by (rule view_base) simp

lemma base_conn_init: "conn_init E k p = Inr (ok, q) \<Longrightarrow> base q = base p"
  by (rule view_base) (rule view_conn_init)

lemma base_conn_info_turn: "conn_info_turn E k p = Inr (r, q) \<Longrightarrow> base q = base p"
proof -
  assume r: "conn_info_turn E k p = Inr (r, q)"
  obtain ok p1 where 1: "conn_setup E k (upd_conn k (\<lambda>c. c\<lparr>currentbyte := 1\<rparr>) p) = Inr (ok, p1)"
    and 2: "(if \<not> ok then Inr (None, p1)
       else bindR (conn_exec k p1) (\<lambda>(_, p2).
         let p3 = conn_disconnect k p2; c = conn p3 k in
         if h_status (c_http c) sdiv 100 \<noteq> 3 then Inr (Some False, p3)
         else bindR (http_header (c_http c) ''location:'') (\<lambda>r.
           case r of
             None \<Rightarrow> Inr (None, p3)
           | Some t \<Rightarrow>
               (case scan_token 255 t of
                  None \<Rightarrow> Inl Uninit
                | Some s \<Rightarrow>
                    bindR (redirect_url c s) (\<lambda>u.
                    bindR (conn_set (if strstr s ''://'' = None \<or> hd s = CHR ''/''
                                     then c\<lparr>c_http := (c_http c)\<lparr>h_headers := u\<rparr>\<rparr> else c) u) (\<lambda>(c', _).
                      Inr (Some True, upd_conn k (\<lambda>_. c') p3))))))) = Inr (r, q)"
    using r unfolding conn_info_turn_def by (elim bindR_InrE) auto
  have p1: "base p1 = base p" using view_base [OF view_conn_setup [OF 1]] by simp
  show ?thesis
  proof (cases ok)
    case True
    then obtain b p2 where e: "conn_exec k p1 = Inr (b, p2)"
      using 2 by (auto elim!: bindR_InrE)
    have "base (conn_disconnect k p2) = base p2" by (rule view_base) simp
    then have p3: "base (conn_disconnect k p2) = base p"
      using view_base [OF view_conn_exec [OF e]] p1 by simp
    from 2 True e p3 show ?thesis
      by (auto simp: Let_def elim!: bindR_InrE split: if_splits option.splits)
  qed (use 2 p1 in auto)
qed

lemma base_conn_info_loop: "conn_info_loop E k n p = Inr (r, q) \<Longrightarrow> base q = base p"
proof (induction n arbitrary: p)
  case (Suc n)
  then obtain r1 p1 where 1: "conn_info_turn E k p = Inr (r1, p1)"
    and 2: "(if r1 = Some True then conn_info_loop E k n p1 else Inr (r1, p1)) = Inr (r, q)"
    by (auto elim!: bindR_InrE)
  from base_conn_info_turn [OF 1] Suc.IH [of p1] 2 show ?case by (auto split: if_splits)
qed simp

text \<open>A file that \<open>conn_info\<close> accepts over HTTP has a size.\<close>

lemma conn_info_answer:
  assumes "conn_info E k p = Inr (ok, q)"
  shows "base q = base p" "ok \<Longrightarrow> proto (conn p k) = PROTO_HTTP \<Longrightarrow> 0 \<le> c_size (conn q k)"
    "proto (conn p k) \<noteq> PROTO_HTTP \<Longrightarrow> q = p"
proof -
  show "base q = base p" "ok \<Longrightarrow> proto (conn p k) = PROTO_HTTP \<Longrightarrow> 0 \<le> c_size (conn q k)"
    using assms base_conn_info_loop [of E k MAX_REDIR p]
    by (auto simp: conn_info_def Let_def upd_http_def int_max_def upd_conn_def base_def
        elim!: bindR_InrE split: if_splits)
  show "proto (conn p k) \<noteq> PROTO_HTTP \<Longrightarrow> q = p" using assms by (simp add: conn_info_def)
qed

lemma gb_message_fields [simp]:
  "outfile (gb_message t p) = outfile p" "bytes_done (gb_message t p) = bytes_done p"
  "conf (gb_message t p) = conf p" "ready (gb_message t p) = ready p" "g_size (gb_message t p) = g_size p"
  "conn (gb_message t p) = conn p" "filename (gb_message t p) = filename p"
  by (simp_all add: gb_message_def)

lemma accept_file_answer:
  assumes "accept_file S url p = Inr q"
  shows "proto (conn p LTE) = PROTO_HTTP" "g_size q = c_size (conn p LTE)" "outfile q = outfile p"
    "bytes_done q = bytes_done p" "ready q = ready p" "\<exists>n. conf q = (conf p)\<lparr>qos_kbps := n\<rparr>"
proof -
  have c: "\<exists>n. conf p = (conf p)\<lparr>qos_kbps := n\<rparr>" by (rule exI [of _ "qos_kbps (conf p)"]) simp
  show "proto (conn p LTE) = PROTO_HTTP"
    using assms by (auto simp: accept_file_def conn_url_def elim!: bindR_InrE split: if_splits)
  show "g_size q = c_size (conn p LTE)" "outfile q = outfile p" "bytes_done q = bytes_done p" "ready q = ready p"
    "\<exists>n. conf q = (conf p)\<lparr>qos_kbps := n\<rparr>"
    using assms c by (auto simp: accept_file_def Let_def elim!: bindR_InrE)
qed

lemma use_interface_frame:
  assumes "use_interface k s = Inr s'"
  shows "outfile (s_proc s') = outfile (s_proc s)" "bytes_done (s_proc s') = bytes_done (s_proc s)"
    "ready (s_proc s') = ready (s_proc s)"
    "\<exists>is. conf (s_proc s') = (conf (s_proc s))\<lparr>interfaces := is\<rparr>"
  using assms by (auto simp: use_interface_def upd_conn_def split: list.splits)

lemma refuse_conn_ready: "refuse_conn p = Inr q \<Longrightarrow> ready q = - 1"
  by (auto simp: refuse_conn_def refuse_def elim!: bindR_InrE)

lemma probe_server_accepted:
  assumes r: "probe_server E S url p = Inr q" and ok: "ready q \<noteq> - 1"
  shows "0 \<le> g_size q" "outfile q = outfile p" "bytes_done q = bytes_done p" "ready q = ready p"
    "\<exists>n. conf q = (conf p)\<lparr>qos_kbps := n\<rparr>"
proof -
  obtain init_ok p1 where 1: "conn_init E LTE p = Inr (init_ok, p1)"
    and 2: "(if \<not> init_ok then refuse_conn p1
       else bindR (conn_info E LTE p1) (\<lambda>(ok, p2). if \<not> ok then refuse_conn p2 else accept_file S url p2)) = Inr q"
    using r unfolding probe_server_def by (elim bindR_InrE) auto
  have init_ok using 2 ok refuse_conn_ready by (auto split: if_splits)
  then obtain info_ok p2 where 3: "conn_info E LTE p1 = Inr (info_ok, p2)"
    and 4: "(if \<not> info_ok then refuse_conn p2 else accept_file S url p2) = Inr q"
    using 2 by (auto elim!: bindR_InrE)
  have info_ok: info_ok using 4 ok refuse_conn_ready by (auto split: if_splits)
  then have 5: "accept_file S url p2 = Inr q" using 4 by simp
  note acc = accept_file_answer [OF 5]
  have b: "base p2 = base p" using conn_info_answer(1) [OF 3] base_conn_init [OF 1] by simp
  have "proto (conn p1 LTE) = PROTO_HTTP"
    using conn_info_answer(3) [OF 3] acc(1) by (cases "proto (conn p1 LTE) = PROTO_HTTP") auto
  then show "0 \<le> g_size q" using conn_info_answer(2) [OF 3 info_ok] acc(2) by simp
  show "outfile q = outfile p" "bytes_done q = bytes_done p" "ready q = ready p"
    "\<exists>n. conf q = (conf p)\<lparr>qos_kbps := n\<rparr>"
    using acc(3-6) b by (simp_all add: base_def)
qed

text \<open>After \<open>gb_new\<close>: nothing is written yet, the size is known, the configuration is the one given.\<close>

lemma gb_new_accepted:
  assumes r: "gb_new E S c url p = Inr s" and ok: "ready (s_proc s) \<noteq> - 1"
  shows "nothing_yet (s_proc s)" "0 \<le> g_size (s_proc s)" "ready (s_proc s) = 0"
    "\<exists>is n. conf (s_proc s) = c\<lparr>interfaces := is, qos_kbps := n\<rparr>"
proof -
  let ?p1 = "blank_gb c p"
  obtain u c1 set_ok where 1: "copy_string url = Inr u" "conn_set (conn ?p1 LTE) u = Inr (c1, set_ok)"
    using r by (auto simp: gb_new_def Let_def elim!: bindR_InrE)
  define p2 where "p2 = upd_conn LTE (\<lambda>_. c1) (?p1\<lparr>g_url := u\<rparr>)"
  define s0 where "s0 = \<lparr>s_proc = p2, outfd = 0, if_owner = (\<lambda>_. NoInterface)\<rparr>"
  have 2: "(if \<not> set_ok
      then Inr (s0\<lparr>s_proc := refuse (gb_message (''Could not parse URL.'' @ [CHR 0x0A]) p2)\<rparr>)
      else bindR (use_interface LTE s0) (\<lambda>s.
          bindR (output_name (conf (s_proc s)) (c_file (conn (s_proc s) LTE))) (\<lambda>f.
          bindR (probe_server E S url ((s_proc s)\<lparr>filename := f\<rparr>)) (\<lambda>q. Inr (s\<lparr>s_proc := q\<rparr>))))) = Inr s"
    using r 1 unfolding gb_new_def Let_def p2_def s0_def by (auto elim!: bindR_InrE)
  have "set_ok" using 2 ok by (auto simp: refuse_def split: if_splits)
  then obtain s1 f q where 3: "use_interface LTE s0 = Inr s1"
    and 4: "probe_server E S url ((s_proc s1)\<lparr>filename := f\<rparr>) = Inr q" and s: "s = s1\<lparr>s_proc := q\<rparr>"
    using 2 by (auto elim!: bindR_InrE)
  have "ready q \<noteq> - 1" using ok by (simp add: s)
  note probe = probe_server_accepted [OF 4 this]
  note use = use_interface_frame [OF 3]
  have p2: "outfile p2 = Map.empty" "bytes_done p2 = 0" "ready p2 = 0" "conf p2 = c"
    by (simp_all add: p2_def upd_conn_def blank_gb_def)
  show "nothing_yet (s_proc s)" "ready (s_proc s) = 0" "0 \<le> g_size (s_proc s)"
    using probe(1-4) use(1-3) p2 by (simp_all add: s s0_def nothing_yet_def)
  show "\<exists>is n. conf (s_proc s) = c\<lparr>interfaces := is, qos_kbps := n\<rparr>"
  proof -
    obtain "is" n where "conf (s_proc s1) = c\<lparr>interfaces := is\<rparr>" "conf q = (conf (s_proc s1))\<lparr>qos_kbps := n\<rparr>"
      using probe(5) use(4) p2(4) by (auto simp: s0_def)
    then have "conf (s_proc s) = c\<lparr>interfaces := is, qos_kbps := n\<rparr>" by (simp add: s)
    then show ?thesis by blast
  qed
qed

section \<open>When \<open>gb_open\<close> succeeds\<close>

lemma init_segment_size:
  assumes "gb_init_segment_setup p = Inr q"
  shows "g_size q = g_size p" "buffer_size (conf q) = buffer_size (conf p)"
proof -
  have a: "g_size r = g_size p' \<and> conf r = conf p'" if "add_new_subsegment p' k t a m = Inr r" for p' r k t a m
    by (rule add_new_subsegment_form [OF that]) (simp add: upd_off_def)
  have b: "g_size s' = g_size s \<and> conf s' = conf s" if "assign_head k s = Inr s'" for k s s'
    using that by (auto simp: assign_head_def Let_def upd_conn_def upd_off_def elim!: bindR_InrE
        split: list.splits option.splits if_splits)
  obtain i cnt t r p1 p2 bits where
    1: "add_new_subsegment (p\<lparr>offset_info := i, conf := (conf p)\<lparr>num_of_segments := cnt\<rparr>\<rparr>) LTE t r
          (fixed_subsegment_mode (conf p)) = Inr p1"
    "foldR assign_head (conn_indices p1) p1 = Inr p2" "q = p2\<lparr>qos_bytes_per_second := bits sdiv 8, qos_bytes := 0\<rparr>"
    using assms unfolding gb_init_segment_setup_def by (auto elim!: bindR_InrE)
  have "g_size p2 = g_size p1 \<and> conf p2 = conf p1"
    using foldR_inv [OF 1(2), of "\<lambda>s. g_size s = g_size p1 \<and> conf s = conf p1"] b by simp
  then show "g_size q = g_size p" "buffer_size (conf q) = buffer_size (conf p)"
    using a [OF 1(1)] by (simp_all add: 1(3))
qed

lemma init_segment_needs_two:
  assumes "gb_init_segment_setup p = Inr q"
  shows "conn_ok p WIFI"
proof (rule ccontr)
  assume single: "\<not> conn_ok p WIFI"
  obtain n cnt i x r where
    2: "add_new_segment (empty_offset_info\<lparr>init_seg_size := n\<rparr>) False (add_new_chunk [] 0 n) n = Inr (i, x)"
    and 3: "add_new_subsegment (p\<lparr>offset_info := i, conf := (conf p)\<lparr>num_of_segments := cnt\<rparr>\<rparr>) LTE
              (initial_chunk_rate (conf p) LTE) (initial_chunk_rate (conf p) WIFI)
              (fixed_subsegment_mode (conf p)) = Inr r"
    using assms unfolding gb_init_segment_setup_def by (auto elim!: bindR_InrE)
  have "wf_segs (empty_offset_info\<lparr>init_seg_size := n\<rparr>)" by (simp add: wf_segs_def empty_offset_info_def)
  then have "segs i \<noteq> []" using 2 by (auto simp: add_new_segment_Inr)
  moreover have "\<not> conn_ok (p\<lparr>offset_info := i, conf := (conf p)\<lparr>num_of_segments := cnt\<rparr>\<rparr>) WIFI"
    using single by (simp add: conn_ok_def)
  ultimately show False using 3 get_fast_conn_index_single
    by (auto simp: add_new_subsegment_def Let_def elim!: bindR_InrE)
qed

lemma single_connection_fails: "single_connection p \<noteq> Inr q"
proof -
  have "\<not> conn_ok (r\<lparr>conf := (conf r)\<lparr>num_connections := 1\<rparr>\<rparr>) WIFI" for r :: proc by (simp add: conn_ok_def)
  then show ?thesis using init_segment_needs_two unfolding single_connection_def Let_def by blast
qed

lemma gb_open_opened:
  assumes "gb_open S s = Some (Inr (ok, s'))"
  shows "supported (conn (s_proc s) LTE)" "conn_ok (s_proc s) WIFI"
    "\<exists>q. gb_init_segment_setup (s_proc s) = Inr q \<and> view (s_proc s') = view q"
proof -
  let ?p = "s_proc s"
  obtain q where q: "bindR (conn_at ?p LTE) (\<lambda>c.
      bindR (if \<not> supported c then single_connection ?p else Inr ?p) gb_init_segment_setup) = Inr q"
    using assms unfolding gb_open_def Let_def by (auto split: sum.splits)
  obtain e where "single_connection ?p = Inl e"
    using single_connection_fails [of ?p] by (cases "single_connection ?p") auto
  then show sup: "supported (conn ?p LTE)" using q by (auto elim!: bindR_InrE split: if_splits)
  have i: "gb_init_segment_setup ?p = Inr q" using q sup by (auto elim!: bindR_InrE)
  then show "conn_ok ?p WIFI" by (rule init_segment_needs_two)
  have "view (s_proc s') = view q"
    using assms unfolding gb_open_def Let_def q
    by (auto simp: fill_file_def Let_def bind_eq_Some_conv split: if_splits)
  with i show "\<exists>q. gb_init_segment_setup ?p = Inr q \<and> view (s_proc s') = view q" by blast
qed

lemma fill_sizes_returns:
  assumes "0 < n"
  shows "\<exists>r. fill_sizes j n = Some r \<and> sum_list r = max 0 j"
proof (induction "nat j" arbitrary: j rule: less_induct)
  case less
  show ?case
  proof (cases "j > 0")
    case True
    then obtain r where "fill_sizes (j - n) n = Some r" "sum_list r = max 0 (j - n)"
      using less [of "j - n"] assms by auto
    then show ?thesis using True assms by (subst fill_sizes.simps) auto
  qed (subst fill_sizes.simps, simp)
qed

section \<open>\<open>gb_start\<close>\<close>

text \<open>The same state up to the order of the interfaces, the result so far and what \<open>view\<close> does not show.\<close>

definition alike :: "proc \<Rightarrow> proc \<Rightarrow> bool" where
  "alike p q \<longleftrightarrow> (\<exists>is r. view q = view (p\<lparr>conf := (conf p)\<lparr>interfaces := is\<rparr>, ready := r\<rparr>))"

lemma view_alike: "view q = view p \<Longrightarrow> alike p q"
  unfolding alike_def by (rule exI [of _ "interfaces (conf p)"], rule exI [of _ "ready p"]) simp

lemma alike_refl [simp]: "alike p p"
  by (simp add: view_alike)

lemma alike_trans [trans]:
  assumes "alike p q" "alike q r"
  shows "alike p r"
proof -
  obtain i x j y where v: "view q = view (p\<lparr>conf := (conf p)\<lparr>interfaces := i\<rparr>, ready := x\<rparr>)"
    "view r = view (q\<lparr>conf := (conf q)\<lparr>interfaces := j\<rparr>, ready := y\<rparr>)"
    using assms unfolding alike_def by blast
  have "view (q\<lparr>conf := C, ready := y\<rparr>) = view (p\<lparr>conf := C, ready := y\<rparr>)" for C
    using v(1) by (simp add: view_def layout_def)
  moreover have "conf q = (conf p)\<lparr>interfaces := i\<rparr>" using v(1) by (simp add: view_def layout_def)
  ultimately have "view r = view (p\<lparr>conf := (conf p)\<lparr>interfaces := j\<rparr>, ready := y\<rparr>)" using v(2) by simp
  then show ?thesis unfolding alike_def by blast
qed

lemma alike_keeps:
  assumes "alike p q"
  shows "g_size q = g_size p" "outfile q = outfile p" "bytes_done q = bytes_done p"
    "\<exists>is. conf q = (conf p)\<lparr>interfaces := is\<rparr>" "supported (conn q LTE) = supported (conn p LTE)"
  using assms by (auto simp: alike_def view_def layout_def)

lemma alike_acct:
  assumes "alike p q"
  shows "acct q \<longleftrightarrow> acct p"
proof -
  obtain i x where v: "view q = view (p\<lparr>conf := (conf p)\<lparr>interfaces := i\<rparr>, ready := x\<rparr>)" (is "_ = view ?p")
    using assms unfolding alike_def by blast
  have "work ?p k = work p k" for k by (simp add: work_def others_def cong: option.case_cong)
  then have "acct ?p \<longleftrightarrow> acct p"
    by (simp add: acct_but_def sound_def aimed_def balanced_def conn_ok_def)
  then show ?thesis using view_acct [OF v] by blast
qed

lemma alike_ready: "alike p (p\<lparr>ready := r\<rparr>)"
  unfolding alike_def by (rule exI [of _ "interfaces (conf p)"], rule exI [of _ r]) simp

lemma alike_use_interface:
  assumes "use_interface k s = Inr s'"
  shows "alike (s_proc s) (s_proc s')"
proof -
  obtain i "is" where i: "interfaces (conf (s_proc s)) = i # is"
    and s': "s_proc s' = upd_conn k (\<lambda>c. c\<lparr>local_if := i\<rparr>)
      ((s_proc s)\<lparr>conf := (conf (s_proc s))\<lparr>interfaces := is @ [i]\<rparr>\<rparr>)"
    using assms by (auto simp: use_interface_def split: list.splits)
  have "view (s_proc s') = view ((s_proc s)\<lparr>conf := (conf (s_proc s))\<lparr>interfaces := is @ [i]\<rparr>, ready := ready (s_proc s)\<rparr>)"
    unfolding s' by simp
  then show ?thesis unfolding alike_def by blast
qed

lemma view_supported [simp]: "view (upd_conn WIFI (\<lambda>c. c\<lparr>supported := b\<rparr>) p) = view p"
  by (simp add: view_def layout_def upd_conn_def fun_eq_iff)

lemma alike_prepare_conn:
  assumes "prepare_conn k s = Inr s'"
  shows "alike (s_proc s) (s_proc s')"
proof -
  obtain c b s1 where 1: "conn_set (conn (s_proc s) k) (g_url (s_proc s)) = Inr (c, b)"
    "use_interface k (upd_proc (upd_conn k (\<lambda>_. c)) s) = Inr s1"
    and s': "s' = (if k = WIFI then upd_proc (upd_conn k (\<lambda>c. c\<lparr>supported := True\<rparr>)) s1 else s1)"
    using assms unfolding prepare_conn_def by (auto elim!: bindR_InrE)
  have "view (upd_conn k (\<lambda>_. c) (s_proc s)) = view (s_proc s)"
    using conn_set_keeps [OF 1(1)] by (simp add: view_def layout_def upd_conn_def fun_eq_iff)
  then have "alike (s_proc s) (upd_conn k (\<lambda>_. c) (s_proc s))" by (rule view_alike)
  also have "alike \<dots> (s_proc s1)" using alike_use_interface [OF 1(2)] by simp
  also have "alike \<dots> (s_proc s')" by (rule view_alike) (simp add: s')
  finally show ?thesis .
qed

lemma alike_launch:
  assumes "launch_thread E k p = Inr q"
  shows "alike p q"
proof (cases "env_thread E (tick p)")
  case True
  then have "view q = view p" using assms by (simp add: launch_thread_def) (drule view_touch, simp)
  then show ?thesis by (rule view_alike)
next
  case False
  then have "view q = view ((gb_message ''pthread error!!!'' p)\<lparr>ready := - 1\<rparr>)"
    using assms by (auto simp: launch_thread_def)
  then have "alike ((gb_message ''pthread error!!!'' p)\<lparr>ready := - 1\<rparr>) q" by (rule view_alike)
  moreover have "alike p ((gb_message ''pthread error!!!'' p)\<lparr>ready := - 1\<rparr>)"
    using alike_trans [OF view_alike [OF view_gb_message] alike_ready] .
  ultimately show ?thesis using alike_trans by blast
qed

lemma alike_start_conn:
  assumes "start_conn E S k s = Inr s'"
  shows "alike (s_proc s) (s_proc s')"
proof (cases "currentbyte (conn (s_proc s) k) \<le> lastbyte (conn (s_proc s) k)")
  case True
  then obtain ip p2 where l: "launch_thread E k (announce_start k
      (upd_conn k (\<lambda>c. c\<lparr>c_state := True, local_if := ip\<rparr>) (s_proc s))) = Inr p2"
    and s': "s_proc s' = upd_conn k (\<lambda>c. c\<lparr>c_start_time := fst (gettime E p2)\<rparr>) (snd (gettime E p2))"
    using assms by (auto simp: start_conn_def Let_def gettime_def elim!: bindR_InrE)
  have "alike (s_proc s) (announce_start k (upd_conn k (\<lambda>c. c\<lparr>c_state := True, local_if := ip\<rparr>) (s_proc s)))"
    by (rule view_alike) (simp add: announce_start_def)
  also have "alike \<dots> p2" using l by (rule alike_launch)
  also have "alike \<dots> (s_proc s')" by (rule view_alike) (simp add: s')
  finally show ?thesis .
qed (use assms in \<open>simp add: start_conn_def\<close>)

lemma alike_foldR:
  assumes "foldR f ks s = Inr s'" "\<And>k s s'. f k s = Inr s' \<Longrightarrow> alike (s_proc s) (s_proc s')"
  shows "alike (s_proc s) (s_proc s')"
  using foldR_inv [of f ks s s' "\<lambda>r. alike (s_proc s) (s_proc r)"] assms alike_trans by simp

lemma gb_start_alike:
  assumes "gb_start E S s = Inr s'"
  shows "alike (s_proc s) (s_proc s') \<and> ready (s_proc s') = 0"
proof -
  let ?say = "\<lambda>p. if verbose (conf p) > 0 then gb_message ''Starting download'' p else p"
  obtain s1 s3 where 1: "foldR prepare_conn (conn_indices (s_proc s)) s = Inr s1"
    "foldR (start_conn E S) (rev (conn_indices (s_proc (upd_proc ?say s1)))) (upd_proc ?say s1) = Inr s3"
    and s': "s_proc s' = (snd (gettime E (s_proc s3)))\<lparr>g_start_time := fst (gettime E (s_proc s3)), ready := 0,
      g_start_byte := bytes_done (s_proc s3)\<rparr>"
    using assms by (auto simp: gb_start_def Let_def gettime_def elim!: bindR_InrE)
  have "alike (s_proc s) (s_proc s1)" using 1(1) alike_prepare_conn by (rule alike_foldR)
  also have "alike \<dots> (s_proc (upd_proc ?say s1))" by (rule view_alike) simp
  also have "alike \<dots> (s_proc s3)" using 1(2) alike_start_conn by (rule alike_foldR)
  also have "alike \<dots> ((s_proc s3)\<lparr>ready := 0\<rparr>)" by (rule alike_ready)
  also have "alike \<dots> (s_proc s')" by (rule view_alike) (simp add: s' gettime_def view_def layout_def)
  finally show ?thesis by (simp add: s')
qed

section \<open>The invariant of a session\<close>

text \<open>The state in which the loop of \<open>gb_process\<close> begins.\<close>

definition session_start :: "env \<Rightarrow> sys \<Rightarrow> string \<Rightarrow> conf_t \<Rightarrow> proc \<Rightarrow> proc \<Rightarrow> bool" where
  "session_start E S url c p q \<longleftrightarrow> (\<exists>s s1 s2. gb_new E S c url p = Inr s \<and> ready (s_proc s) \<noteq> - 1
     \<and> gb_open S s = Some (Inr (True, s1)) \<and> gb_start E S s1 = Inr s2 \<and> q = s_proc s2)"

text \<open>No negative share is configured, and the first segment is not empty for a file of this size.\<close>

definition sensible :: "conf_t \<Rightarrow> int \<Rightarrow> bool" where
  "sensible c fsize \<longleftrightarrow> (\<forall>k. 0 \<le> initial_chunk_rate c k)
     \<and> (\<forall>n cnt. first_segment_size fsize (num_of_segments c) (fixed_segment_size_KB c) = Inr (n, cnt) \<longrightarrow> 0 < n)"

lemma session_start_intact:
  assumes "session_start E S url c p q" "sensible c (g_size q)"
  shows "intact E q"
proof -
  obtain s s1 s2 where 1: "gb_new E S c url p = Inr s" "ready (s_proc s) \<noteq> - 1"
    "gb_open S s = Some (Inr (True, s1))" "gb_start E S s1 = Inr s2" "q = s_proc s2"
    using assms(1) unfolding session_start_def by blast
  note new = gb_new_accepted [OF 1(1,2)] and opened = gb_open_opened [OF 1(3)]
  obtain "is" r where c: "conf (s_proc s) = c\<lparr>interfaces := is, qos_kbps := r\<rparr>" using new(4) by blast
  obtain q0 where i: "gb_init_segment_setup (s_proc s) = Inr q0" and v: "view (s_proc s1) = view q0"
    using opened(3) by blast
  obtain n cnt where n: "first_segment_size (g_size (s_proc s)) (num_of_segments (conf (s_proc s)))
      (fixed_segment_size_KB (conf (s_proc s))) = Inr (n, cnt)"
    using i unfolding gb_init_segment_setup_def by (auto elim!: bindR_InrE)
  have a: "alike q0 q" using alike_trans [OF view_alike [OF v]] gb_start_alike [OF 1(4)] by (simp add: 1(5))
  have size: "g_size q0 = g_size (s_proc s)" using init_segment_size(1) [OF i] .
  then have "0 < n" using assms(2) n alike_keeps(1) [OF a] by (simp add: sensible_def c)
  moreover have rates: "0 \<le> initial_chunk_rate (conf (s_proc s)) k" for k
    using assms(2) by (simp add: sensible_def c)
  ultimately have q0: "acct q0" "supported (conn q0 LTE)"
    using init_segment_acct [OF i n _ new(2) opened(2) new(1)] opened(1) by blast+
  have "acct q" using q0(1) alike_acct [OF a] by blast
  then show ?thesis using q0(2) alike_keeps(5) [OF a] by (simp add: intact_def)
qed

interpretation begun: machine "\<lambda>q. session_start E S url c p q \<and> sensible c (g_size q)" "paced_step E" "intact E" for E S url c p
proof
  show "intact E q" if "session_start E S url c p q \<and> sensible c (g_size q)" for q
    using that session_start_intact [of E S url c p q] by blast
  show "intact E t" if "paced_step E s t" "intact E s" for s t
    using paced_step_intact [OF that] by blast
qed

end
