(* ===== verification/Session_Samples.thy ===== *)
theory Session_Samples
  imports Session_Laws Run_Theorems
begin

text \<open>
  A whole session on concrete answers: a server with a file of 4 bytes, two connections of 2 bytes
  each. Stage by stage, from the command line to the turn that completes the file; the witnesses of the session's
  properties run it.
\<close>

section \<open>The answers\<close>

definition tiny_sys :: sys where
  "tiny_sys = \<lparr>sys_files = (\<lambda>_. None), sys_home = None, sys_if_ip = (\<lambda>_. Some ''1''), sys_memory = [],
    sys_online = [''eth0'', ''eth1''], sys_nics = True, sys_can_open = True, sys_can_seek = True\<rparr>"

definition tiny_header :: string where
  "tiny_header = ''A 206'' @ [CHR 0x0A] @ ''Content-Length: 3'' @ [CHR 0x0A]"

definition tiny_response :: string where
  "tiny_response = tiny_header @ [CHR 0x0A] @ ''ab''"

definition tiny_env :: env where
  "tiny_env = \<lparr>env_time = (\<lambda>n. Fin 0), env_player_pos = (\<lambda>n. Fin 1),
     env_vframes = (\<lambda>n. Some (Some (int n + 1))), env_connect = (\<lambda>n. (5, tiny_response)),
     env_read = (\<lambda>n. 16), env_select = (\<lambda>n. Some (\<lambda>_. True)), env_write = (\<lambda>n. 9000),
     env_thread = (\<lambda>n. True)\<rparr>"

definition tiny_args :: "string list" where "tiny_args = [''g'', ''-i'', ''1'']"
definition tiny_url :: string where "tiny_url = ''http://h/f''"

lemma tiny_answers [simp]:
  "sys_nics tiny_sys" "sys_can_open tiny_sys" "sys_can_seek tiny_sys"
  "env_time tiny_env n = Fin 0" "env_thread tiny_env n" "env_connect tiny_env n = (5, tiny_response)"
  "env_read tiny_env n = 16" "env_select tiny_env n = Some (\<lambda>_. True)" "env_write tiny_env n = 9000"
  "env_player_pos tiny_env n = Fin 1"
  by (simp_all add: tiny_sys_def tiny_env_def)

lemma cast_int_0 [simp]: "cast_int (Fin 0) = Inr 0"
  by (simp add: cast_int_def trunc_rat_def in_int_def int_min_def int_max_def)

section \<open>The configuration\<close>

definition tiny_conf :: conf_t where
  "tiny_conf = conf_defaults\<lparr>num_of_segments := 1\<rparr>"

lemma tiny_conf_fields [simp]:
  "num_connections tiny_conf = 2" "verbose tiny_conf = 1" "interfaces tiny_conf = [[]]"
  "strip_cgi_parameters tiny_conf = 1" "num_of_segments tiny_conf = 1" "fixed_subsegment_mode tiny_conf = 0"
  "initial_chunk_rate tiny_conf k = 1" "qos_kbps tiny_conf = 6000" "buffer_size tiny_conf = 5120"
  "fixed_segment_size_KB tiny_conf = 10240" "tiny_conf\<lparr>interfaces := [[]]\<rparr> = tiny_conf"
  "tiny_conf\<lparr>num_of_segments := 1\<rparr> = tiny_conf"
  by (simp_all add: tiny_conf_def conf_defaults_def)

lemmas number_defs = sscanf1_def skip_space_def conv_i_def scan_i_def scan_signed_def hex_prefix_def
  scan_unsigned_def is_digit_def digit_val_def is_space_def to_int_def clamp_ll_def ll_min_def ll_max_def

lemma tiny_session_conf: "session_conf tiny_sys tiny_args = Inr (Some tiny_conf)"
  by (simp add: session_conf_def conf_init_def conf_loadfile_def tiny_sys_def tiny_args_def conf_defaults_def
      parse_args_def gb_options_def short_options_def parse_option_def set_number_def number_defs tiny_conf_def)

section \<open>The server\<close>

section \<open>The fields of a request\<close>

lemma addheader_fields [simp]:
  "h_host (http_addheader l h) = h_host h" "h_auth (http_addheader l h) = h_auth h"
  "h_headers (http_addheader l h) = h_headers h" "h_firstbyte (http_addheader l h) = h_firstbyte h"
  "h_lastbyte (http_addheader l h) = h_lastbyte h" "h_status (http_addheader l h) = h_status h"
  "h_fd (http_addheader l h) = h_fd h"
  by (simp_all add: http_addheader_def)

lemma get_fields [simp]:
  "h_host (http_get l h) = h_host h" "h_auth (http_get l h) = h_auth h"
  "h_headers (http_get l h) = h_headers h" "h_firstbyte (http_get l h) = h_firstbyte h"
  "h_lastbyte (http_get l h) = h_lastbyte h" "h_status (http_get l h) = h_status h"
  "h_fd (http_get l h) = h_fd h"
  by (simp_all add: http_get_def Let_def)

lemma fold_addheader_fields [simp]:
  "h_host (fold http_addheader ls h) = h_host h" "h_auth (fold http_addheader ls h) = h_auth h"
  "h_headers (fold http_addheader ls h) = h_headers h" "h_firstbyte (fold http_addheader ls h) = h_firstbyte h"
  "h_lastbyte (fold http_addheader ls h) = h_lastbyte h" "h_status (fold http_addheader ls h) = h_status h"
  "h_fd (fold http_addheader ls h) = h_fd h"
  by (induction ls arbitrary: h) simp_all

lemma conf_fields [simp]:
  "h_host (add_conf_headers c h) = h_host h" "h_auth (add_conf_headers c h) = h_auth h"
  "h_headers (add_conf_headers c h) = h_headers h" "h_firstbyte (add_conf_headers c h) = h_firstbyte h"
  "h_lastbyte (add_conf_headers c h) = h_lastbyte h" "h_status (add_conf_headers c h) = h_status h"
  "h_fd (add_conf_headers c h) = h_fd h"
  by (simp_all add: add_conf_headers_def)

lemma end_fields [simp]:
  "h_host (end_request h) = h_host h" "h_auth (end_request h) = h_auth h"
  "h_headers (end_request h) = h_headers h" "h_firstbyte (end_request h) = h_firstbyte h"
  "h_lastbyte (end_request h) = h_lastbyte h" "h_status (end_request h) = h_status h"
  "h_fd (end_request h) = h_fd h"
  by (simp_all add: end_request_def)


lemma tiny_read_headers: "read_headers tiny_response 0 [] = Inr (True, tiny_header, ''ab'')"
  by (simp add: tiny_header_def tiny_response_def MAX_QUERY_def)

lemma tiny_first_line:
  "strchr tiny_header (CHR 0x0A) = Some (''A 206'', [CHR 0x0A] @ ''Content-Length: 3'' @ [CHR 0x0A])"
  by (simp add: tiny_header_def strchr_def)

lemma tiny_status: "scan_status tiny_header n = 206"
  by (simp add: tiny_header_def scan_status_def scan_token_def number_defs)

lemma tiny_size: "h_headers h = tiny_header \<Longrightarrow> http_size h = Inr 3"
  by (simp add: tiny_header_def http_size_def http_header_def scan_token_def number_defs lower_def)

lemmas tiny_reply = tiny_read_headers tiny_first_line tiny_status tiny_size

lemmas exchange_defs = conn_setup_def conn_init_def http_connect_def set_auth_def conn_exec_def http_exec_def
  gb_receive_http_header_response_def stream_def send_request_def upd_http_def upd_conn_def PROTO_HTTP_def
  touch_def gettime_def

definition tiny_conn :: conn_t where
  "tiny_conn = zero_conn\<lparr>proto := 1, c_host := ''h'', c_dir := ''/'', c_file := ''f'', port := 80\<rparr>"

lemmas url_defs = conn_set_def conn_set_rest_def copy_string_def split_dir_file_def split_user_def split_port_def
  http_encode_def strchr_def strrchr_def MAX_STRING_def number_defs PROTO_HTTP_def

lemma tiny_set: "conn_set zero_conn tiny_url = Inr (tiny_conn, True)"
  by (simp add: url_defs tiny_url_def tiny_conn_def zero_conn_def)

lemma tiny_set_again:
  "conn_set c ''http://h:80/f'' = Inr (c\<lparr>proto := 1, c_host := ''h'', c_dir := ''/'', c_file := ''f'',
     c_user := [], c_pass := [], port := 80\<rparr>, True)"
  by (simp add: url_defs)

section \<open>\<open>gb_new\<close>\<close>

text \<open>The figures of the player that the turn reads.\<close>

definition marks :: "proc \<Rightarrow> int \<times> int \<times> bool" where
  "marks p = (inorder_offset p, last_downloaded_byte p, qos_start_flag p)"

lemma gb_message_more [simp]:
  "tick (gb_message t p) = tick p" "thread (gb_message t p) = thread p" "run (gb_message t p) = run p"
  "g_url (gb_message t p) = g_url p" "rx (gb_message t p) = rx p" "offset_info (gb_message t p) = offset_info p"
  "inorder_offset (gb_message t p) = inorder_offset p" "qos_start_flag (gb_message t p) = qos_start_flag p"
  "last_downloaded_byte (gb_message t p) = last_downloaded_byte p"
  by (simp_all add: gb_message_def)

definition tiny_parsed :: proc where
  "tiny_parsed = upd_conn LTE (\<lambda>_. tiny_conn) ((blank_gb tiny_conf sample)\<lparr>g_url := tiny_url, filename := ''f''\<rparr>)"

definition tiny_connected :: "proc \<Rightarrow> bool" where
  "tiny_connected p \<longleftrightarrow> conf p = tiny_conf \<and> conn p WIFI = zero_conn \<and> ready p = 0 \<and> thread p = (\<lambda>_. False)
     \<and> conn p LTE = tiny_conn\<lparr>c_http := (c_http zero_conn)\<lparr>h_host := ''h'', h_fd := 5\<rparr>, c_fd := 5\<rparr>
     \<and> rx p LTE = tiny_response \<and> filename p = ''f'' \<and> marks p = (0, 0, False)"

lemma tiny_conn_init: "\<exists>q. conn_init tiny_env LTE tiny_parsed = Inr (True, q) \<and> tiny_connected q"
  by (simp add: exchange_defs tiny_connected_def tiny_parsed_def tiny_conn_def blank_gb_def zero_conn_def
      sample_def marks_def)

definition answered :: "http_t \<Rightarrow> conn_t" where
  "answered h = tiny_conn\<lparr>c_http := h, c_fd := - 1, currentbyte := 1, supported := True, c_size := 4\<rparr>"

definition idle_http :: "http_t \<Rightarrow> bool" where
  "idle_http h \<longleftrightarrow> h_fd h \<le> 0 \<and> h_auth h = []"

definition tiny_asked :: "proc \<Rightarrow> bool" where
  "tiny_asked p \<longleftrightarrow> conf p = tiny_conf \<and> conn p WIFI = zero_conn \<and> ready p = 0 \<and> thread p = (\<lambda>_. False)
     \<and> (\<exists>h. conn p LTE = answered h \<and> idle_http h) \<and> marks p = (0, 0, False)"

lemma conn_info_loop_redir:
  "conn_info_loop E k MAX_REDIR p = bindR (conn_info_turn E k p) (\<lambda>(r, p1).
     if r = Some True then conn_info_loop E k 4 p1 else Inr (r, p1))"
  using conn_info_loop.simps(2) [of E k 4 p] by (simp add: MAX_REDIR_def)

lemma tiny_conn_info:
  assumes "tiny_connected p"
  shows "\<exists>q. conn_info tiny_env LTE p = Inr (True, q) \<and> tiny_asked q \<and> filename q = ''f''"
  using assms unfolding tiny_connected_def
  by (simp add: conn_info_def conn_info_loop_redir conn_info_turn_def exchange_defs Let_def tiny_reply conn_disconnect_def
      http_disconnect_def tiny_conn_def zero_conn_def tiny_asked_def answered_def idle_http_def marks_def cong: bindR_weak_cong)

definition tiny_new :: "proc \<Rightarrow> bool" where
  "tiny_new p \<longleftrightarrow> tiny_asked p \<and> g_size p = 4 \<and> g_url p = ''http://h:80/f'' \<and> run p"

lemma tiny_probe: "\<exists>q. probe_server tiny_env tiny_sys tiny_url tiny_parsed = Inr q \<and> tiny_new q"
proof -
  obtain q r where q: "conn_init tiny_env LTE tiny_parsed = Inr (True, q)"
    and r: "conn_info tiny_env LTE q = Inr (True, r)" "tiny_asked r" "filename r = ''f''"
    using tiny_conn_init tiny_conn_info by blast
  obtain h where h: "conn r LTE = answered h" using r(2) by (auto simp: tiny_asked_def)
  have "conn_url (answered h) = Inr ''http://h:80/f''"
    by (simp add: conn_url_def conn_url_text_def answered_def tiny_conn_def PROTO_HTTP_def zero_conn_def show_int_def
        show_nat.simps copy_string_def MAX_STRING_def char_of_def bit_0)
  then show ?thesis using q r h
    by (auto simp: probe_server_def accept_file_def Let_def tiny_new_def tiny_asked_def wildcard_def get_bitrate_def
        tiny_sys_def int_max_def answered_def tiny_conn_def zero_conn_def marks_def)
qed

lemma tiny_gb_new:
  "\<exists>s. gb_new tiny_env tiny_sys tiny_conf tiny_url sample = Inr s \<and> tiny_new (s_proc s)"
proof -
  let ?b = "blank_gb tiny_conf sample"
  have c: "conf ?b = tiny_conf" "c_file tiny_conn = ''f''" "conn ?b LTE = zero_conn" "conn_ok ?b LTE"
    by (simp_all add: blank_gb_def tiny_conn_def conn_ok_def)
  have url: "copy_string tiny_url = Inr tiny_url" by (simp add: copy_string_def tiny_url_def MAX_STRING_def)
  have name: "output_name tiny_conf ''f'' = Inr ''f''" by (simp add: output_name_def http_decode_def)
  have p: "?b\<lparr>g_url := tiny_url, conf := tiny_conf, conn := (conn ?b)(LTE := tiny_conn\<lparr>local_if := []\<rparr>), filename := ''f''\<rparr>
      = tiny_parsed"
    by (simp add: tiny_parsed_def upd_conn_def tiny_conn_def zero_conn_def blank_gb_def)
  obtain q where q: "probe_server tiny_env tiny_sys tiny_url tiny_parsed = Inr q" "tiny_new q"
    using tiny_probe by blast
  have "\<exists>o_fd own. gb_new tiny_env tiny_sys tiny_conf tiny_url sample = Inr \<lparr>s_proc = q, outfd = o_fd, if_owner = own\<rparr>"
    using c url name p q(1) tiny_set
    by (simp add: gb_new_def Let_def use_interface_def upd_conn_def conn_at_def cong: bindR_weak_cong)
  then show ?thesis using q(2) by auto
qed

section \<open>\<open>gb_open\<close> and \<open>gb_start\<close>\<close>

definition tiny_offsets :: offset_info where
  "tiny_offsets = empty_offset_info\<lparr>init_seg_size := 4, num_segments := 1, segment_count := 1,
       last_seg_offset := 3, connection := (\<lambda>_. Some 1),
       segs := [\<lparr>seg_id = 1, recovery_segment = False,
         seg_chunks = [\<lparr>start_byte = 0, last_byte = 3, csize = 4\<rparr>], seg_size = 4,
         subseg = (\<lambda>k. Some \<lparr>ss_chunks = [\<lparr>start_byte = 2 * idx k, last_byte = 2 * idx k + 1, csize = 2\<rparr>], ss_size = 2\<rparr>)\<rparr>]\<rparr>"

definition tiny_cut :: "proc \<Rightarrow> bool" where
  "tiny_cut p \<longleftrightarrow> conf p = tiny_conf \<and> ready p = 0 \<and> run p \<and> thread p = (\<lambda>_. False)
    \<and> (\<exists>h. conn p LTE = (answered h)\<lparr>currentbyte := 0, lastbyte := 1, last_segment_flag := True\<rparr> \<and> idle_http h)
    \<and> conn p WIFI = zero_conn\<lparr>currentbyte := 2, lastbyte := 3, last_segment_flag := True\<rparr>
    \<and> offset_info p = tiny_offsets \<and> nothing_yet p \<and> g_size p = 4 \<and> g_url p = ''http://h:80/f''
    \<and> marks p = (0, 0, False)"

lemma tiny_setup:
  assumes "tiny_new p" "nothing_yet p"
  shows "\<exists>q. gb_init_segment_setup p = Inr q \<and> tiny_cut q"
proof -
  obtain h where h: "conn p LTE = answered h" "idle_http h" using assms by (auto simp: tiny_new_def tiny_asked_def)
  have f: "conf p = tiny_conf" "conn p WIFI = zero_conn" "ready p = 0" "g_size p = 4" "g_url p = ''http://h:80/f''"
    "run p" "thread p = (\<lambda>_. False)" "bytes_done p = 0" "outfile p = Map.empty" "marks p = (0, 0, False)"
    using assms by (simp_all add: tiny_new_def tiny_asked_def nothing_yet_def)
  have k: "currentbyte (answered h) = 1" "lastbyte (answered h) = 0" "c_bytes_per_second (answered h) = 0"
    "ewma_bytes_per_second (answered h) = 0" "c_bytes_per_second zero_conn = 0" "ewma_bytes_per_second zero_conn = 0"
    by (simp_all add: answered_def tiny_conn_def zero_conn_def)
  have l: "x \<noteq> LTE \<Longrightarrow> x = WIFI \<and> idx x = 1" for x by (cases x) simp_all
  have e: "\<exists>ha. (answered h)\<lparr>last_segment_flag := True, currentbyte := 0, lastbyte := 1\<rparr> =
            (answered ha)\<lparr>currentbyte := 0, lastbyte := 1, last_segment_flag := True\<rparr> \<and> idle_http ha"
    using h(2) by (intro exI [of _ h]) (simp add: answered_def tiny_conn_def zero_conn_def)
  show ?thesis
    by (simp add: f [unfolded marks_def] h k init_defs c_arith_defs Let_def tiny_cut_def tiny_offsets_def nothing_yet_def
        marks_def cong: bindR_weak_cong)
       (use e f(10) in \<open>auto simp: fun_eq_iff marks_def dest: l\<close>)
qed

text \<open>A connection when its thread has been created, and when the thread has run.\<close>

definition waiting :: "http_t \<Rightarrow> link \<Rightarrow> conn_t" where
  "waiting h k = tiny_conn\<lparr>c_http := h, c_fd := (if k = LTE then - 1 else 0), supported := True,
     c_size := (if k = LTE then 4 else 0), currentbyte := 2 * idx k, lastbyte := 2 * idx k + 1,
     last_segment_flag := True, local_if := ''1'', c_state := True\<rparr>"

definition receiving :: "http_t \<Rightarrow> link \<Rightarrow> conn_t" where
  "receiving h k = (waiting h k)\<lparr>c_fd := 5, enabled := True, c_state := False\<rparr>"

lemma waiting_fields [simp]:
  "c_http (waiting h k) = h" "proto (waiting h k) = 1" "c_host (waiting h k) = ''h''" "c_user (waiting h k) = []"
  "currentbyte (waiting h k) = 2 * idx k" "lastbyte (waiting h k) = 2 * idx k + 1"
  by (simp_all add: waiting_def tiny_conn_def zero_conn_def)

definition tiny_rest :: "proc \<Rightarrow> bool" where
  "tiny_rest p \<longleftrightarrow> conf p = tiny_conf \<and> ready p = 0 \<and> run p \<and> offset_info p = tiny_offsets \<and> nothing_yet p
     \<and> g_size p = 4 \<and> g_start_byte p = 0 \<and> g_start_time p = Fin 0 \<and> marks p = (0, 0, False)"

definition tiny_begun :: "proc \<Rightarrow> bool" where
  "tiny_begun p \<longleftrightarrow> tiny_rest p \<and> thread p = (\<lambda>_. True) \<and> (\<exists>h. \<forall>k. conn p k = waiting (h k) k \<and> idle_http (h k))"

lemma tiny_address: "interface_address tiny_sys k = Inr ''1''"
  by (cases k) (simp_all add: interface_address_def lookup_if_name_def tiny_sys_def if_names_def lte_if_names_def
      wifi_if_names_def)

lemma tiny_gb_start:
  assumes "tiny_cut (s_proc s)"
  shows "\<exists>s'. gb_start tiny_env tiny_sys s = Inr s' \<and> tiny_begun (s_proc s')"
proof -
  obtain p fd own where s: "s = \<lparr>s_proc = p, outfd = fd, if_owner = own\<rparr>" by (cases s)
  obtain h where h: "conn p LTE = (answered h)\<lparr>currentbyte := 0, lastbyte := 1, last_segment_flag := True\<rparr>" "idle_http h"
    using assms by (auto simp: tiny_cut_def s)
  have f: "conf p = tiny_conf" "ready p = 0" "run p" "thread p = (\<lambda>_. False)"
    "conn p WIFI = zero_conn\<lparr>currentbyte := 2, lastbyte := 3, last_segment_flag := True\<rparr>"
    "offset_info p = tiny_offsets" "nothing_yet p" "g_size p = 4" "g_url p = ''http://h:80/f''"
    "inorder_offset p = 0" "last_downloaded_byte p = 0" "\<not> qos_start_flag p"
    using assms by (simp_all add: tiny_cut_def s marks_def)
  let ?h = "\<lambda>k. if k = LTE then h else c_http zero_conn"
  have t: "(\<lambda>_. False)(WIFI := True, LTE := True) = (\<lambda>_. True)"
  proof
    show "((\<lambda>_. False)(WIFI := True, LTE := True)) x = True" for x by (cases x) simp_all
  qed
  obtain s' where s': "gb_start tiny_env tiny_sys s = Inr s'" and r: "tiny_rest (s_proc s')"
    and th: "thread (s_proc s') = (\<lambda>_. False)(WIFI := True, LTE := True)"
    and lte: "conn (s_proc s') LTE = waiting h LTE" and wifi: "conn (s_proc s') WIFI = waiting (c_http zero_conn) WIFI"
    using f(7)
    by (simp add: gb_start_def Let_def gettime_def prepare_conn_def start_conn_def announce_start_def launch_thread_def
      touch_def conn_indices_def conn_ok_def f h s tiny_set_again tiny_address use_interface_def upd_conn_def
      tiny_rest_def marks_def nothing_yet_def cong: bindR_weak_cong)
      (simp add: waiting_def answered_def tiny_conn_def zero_conn_def)
  have "conn (s_proc s') k = waiting (?h k) k \<and> idle_http (?h k)" for k
    using lte wifi h(2) by (cases k) (simp_all add: idle_http_def zero_conn_def)
  then have "\<exists>h. \<forall>k. conn (s_proc s') k = waiting (h k) k \<and> idle_http (h k)" by (intro exI [of _ ?h]) simp
  then have "tiny_begun (s_proc s')" using r th t by (simp add: tiny_begun_def)
  with s' show ?thesis by blast
qed

section \<open>The threads and the turn\<close>

lemma fun_upd_eq: "f(k := a) = f(k := b) \<longleftrightarrow> a = b"
  by (auto dest: fun_upd_eqD)

lemma tiny_thread:
  assumes "conn p k = waiting h k" "idle_http h"
  shows "\<exists>q g. setup_thread tiny_env k p = Inr q \<and> conn q = (conn p)(k := receiving g k) \<and> rx q = (rx p)(k := ''ab'')
    \<and> h_fd g = 5 \<and> thread q = (thread p)(k := False) \<and> (tiny_rest p \<longrightarrow> tiny_rest q)"
  using assms
  by (simp add: setup_thread_def exchange_defs Let_def tiny_reply idle_http_def tiny_rest_def marks_def nothing_yet_def
      cong: bindR_weak_cong)
     (auto simp: receiving_def waiting_def tiny_conn_def zero_conn_def fun_upd_eq)

lemma tiny_turn:
  assumes c: "conn p = f(LTE := receiving h LTE, WIFI := receiving g WIFI)" "h_fd h = 5" "h_fd g = 5"
    and rx: "rx p = (\<lambda>_. ''ab'')" and r: "tiny_rest p" and t: "thread p = (\<lambda>_. False)"
  shows "\<exists>q. loop_turn tiny_env p = Inr q \<and> bytes_done q = 4 \<and> g_size q = 4 \<and> ready q = 1 \<and> paced tiny_env p"
proof -
  have f: "conf p = tiny_conf" "ready p = 0" "run p" "offset_info p = tiny_offsets" "bytes_done p = 0"
    "outfile p = Map.empty" "g_size p = 4" "g_start_byte p = 0" "g_start_time p = Fin 0"
    "inorder_offset p = 0" "last_downloaded_byte p = 0" "\<not> qos_start_flag p"
    using r by (simp_all add: tiny_rest_def marks_def nothing_yet_def)
  show ?thesis
    by (simp add: c rx t f paced_def turn_start_def after_select_def watched_def rates_ok_def turn_defs receive_defs c_arith_defs Let_def tiny_offsets_def receiving_def waiting_def
        tiny_conn_def zero_conn_def cong: bindR_weak_cong) (metis link.exhaust)
qed

end
