(* ===== verification/Session_Theorems.thy ===== *)
theory Session_Theorems
  imports Session_Samples
begin

text \<open>
  The properties of whole sessions: a file that was counted complete is complete, which servers a
  session can use at all, when \<open>gb_open\<close> returns, how a refused session ends, and the names and
  bit rates that a session looks up.
\<close>

section \<open>The sample session\<close>


lemma tiny_gb_open:
  assumes "tiny_new (s_proc s)" "nothing_yet (s_proc s)"
  shows "\<exists>s1. gb_open tiny_sys s = Some (Inr (True, s1)) \<and> tiny_cut (s_proc s1)"
proof -
  obtain q where q: "gb_init_segment_setup (s_proc s) = Inr q" "tiny_cut q" using tiny_setup [OF assms] by blast
  have "conn_ok (s_proc s) LTE" "supported (conn (s_proc s) LTE)"
    using assms(1) by (auto simp: tiny_new_def tiny_asked_def conn_ok_def answered_def)
  then have "gb_open tiny_sys s = Some (Inr (True, s\<lparr>s_proc := q, outfd := 3\<rparr>))"
    using q(1) by (simp add: gb_open_def Let_def conn_at_def)
  then show ?thesis using q(2) by auto
qed




section \<open>Complete files\<close>



section \<open>\<open>gb_open\<close>\<close>

text \<open>C27: \<open>gb_open\<close> only ever succeeds for a server that knows ranges and with two connections: the path for
  other servers, which starts from scratch with one connection, always reads past the array of connections.\<close>

theorem gb_open_needs_ranges:
  assumes "gb_open S s = Some (Inr (ok, s'))"
  shows "supported (conn (s_proc s) LTE) \<and> 2 \<le> num_connections (conf (s_proc s))"
  using gb_open_opened(1,2) [OF assms] by (simp add: conn_ok_def)

theorem gb_open_needs_ranges_witness:
  "\<exists>s s'. gb_open tiny_sys s = Some (Inr (True, s')) \<and> supported (conn (s_proc s) LTE)"
proof -
  obtain s where s: "gb_new tiny_env tiny_sys tiny_conf tiny_url sample = Inr s" "tiny_new (s_proc s)"
    using tiny_gb_new by blast
  have "ready (s_proc s) \<noteq> - 1" using s(2) by (simp add: tiny_new_def tiny_asked_def)
  from tiny_gb_open [OF s(2) gb_new_accepted(1) [OF s(1) this]]
  obtain s' where s': "gb_open tiny_sys s = Some (Inr (True, s'))" by blast
  then show ?thesis using gb_open_needs_ranges [OF s'] by blast
qed

lemma fill_sizes_zero: "fill_sizes j n = Some r \<Longrightarrow> n = 0 \<longrightarrow> j \<le> 0"
proof (erule fill_sizes.raw_induct [where P = "\<lambda>j n r. n = 0 \<longrightarrow> j \<le> 0", rotated])
  fix f j n r
  assume ih: "\<And>j n r. f j n = Some r \<Longrightarrow> n = 0 \<longrightarrow> j \<le> (0::int)"
    and r: "(if j > 0 then Option.bind (f (j - n) n) (\<lambda>r. Some (min j n # r)) else Some []) = Some r"
  then show "(n::int) = 0 \<longrightarrow> j \<le> (0::int)"
    using ih [of "j - n" n] by (auto simp: bind_eq_Some_conv split: if_splits)
qed

lemma fill_file_returns: "fill_file p = None \<longleftrightarrow> buffer_size (conf p) = 0 \<and> 0 < g_size p"
proof -
  have none: "fill_sizes j 0 = None" if "0 < j" for j
    using fill_sizes_zero [of j 0] that by (cases "fill_sizes j 0") auto
  have "fill_sizes j 0 = Some []" if "\<not> 0 < j" for j using that by (subst fill_sizes.simps) simp
  then have zero: "fill_sizes j 0 = None \<longleftrightarrow> 0 < j" for j using none by (cases "0 < j") auto
  show ?thesis
    using fill_sizes_returns [of "buffer_size (conf p)" "g_size p"]
    by (cases "buffer_size (conf p) = 0") (auto simp: fill_file_def Let_def bind_eq_None_conv zero)
qed

text \<open>C39: \<open>gb_open\<close> returns, with a result or an error, whenever the file system can seek or the configured block
  size is not 0.\<close>

theorem gb_open_returns:
  assumes "sys_can_seek S \<or> buffer_size (conf (s_proc s)) \<noteq> 0"
  shows "\<exists>r. gb_open S s = Some r"
proof -
  let ?p = "s_proc s"
  define r where "r = bindR (conn_at ?p LTE) (\<lambda>c.
      bindR (if \<not> supported c then single_connection ?p else Inr ?p) gb_init_segment_setup)"
  show ?thesis
  proof (cases r)
    case (Inl e)
    then show ?thesis by (simp add: gb_open_def Let_def r_def [symmetric])
  next
    case (Inr q)
    obtain e where "single_connection ?p = Inl e"
      using single_connection_fails [of ?p] by (cases "single_connection ?p") auto
    then have "gb_init_segment_setup ?p = Inr q" using Inr by (auto simp: r_def elim!: bindR_InrE split: if_splits)
    then have "buffer_size (conf q) = buffer_size (conf ?p)" by (rule init_segment_size(2))
    then have "sys_can_seek S \<or> fill_file q \<noteq> None" using assms fill_file_returns [of q] by auto
    then show ?thesis using Inr by (auto simp: gb_open_def Let_def r_def [symmetric])
  qed
qed

theorem gb_open_returns_witness:
  "\<exists>s r. gb_open (tiny_sys\<lparr>sys_can_seek := False\<rparr>) s = Some r \<and> buffer_size (conf (s_proc s)) = 5120"
proof -
  obtain s where s: "gb_new tiny_env tiny_sys tiny_conf tiny_url sample = Inr s" "tiny_new (s_proc s)"
    using tiny_gb_new by blast
  then have b: "buffer_size (conf (s_proc s)) = 5120" by (simp add: tiny_new_def tiny_asked_def)
  then show ?thesis using gb_open_returns [of "tiny_sys\<lparr>sys_can_seek := False\<rparr>" s] by auto
qed

section \<open>A refused session\<close>

lemma refuse_conn_conf: "refuse_conn p = Inr q \<Longrightarrow> conf q = conf p"
  by (auto simp: refuse_conn_def refuse_def gb_message_format_def elim!: bindR_InrE)

lemma probe_server_conns:
  assumes "probe_server E S url p = Inr q"
  shows "num_connections (conf q) = num_connections (conf p)"
proof -
  obtain ok1 p1 where 1: "conn_init E LTE p = Inr (ok1, p1)"
    and 2: "(if \<not> ok1 then refuse_conn p1
       else bindR (conn_info E LTE p1) (\<lambda>(ok, p2). if \<not> ok then refuse_conn p2 else accept_file S url p2)) = Inr q"
    using assms unfolding probe_server_def by (elim bindR_InrE) auto
  have p1: "conf p1 = conf p" using base_conn_init [OF 1] by (simp add: base_def)
  show ?thesis
  proof (cases ok1)
    case False
    then show ?thesis using 2 p1 by (auto dest!: refuse_conn_conf)
  next
    case True
    then obtain ok2 p2 where 3: "conn_info E LTE p1 = Inr (ok2, p2)"
      and 4: "(if \<not> ok2 then refuse_conn p2 else accept_file S url p2) = Inr q"
      using 2 by (auto elim!: bindR_InrE)
    have "conf p2 = conf p" using conn_info_answer(1) [OF 3] p1 by (simp add: base_def)
    then show ?thesis using 4 accept_file_answer(6) [of S url p2 q] by (auto dest!: refuse_conn_conf split: if_splits)
  qed
qed

lemma gb_new_parsed:
  assumes r: "gb_new E S c url p = Inr s" and url: "conn_set zero_conn url = Inr (c1, True)"
  shows "if_owner s LTE = InList" "conn_ok (s_proc s) LTE"
proof -
  let ?p1 = "blank_gb c p"
  let ?s0 = "\<lparr>s_proc = upd_conn LTE (\<lambda>_. c1) (?p1\<lparr>g_url := url\<rparr>), outfd = 0, if_owner = (\<lambda>_. NoInterface)\<rparr>"
  have c: "conn ?p1 LTE = zero_conn" "conf ?p1 = c" by (simp_all add: blank_gb_def)
  obtain s1 f q where 1: "conn_ok ?p1 LTE" "use_interface LTE ?s0 = Inr s1"
    "probe_server E S url ((s_proc s1)\<lparr>filename := f\<rparr>) = Inr q" "s = s1\<lparr>s_proc := q\<rparr>"
    using r url c by (auto simp: gb_new_def Let_def copy_string_def elim!: bindR_InrE split: if_splits)
  show "if_owner s LTE = InList" using 1(2,4) by (auto simp: use_interface_def split: list.splits)
  have "num_connections (conf (s_proc s1)) = num_connections c"
    using use_interface_frame(4) [OF 1(2)] c(2) by (auto simp: upd_conn_def)
  then show "conn_ok (s_proc s) LTE"
    using 1(1) probe_server_conns [OF 1(3)] by (simp add: conn_ok_def 1(4) c(2))
qed

text \<open>C28: a session whose server cannot be reached or refuses the file does not end cleanly: \<open>gb_close\<close> frees the
  pointer into the list of interfaces that \<open>gb_new\<close> stored in the connection.\<close>

theorem refused_session_bad_free:
  assumes "session_conf S argv = Inr (Some c)" "conn_set zero_conn url = Inr (c1, True)"
    and "gb_new E S c url (snd (gettime E p)) = Inr s" "ready (s_proc s) = - 1"
  shows "gb_process n E S url argv p \<noteq> Some (Inr q)"
proof
  assume g: "gb_process n E S url argv p = Some (Inr q)"
  have own: "if_owner s LTE = InList" "LTE \<in> set (conn_indices (s_proc s))"
    using gb_new_parsed [OF assms(3,2)] by (simp_all add: conn_indices_def)
  then have "InList \<in> if_owner s ` set (conn_indices (s_proc s))" by (metis image_eqI)
  then have "gb_close E s \<noteq> Inr s2" for s2
    by (auto simp: gb_close_def Let_def elim!: bindR_InrE)
  then obtain e where "gb_close E s = Inl e" by (cases "gb_close E s") auto
  then show False using g assms(1,3,4)
    by (cases "raw_args argv"; cases "num_connections (conf (s_proc s)) \<le> 2") (auto simp: gb_process_def)
qed

definition dead_env :: env where
  "dead_env = tiny_env\<lparr>env_connect := (\<lambda>_. (- 1, []))\<rparr>"

theorem refused_session_bad_free_witness:
  "\<forall>q. gb_process 5 dead_env tiny_sys tiny_url tiny_args sample \<noteq> Some (Inr q)"
proof -
  let ?b = "blank_gb tiny_conf (snd (gettime dead_env sample))"
  have c: "conf ?b = tiny_conf" "c_file tiny_conn = ''f''" "conn ?b LTE = zero_conn" "conn_ok ?b LTE" "proto tiny_conn = 1"
    by (simp_all add: blank_gb_def tiny_conn_def conn_ok_def)
  have url: "copy_string tiny_url = Inr tiny_url" by (simp add: copy_string_def tiny_url_def MAX_STRING_def)
  have name: "output_name tiny_conf ''f'' = Inr ''f''" by (simp add: output_name_def http_decode_def)
  have connect: "env_connect dead_env n = (- 1, [])" for n by (simp add: dead_env_def)
  have "\<exists>s. gb_new dead_env tiny_sys tiny_conf tiny_url (snd (gettime dead_env sample)) = Inr s \<and> ready (s_proc s) = - 1"
    using c url name tiny_set
    by (simp add: gb_new_def Let_def use_interface_def upd_conn_def conn_at_def probe_server_def conn_init_def
        http_connect_def upd_http_def connect refuse_conn_def refuse_def gb_message_format_def conn_disconnect_def
        PROTO_HTTP_def http_disconnect_def tiny_conn_def zero_conn_def cong: bindR_weak_cong)
  then show ?thesis using refused_session_bad_free [OF tiny_session_conf tiny_set] by blast
qed

section \<open>Names\<close>

text \<open>C29: the search for the name of a log file ends, and the name it finds is not taken, whatever
  files there are.\<close>

theorem unique_filepath_fresh:
  assumes "finite {f. exist f}" "card {f. exist f} < 2 ^ 31 - 1" "length (snd (split_ext path)) < 16"
  shows "\<exists>f. get_unique_filepath exist date_id path = Inr f \<and> \<not> exist f"
proof -
  obtain base ext where s: "split_ext path = (base, ext)" by (cases "split_ext path")
  obtain f where f: "next_free exist (base @ ''.'' @ date_id) ext 1 = Inr f"
    using next_free_total [OF assms(1,2)] by blast
  then show ?thesis
    using next_free_not_taken [OF f] assms(3) by (auto simp: get_unique_filepath_def dated_name_def s Let_def)
qed

theorem unique_filepath_fresh_witness:
  "\<exists>f. get_unique_filepath (\<lambda>f. f = ''log.1.txt'') ''1'' ''log.txt'' = Inr f \<and> f \<noteq> ''log.1.txt''"
proof -
  have "{f. f = ''log.1.txt''} = {''log.1.txt''}" by blast
  then have fin: "finite {f. f = ''log.1.txt''}" "card {f. f = ''log.1.txt''} < 2 ^ 31 - 1" by simp_all
  have "length (snd (split_ext ''log.txt'')) < 16" by (simp add: split_ext_def strrchr_def)
  from unique_filepath_fresh [OF fin this, of "''1''"] show ?thesis by blast
qed

text \<open>the bit rate of a video is its first entry in the dictionary, -1 without one.\<close>

theorem bitrate_is_lookup:
  assumes "\<forall>e \<in> set es. entry_ok e"
  shows "get_bitrate (Some (concat (map entry_line es))) url
    = Inr (case map_of es url of None \<Rightarrow> - 1 | Some b \<Rightarrow> b)"
  using get_bitrate_loop_entries [OF assms] fgets_entries [OF assms] by (simp add: get_bitrate_def)

theorem bitrate_is_lookup_witness:
  "get_bitrate (Some (concat (map entry_line [(''u'', 5), (''v'', 70), (''u'', 3)]))) ''u'' = Inr 5"
proof -
  have "\<forall>e \<in> set [(''u'', 5), (''v'', 70), (''u'', 3)]. entry_ok e"
    by (simp add: entry_ok_def is_space_def int_max_def)
  from bitrate_is_lookup [OF this, of "''u''"] show ?thesis by simp
qed

end
