(* ===== verification/Options_Theorems.thy ===== *)
theory Options_Theorems
  imports Session_Samples Http_Laws
begin

text \<open>
  The properties of the configuration: what the command line and a configuration file set is what is
  written there, and whatever is written there the fields keep the ranges of their types.
\<close>

section \<open>Numbers are read back\<close>

lemma scan_signed_show_int:
  assumes "\<And>m. 0 \<le> m \<Longrightarrow> f (show_int m) = Some m"
  shows "scan_signed f (show_int n) = Some n"
proof (cases "n < 0")
  case True
  then have "f (show_nat (nat (- n))) = Some (- n)" using assms [of "- n"] by (simp add: show_int_nonneg)
  then show ?thesis using True by (simp add: scan_signed_def show_int_def)
next
  case False
  then obtain d ds where s: "show_int n = d # ds" by (cases "show_int n") auto
  have "is_digit 10 d" using show_int_digits [of n d] False by (simp add: s)
  then have "d \<noteq> CHR ''-''" "d \<noteq> CHR ''+''" by (auto simp: is_digit_def digit_val_def)
  then show ?thesis using assms [of n] False by (simp add: scan_signed_def s)
qed

lemma scan_i_show [simp]: "scan_i (show_int n) = Some n"
  unfolding scan_i_def
proof (rule scan_signed_show_int)
  fix m :: int assume m: "0 \<le> m"
  show "(if hex_prefix (show_int m) then scan_unsigned 16 (drop 2 (show_int m))
    else case show_int m of [] \<Rightarrow> None
      | c # _ \<Rightarrow> if c = CHR ''0'' then scan_unsigned 8 (show_int m) else scan_unsigned 10 (show_int m)) = Some m"
  proof (cases "m = 0")
    case True
    have "show_int 0 = ''0''" by (simp add: show_int_def show_nat.simps [of 0] char_of_def bit_0)
    then show ?thesis
      using True by (simp add: hex_prefix_def scan_unsigned_def is_digit_def digit_val_def)
  next
    case False
    obtain d ds where s: "show_int m = d # ds" by (cases "show_int m") auto
    have "d \<noteq> CHR ''0''" using show_nat_first [of "nat m"] m False s by (simp add: show_int_nonneg)
    then show ?thesis using scan_unsigned_show [OF m] by (simp add: s hex_prefix_def split: list.splits)
  qed
qed

lemma skip_space_show [simp]: "skip_space (show_int n) = show_int n"
proof -
  obtain d ds where s: "show_int n = d # ds" by (cases "show_int n") auto
  have "d = CHR ''-'' \<or> is_digit 10 d" using show_int_chars [of d n] by (simp add: s)
  then have "\<not> is_space d" using is_space_digit by (auto simp: is_space_def)
  then show ?thesis by (simp add: s skip_space_def)
qed

lemma clamp_ll_id: "in_ll n \<Longrightarrow> clamp_ll n = n"
  by (auto simp: clamp_ll_def in_ll_def)

lemma in_int_ll: "in_int n \<Longrightarrow> in_ll n"
  by (simp add: in_int_def in_ll_def int_min_def int_max_def ll_min_def ll_max_def)

lemma conv_show [simp]:
  "in_int n \<Longrightarrow> conv_i (show_int n) = Some n"
  "in_int n \<Longrightarrow> conv_d (show_int n) = Some n"
  "in_ll n \<Longrightarrow> conv_lld (show_int n) = Some n"
  by (simp_all add: conv_i_def conv_d_def conv_lld_def in_int_ll clamp_ll_id to_int_id
      scan_signed_show_int scan_unsigned_show)

lemma sscanf1_show [simp]: "sscanf1 conv (show_int n) old = conv (show_int n)"
  by (simp add: sscanf1_def Let_def)

section \<open>The command line\<close>

text \<open>An option with its argument is written in one word or two, with its letter or its name.\<close>

datatype style = Joined | Apart | Long_joined | Long_apart

definition letters_with_argument :: string where
  "letters_with_argument = ''ni12QFfEWABlSRd''"

definition long_name :: "char \<Rightarrow> string" where
  "long_name c = (case find (\<lambda>(_, _, d). d = c) gb_options of Some (n, _) \<Rightarrow> n | None \<Rightarrow> [])"

definition option_words :: "style \<Rightarrow> char \<Rightarrow> string \<Rightarrow> string list" where
  "option_words st c v = (case st of
      Joined \<Rightarrow> [CHR ''-'' # c # v]
    | Apart \<Rightarrow> [[CHR ''-'', c], v]
    | Long_joined \<Rightarrow> [''--'' @ long_name c @ ''='' @ v]
    | Long_apart \<Rightarrow> [''--'' @ long_name c, v])"

lemma letter_table:
  "\<forall>c \<in> set letters_with_argument. c \<noteq> CHR ''-'' \<and> short_option short_options c = Some True
     \<and> find_long gb_options (long_name c) = Some (True, c)
     \<and> CHR ''='' \<notin> set (long_name c) \<and> long_name c \<noteq> []"
  by code_simp

lemma takeWhile_until: "c \<notin> set s \<Longrightarrow> takeWhile (\<lambda>x. x \<noteq> c) (s @ c # r) = s"
  by (induction s) auto

lemma dropWhile_until: "c \<notin> set s \<Longrightarrow> dropWhile (\<lambda>x. x \<noteq> c) (s @ c # r) = c # r"
  by (induction s) auto

lemma takeWhile_none: "c \<notin> set s \<Longrightarrow> takeWhile (\<lambda>x. x \<noteq> c) s = s"
  by (induction s) auto

lemma getopt_option_words:
  assumes "c \<in> set letters_with_argument" "v \<noteq> []"
  shows "getopt_long short_options gb_options (option_words st c v @ rest)
    = (c, v) # getopt_long short_options gb_options rest"
proof -
  have c: "c \<noteq> CHR ''-''" "short_option short_options c = Some True"
    "find_long gb_options (long_name c) = Some (True, c)" "CHR ''='' \<notin> set (long_name c)" "long_name c \<noteq> []"
    using letter_table assms(1) by blast+
  show ?thesis
    using c assms(2)
    by (cases st) (simp_all add: option_words_def Let_def scan_long_def strchr_def
        takeWhile_until dropWhile_until takeWhile_none)
qed

text \<open>What an option with an integer sets.\<close>

definition int_setting :: "char \<Rightarrow> int \<Rightarrow> conf_t \<Rightarrow> conf_t" where
  "int_setting c x cf =
     (if c = CHR ''n'' then cf\<lparr>num_connections := x\<rparr>
      else if c = CHR ''i'' then cf\<lparr>num_of_segments := x\<rparr>
      else if c = CHR ''S'' then cf\<lparr>fixed_segment_size_KB := x\<rparr>
      else if c = CHR ''1'' then cf\<lparr>initial_chunk_rate := (initial_chunk_rate cf)(LTE := x)\<rparr>
      else if c = CHR ''2'' then cf\<lparr>initial_chunk_rate := (initial_chunk_rate cf)(WIFI := x)\<rparr>
      else if c = CHR ''Q'' then cf\<lparr>qos_kbps := x\<rparr>
      else if c = CHR ''F'' then cf\<lparr>fixed_segment_mode := x\<rparr>
      else if c = CHR ''f'' then cf\<lparr>fixed_subsegment_mode := x\<rparr>
      else if c = CHR ''E'' then cf\<lparr>minimum_energy_mode := x\<rparr>
      else cf\<lparr>recovery_mode := x\<rparr>)"

definition int_option :: "char \<Rightarrow> int \<Rightarrow> bool" where
  "int_option c x \<longleftrightarrow> (if c = CHR ''S'' then in_ll x else c \<in> set ''ni12QFfER'' \<and> in_int x)"

lemma parse_option_int:
  assumes "int_option c x"
  shows "parse_option c (show_int x) cf = Some (int_setting c x cf)"
proof (cases "c = CHR ''S''")
  case True
  then show ?thesis using assms by (simp add: int_option_def parse_option_def set_number_def int_setting_def)
next
  case False
  then have "c \<in> set ''ni12QFfER''" "in_int x" using assms by (simp_all add: int_option_def)
  then show ?thesis
    unfolding list.set by (elim insertE emptyE)
      (simp_all add: parse_option_def set_number_def int_setting_def)
qed

lemma int_option_letter: "int_option c x \<Longrightarrow> c \<in> set letters_with_argument"
  by (auto simp: int_option_def letters_with_argument_def split: if_splits)

abbreviation int_words :: "style \<times> char \<times> int \<Rightarrow> string list" where
  "int_words \<equiv> \<lambda>(st, c, x). option_words st c (show_int x)"

lemma getopt_int_words:
  assumes "\<forall>(st, c, x) \<in> set ws. int_option c x"
  shows "getopt_long short_options gb_options (concat (map int_words ws)) = map (\<lambda>(st, c, x). (c, show_int x)) ws"
  using assms
proof (induction ws)
  case (Cons w ws)
  obtain st c x where w: "w = (st, c, x)" by (cases w)
  have "int_option c x" using Cons.prems by (simp add: w)
  then have "c \<in> set letters_with_argument" by (rule int_option_letter)
  from getopt_option_words [OF this] show ?case using Cons by (simp add: w)
qed simp

lemma parse_options_int:
  assumes "\<forall>(st, c, x) \<in> set ws. int_option c x"
  shows "parse_options (map (\<lambda>(st, c, x). (c, show_int x)) ws) i s cf =
    (let cf' = fold (\<lambda>(st, c, x). int_setting c x) ws cf; cs = set (map (\<lambda>(st, c, x). c) ws) in
     Some (if (i \<or> CHR ''i'' \<in> cs) \<and> (s \<or> CHR ''S'' \<in> cs) then cf'\<lparr>num_of_segments := 0\<rparr> else cf'))"
  using assms
proof (induction ws arbitrary: i s cf)
  case (Cons w ws)
  obtain st c x where w: "w = (st, c, x)" by (cases w)
  show ?case using Cons by (auto simp: w parse_option_int Let_def)
qed (simp add: Let_def)

text \<open>C24: integers given on the command line, each option written in any of its four ways and in any order, are what
  the configuration then holds; the last of several counts; with both a number of segments and a segment size the number is 0.\<close>

theorem command_line_read:
  assumes "\<forall>(st, c, x) \<in> set ws. int_option c x"
  shows "parse_args cf (prog # concat (map (\<lambda>(st, c, x). option_words st c (show_int x)) ws)) =
    (let cf' = fold (\<lambda>(st, c, x). int_setting c x) ws cf; cs = set (map (\<lambda>(st, c, x). c) ws) in
     Some (if CHR ''i'' \<in> cs \<and> CHR ''S'' \<in> cs then cf'\<lparr>num_of_segments := 0\<rparr> else cf'))"
  using getopt_int_words [OF assms] parse_options_int [OF assms, of False False cf] by (simp add: parse_args_def)

theorem command_line_read_witness:
  "parse_args conf_defaults [''gb'', ''-i3'', ''--Fixed segment size=5'', ''-n'', ''1'']
    = Some (conf_defaults\<lparr>num_of_segments := 0, fixed_segment_size_KB := 5, num_connections := 1\<rparr>)"
proof -
  let ?ws = "[(Joined, CHR ''i'', 3), (Long_joined, CHR ''S'', 5), (Apart, CHR ''n'', 1)]"
  have n: "show_int 3 = ''3''" "show_int 5 = ''5''" "show_int 1 = ''1''"
    by (simp_all add: show_int_def show_nat.simps char_of_def bit_0)
  have ok: "\<forall>(st, c, x) \<in> set ?ws. int_option c x"
    by (simp add: int_option_def in_int_def in_ll_def int_min_def int_max_def ll_min_def ll_max_def)
  have name: "long_name CHR ''S'' = ''Fixed segment size''" by (simp add: long_name_def gb_options_def)
  show ?thesis
    using command_line_read [OF ok, of conf_defaults "''gb''"]
    by (simp add: option_words_def name n int_setting_def Let_def conf_defaults_def)
qed

section \<open>Types\<close>

definition int_fields :: "conf_t \<Rightarrow> int list" where
  "int_fields c = [strip_cgi_parameters c, connection_timeout c, reconnect_delay c, num_connections c,
     buffer_size c, verbose c, alternate_output c, search_timeout c, search_threads c, search_amount c,
     search_top c, num_of_segments c, initial_chunk_rate c LTE, initial_chunk_rate c WIFI, qos_kbps c,
     fixed_segment_mode c, fixed_subsegment_mode c, minimum_energy_mode c, recovery_mode c]"

definition conf_typed :: "conf_t \<Rightarrow> bool" where
  "conf_typed c \<longleftrightarrow> list_all in_int (int_fields c) \<and> in_ll (fixed_segment_size_KB c)
     \<and> length (log_file c) \<le> MAX_STRING \<and> length (default_filename c) \<le> 100 \<and> interfaces c \<noteq> []
     \<and> add_header_count c = 0 \<and> user_agent c = ''GreenBag 2.4 (Linux)''"

lemma conv_range:
  "conv_i s = Some n \<Longrightarrow> in_int n" "conv_d s = Some n \<Longrightarrow> in_int n" "conv_lld s = Some n \<Longrightarrow> in_ll n"
proof -
  have "in_ll (clamp_ll x)" for x by (simp add: clamp_ll_def in_ll_def ll_min_def ll_max_def)
  then show "conv_lld s = Some n \<Longrightarrow> in_ll n" by (auto simp: conv_lld_def)
qed (auto simp: conv_i_def conv_d_def to_int_range)

lemma sscanf1_range:
  assumes "sscanf1 conv s old = Some n" "P old" "\<And>t m. conv t = Some m \<Longrightarrow> P m"
  shows "P n"
  using assms by (auto simp: sscanf1_def Let_def split: if_splits)

lemma sscanf1_int:
  "sscanf1 conv_i s old = Some n \<Longrightarrow> in_int old \<Longrightarrow> in_int n"
  "sscanf1 conv_d s old = Some n \<Longrightarrow> in_int old \<Longrightarrow> in_int n"
  "sscanf1 conv_lld s old = Some n \<Longrightarrow> in_ll old \<Longrightarrow> in_ll n"
  using conv_range by (blast intro: sscanf1_range)+

lemma set_numberE:
  assumes "set_number conv arg old upd = Some c"
  obtains n where "sscanf1 conv arg old = Some n" "c = upd n"
  using assms by (auto simp: set_number_def)

lemma parse_option_typed:
  assumes "parse_option opt arg c = Some c'" "conf_typed c"
  shows "conf_typed c'"
  using assms unfolding parse_option_def
  by (auto elim!: set_numberE simp: conf_typed_def int_fields_def dest: sscanf1_int split: if_split_asm)

lemma parse_options_typed:
  "parse_options os i s c = Some c' \<Longrightarrow> conf_typed c \<Longrightarrow> conf_typed c'"
proof (induction os i s c rule: parse_options.induct)
  case (1 i s c)
  then show ?case
    by (auto simp: conf_typed_def int_fields_def in_int_def int_min_def int_max_def split: if_splits)
next
  case (2 opt arg os i s c)
  then show ?case by (auto split: option.splits dest: parse_option_typed)
qed

lemma conf_number_int: "in_int old \<Longrightarrow> in_int (conf_number v old)"
  by (auto simp: conf_number_def dest: sscanf1_int split: option.splits)

lemma mapR_length: "mapR f xs = Inr ys \<Longrightarrow> length ys = length xs"
  by (induction xs arbitrary: ys) (auto elim!: bindR_InrE)

lemma interface_words_not_Nil: "interface_words s \<noteq> []"
  by (subst interface_words.simps) (simp add: Let_def)

lemma parse_interfaces_typed:
  assumes "parse_interfaces if_ip v c = Inr c'" "conf_typed c"
  shows "conf_typed c'"
proof -
  have "ws \<noteq> []" if "mapR (interface_text if_ip) (interface_words v) = Inr ws" for ws
    using mapR_length [OF that] interface_words_not_Nil [of v] by auto
  then show ?thesis using assms
    by (auto simp: parse_interfaces_def conf_typed_def int_fields_def elim!: bindR_InrE split: if_splits)
qed

lemma conf_set_late_id:
  assumes "conf_set if_ip k v c = Inr (Some c')"
  shows "conf_set_late k v c' = c'"
proof -
  have "k \<noteq> ''add_header_count''" "k \<noteq> ''add_header[i]''" "k \<noteq> ''user_agent''"
    using assms by (auto simp: conf_set_def)
  then show ?thesis by (simp add: conf_set_late_def)
qed

lemma either_branchE:
  assumes "(if P then x else y) = z" "x = z \<Longrightarrow> R" "y = z \<Longrightarrow> R"
  shows R
  using assms by (cases P) auto

lemma conf_set_typed:
  assumes "conf_set if_ip k v c = Inr (Some c')" "conf_typed c" "length v \<le> 100"
  shows "conf_typed c'"
  using assms(1)[unfolded conf_set_def] assms(2,3)
  by (elim either_branchE)
     (auto simp: conf_typed_def int_fields_def conf_number_int elim!: bindR_InrE dest: parse_interfaces_typed)

lemma conf_value_length:
  assumes "conf_value s = Inr v"
  shows "length v \<le> length s"
proof -
  let ?t = "tl (dropWhile (\<lambda>c. c \<noteq> CHR ''='') s)"
  have "v = rev (dropWhile is_space (rev (skip_space ?t)))"
    using assms by (auto simp: conf_value_def trim_end_def split: if_splits)
  then have "length v \<le> length (skip_space ?t)" using length_dropWhile_le [of is_space "rev (skip_space ?t)"] by simp
  also have "\<dots> \<le> length ?t" unfolding skip_space_def by (rule length_dropWhile_le)
  also have "\<dots> \<le> length s"
    using length_dropWhile_le [of "\<lambda>c. c \<noteq> CHR ''=''" s] by (simp add: le_diff_conv)
  finally show ?thesis .
qed

lemma conf_line_typed:
  assumes "conf_line if_ip line (c, key) = Inr (Some (c', key'))" "conf_typed c"
  shows "conf_typed c'"
proof (cases "CHR ''='' \<in> set (take 100 (takeWhile (\<lambda>x. x \<noteq> CHR ''#'') line))")
  case True
  let ?s = "take 100 (takeWhile (\<lambda>x. x \<noteq> CHR ''#'') line)"
  obtain v k c1 where v: "conf_value ?s = Inr v" and c1: "conf_set if_ip k v c = Inr (Some c1)"
    and c': "c' = conf_set_late k v c1"
    using assms(1) True by (auto simp: conf_line_def Let_def elim!: bindR_InrE split: option.splits)
  have "length v \<le> length ?s" using v by (rule conf_value_length)
  then have "conf_typed c1" using conf_set_typed [OF c1 assms(2)] by simp
  then show ?thesis using conf_set_late_id [OF c1] c' by simp
qed (use assms in \<open>simp add: conf_line_def\<close>)

lemma conf_loadfile_typed:
  assumes "conf_loadfile if_ip body c = Inr (Some c')" "conf_typed c"
  shows "conf_typed c'"
proof -
  have "conf_typed c'" if "conf_lines if_ip ls (c, k) = Inr (Some c')" "conf_typed c" for ls k
    using that
  proof (induction ls arbitrary: c k)
    case (Cons l ls)
    then obtain c1 k1 where "conf_line if_ip l (c, k) = Inr (Some (c1, k1))" "conf_lines if_ip ls (c1, k1) = Inr (Some c')"
      by (auto elim!: bindR_InrE split: option.splits)
    then show ?case using Cons.IH conf_line_typed Cons.prems(2) by blast
  qed simp
  then show ?thesis using assms by (auto simp: conf_loadfile_def split: option.splits)
qed

text \<open>C26: whatever the configuration files and the command line say, the configuration of a session keeps
  the ranges of its types, and neither the user agent nor the number of added header lines ever changes.\<close>

theorem session_conf_typed:
  assumes "session_conf S argv = Inr (Some c)"
  shows "conf_typed c"
proof -
  have d: "conf_typed conf_defaults"
    by (simp add: conf_typed_def int_fields_def conf_defaults_def in_int_def in_ll_def int_min_def int_max_def
        ll_min_def ll_max_def MAX_STRING_def)
  obtain f c1 where 1: "conf_init f (sys_files S) (sys_home S) = Inr (Some c1)" and 2: "parse_args c1 argv = Some c"
    using assms by (auto simp: session_conf_def elim!: bindR_InrE simp: Option.bind_eq_Some_conv)
  have "conf_typed c1"
    using 1 d by (auto simp: conf_init_def elim!: bindR_InrE dest!: conf_loadfile_typed split: option.splits if_splits)
  then show ?thesis using 2 parse_options_typed unfolding parse_args_def by blast
qed

theorem session_conf_typed_witness: "conf_typed tiny_conf"
  using tiny_session_conf by (rule session_conf_typed)

section \<open>The configuration file\<close>

text \<open>
  A file of comments and of entries, one per line: keys with a number, keys with a text, and the list of interfaces, each an
  address or the name of one.
\<close>

datatype conf_item = Comment string | Number string int | Value string string | Interfaces "string list"

fun unwords :: "string list \<Rightarrow> string" where
  "unwords [] = []"
| "unwords [w] = w"
| "unwords (w # ws) = w @ '' '' @ unwords ws"

fun item_line :: "conf_item \<Rightarrow> string" where
  "item_line (Comment t) = CHR ''#'' # t"
| "item_line (Number k n) = k @ '' = '' @ show_int n"
| "item_line (Value k v) = k @ '' = '' @ v"
| "item_line (Interfaces ws) = ''interfaces = '' @ unwords ws"

definition number_keys :: "string list" where
  "number_keys = [''strip_cgi_parameters'', ''connection_timeout'', ''reconnect_delay'', ''num_connections'', ''buffer_size'',
     ''verbose'', ''alternate_output'', ''search_timeout'', ''search_threads'', ''search_amount'', ''search_top'']"

definition word_ok :: "string \<Rightarrow> bool" where
  "word_ok w \<longleftrightarrow> w \<noteq> [] \<and> (\<forall>c \<in> set w. \<not> is_space c \<and> c \<noteq> CHR ''#'') \<and> (is_digit 10 (hd w) \<or> length w < 16)"

definition key_ok :: "string \<Rightarrow> bool" where
  "key_ok k \<longleftrightarrow> k \<noteq> [] \<and> (\<forall>c \<in> set k. c \<noteq> CHR ''='' \<and> c \<noteq> CHR ''#'' \<and> \<not> is_space c)"

definition value_ok :: "string \<Rightarrow> bool" where
  "value_ok v \<longleftrightarrow> v \<noteq> [] \<and> CHR 0x0A \<notin> set v \<and> CHR ''#'' \<notin> set v \<and> \<not> is_space (hd v) \<and> \<not> is_space (List.last v)"

fun item_ok :: "conf_item \<Rightarrow> bool" where
  "item_ok (Comment t) \<longleftrightarrow> CHR 0x0A \<notin> set t"
| "item_ok (Number k n) \<longleftrightarrow> k \<in> set number_keys \<and> in_int n"
| "item_ok (Value k v) \<longleftrightarrow> key_ok k \<and> k \<notin> set (''interfaces'' # number_keys) \<and> value_ok v \<and> length k + length v \<le> 97"
| "item_ok (Interfaces ws) \<longleftrightarrow> ws \<noteq> [] \<and> (\<forall>w \<in> set ws. word_ok w) \<and> length (unwords ws) \<le> 87"

definition conf_text :: "conf_item list \<Rightarrow> string" where
  "conf_text items = concat (map (\<lambda>i. item_line i @ [CHR 0x0A]) items)"

text \<open>What the entries say of a key, in their order.\<close>

definition numbers :: "string \<Rightarrow> conf_item list \<Rightarrow> int list" where
  "numbers k items = concat (map (\<lambda>i. case i of Number k' n \<Rightarrow> if k' = k then [n] else [] | _ \<Rightarrow> []) items)"

definition texts :: "string \<Rightarrow> conf_item list \<Rightarrow> string list" where
  "texts k items = concat (map (\<lambda>i. case i of Value k' v \<Rightarrow> if k' = k then [v] else [] | _ \<Rightarrow> []) items)"

definition interface_lists :: "conf_item list \<Rightarrow> string list list" where
  "interface_lists items = concat (map (\<lambda>i. case i of Interfaces ws \<Rightarrow> [ws] | _ \<Rightarrow> []) items)"

definition only_known :: "conf_item list \<Rightarrow> bool" where
  "only_known items \<longleftrightarrow>
     (\<forall>i \<in> set items. case i of Value k v \<Rightarrow> k \<in> {''default_filename'', ''speed_type''} | _ \<Rightarrow> True)"

text \<open>
  The configuration that a file describes, field by field: what the last entry for it says, or else what was there. \<open>speed_type\<close>
  has no field, and the fields without a key keep what they hold.
\<close>

definition described :: "(string \<Rightarrow> string) \<Rightarrow> conf_item list \<Rightarrow> conf_t \<Rightarrow> conf_t" where
  "described if_ip items c = c\<lparr>
     default_filename := List.last (default_filename c # texts ''default_filename'' items),
     strip_cgi_parameters := List.last (strip_cgi_parameters c # numbers ''strip_cgi_parameters'' items),
     connection_timeout := List.last (connection_timeout c # numbers ''connection_timeout'' items),
     reconnect_delay := List.last (reconnect_delay c # numbers ''reconnect_delay'' items),
     num_connections := List.last (num_connections c # numbers ''num_connections'' items),
     buffer_size := List.last (buffer_size c # numbers ''buffer_size'' items),
     verbose := List.last (verbose c # numbers ''verbose'' items),
     alternate_output := List.last (alternate_output c # numbers ''alternate_output'' items),
     interfaces := List.last (interfaces c #
       map (map (\<lambda>w. if is_digit 10 (hd w) then w else if_ip w)) (interface_lists items)),
     search_timeout := List.last (search_timeout c # numbers ''search_timeout'' items),
     search_threads := List.last (search_threads c # numbers ''search_threads'' items),
     search_amount := List.last (search_amount c # numbers ''search_amount'' items),
     search_top := List.last (search_top c # numbers ''search_top'' items)\<rparr>"

lemma conf_value_entry:
  assumes "CHR ''='' \<notin> set k" "v \<noteq> []" "\<not> is_space (hd v)" "\<not> is_space (List.last v)"
  shows "conf_value (k @ '' = '' @ v) = Inr v"
proof -
  have "dropWhile (\<lambda>c. c \<noteq> CHR ''='') (k @ '' = '' @ v) = ''= '' @ v"
    using dropWhile_until [of "CHR ''=''" "k @ '' ''" "'' '' @ v"] assms(1) by simp
  moreover have "skip_space ('' '' @ v) = v"
  proof -
    have "is_space CHR '' ''" by (simp add: is_space_def)
    then show ?thesis using assms(2,3) by (cases v) (simp_all add: skip_space_def)
  qed
  moreover have "dropWhile is_space (rev v) = rev v"
    using assms(2,4) by (cases v rule: rev_cases) simp_all
  ultimately show ?thesis using assms(2) by (simp add: conf_value_def trim_end_def)
qed

lemma blank_is_space: "is_blank c \<Longrightarrow> is_space c" "is_blank CHR '' ''"
  by (auto simp: is_blank_def is_space_def)

lemma takeWhile_stop: "\<forall>x \<in> set s. P x \<Longrightarrow> \<not> P c \<Longrightarrow> takeWhile P (s @ c # r) = s"
  by (induction s) auto

lemma conf_line_entry:
  assumes "key_ok k" "value_ok v" "length k + length v \<le> 97"
  shows "conf_line if_ip (k @ '' = '' @ v) (c, key) =
    bindR (conf_set if_ip k v c) (\<lambda>r. Inr (map_option (\<lambda>c'. (c', Some k)) r))"
proof -
  let ?s = "k @ '' = '' @ v"
  have "CHR ''#'' \<notin> set ?s" using assms by (auto simp: key_ok_def value_ok_def)
  moreover have "length ?s \<le> 100" using assms(3) by simp
  ultimately have s: "take 100 (takeWhile (\<lambda>x. x \<noteq> CHR ''#'') ?s) = ?s" by (metis take_all takeWhile_none)
  have "takeWhile (\<lambda>c. c \<noteq> CHR ''='' \<and> \<not> is_blank c) ?s = k"
  proof -
    have "\<forall>c \<in> set k. c \<noteq> CHR ''='' \<and> \<not> is_blank c" using assms(1) blank_is_space(1) by (auto simp: key_ok_def)
    then show ?thesis
      using takeWhile_stop [of k "\<lambda>c. c \<noteq> CHR ''='' \<and> \<not> is_blank c" "CHR '' ''" "''= '' @ v"] blank_is_space(2) by simp
  qed
  then have key: "conf_key ?s key = Some k" using assms(1) by (simp add: conf_key_def key_ok_def)
  have "conf_value ?s = Inr v" using assms(1,2) by (intro conf_value_entry) (auto simp: key_ok_def value_ok_def)
  then have l: "conf_line if_ip ?s (c, key) =
    bindR (conf_set if_ip k v c) (\<lambda>r. Inr (map_option (\<lambda>c'. (conf_set_late k v c', Some k)) r))"
    by (simp add: conf_line_def s [simplified] key [simplified])
  show ?thesis
  proof (cases "conf_set if_ip k v c")
    case (Inr r)
    then show ?thesis unfolding l using conf_set_late_id [of if_ip k v c] by (cases r) simp_all
  qed (unfold l, simp)
qed

lemma file_lines_Nil: "file_lines [] = [[]]"
  by (subst file_lines.simps) simp

lemma file_lines_step: "CHR 0x0A \<notin> set l \<Longrightarrow> file_lines (l @ CHR 0x0A # r) = l # file_lines r"
  by (subst file_lines.simps) (simp add: takeWhile_until dropWhile_until)

lemma show_int_value:
  assumes "in_int n"
  shows "value_ok (show_int n)" and "length (show_int n) \<le> 11"
proof -
  have *: "\<not> is_space c" "c \<noteq> CHR ''#''" "c \<noteq> CHR 0x0A" if "c \<in> set (show_int n)" for c
    using show_int_chars [OF that] is_space_digit by (auto simp: is_space_def is_digit_def digit_val_def)
  have "show_int n \<noteq> []" by simp
  with * hd_in_set [of "show_int n"] last_in_set [of "show_int n"] show "value_ok (show_int n)"
    by (auto simp: value_ok_def simp del: show_int_not_Nil)
  have "length (show_nat (nat m)) \<le> Suc 9" if "m \<le> 2147483648" for m :: int
    using that by (intro length_show_nat) simp
  from this [of n] this [of "- n"] show "length (show_int n) \<le> 11"
    using assms by (auto simp: show_int_def in_int_def int_min_def int_max_def)
qed

lemma number_key_ok: "k \<in> set number_keys \<Longrightarrow> key_ok k \<and> length k \<le> 20"
  unfolding number_keys_def list.set by (elim insertE emptyE) (simp_all add: key_ok_def is_space_def)

lemma conf_number_show [simp]: "in_int n \<Longrightarrow> conf_number (show_int n) old = n"
  by (simp add: conf_number_def)

lemma unwords_hd: "w \<noteq> [] \<Longrightarrow> hd (unwords (w # ws)) = hd w"
  by (cases ws) auto

lemma unwords_value:
  "ws \<noteq> [] \<Longrightarrow> \<forall>w \<in> set ws. word_ok w \<Longrightarrow> value_ok (unwords ws)"
proof (induction ws rule: unwords.induct)
  case (2 w)
  have "is_space CHR 0x0A" by (simp add: is_space_def)
  with 2 show ?case by (auto simp: value_ok_def word_ok_def)
next
  case (3 w v vs)
  have "is_space CHR 0x0A" by (simp add: is_space_def)
  with 3 show ?case by (auto simp: value_ok_def word_ok_def)
qed simp

lemma word_not_blank: "word_ok w \<Longrightarrow> c \<in> set w \<Longrightarrow> \<not> is_blank c"
  using blank_is_space(1) by (auto simp: word_ok_def)

lemma interface_words_unwords:
  "ws \<noteq> [] \<Longrightarrow> \<forall>w \<in> set ws. word_ok w \<Longrightarrow> interface_words (unwords ws) = ws"
proof (induction ws rule: unwords.induct)
  case (2 w)
  then have w: "w \<noteq> []" "\<forall>c \<in> set w. \<not> is_blank c" using word_not_blank [of w] by (auto simp: word_ok_def)
  then have "dropWhile is_blank w = w" by (cases w) simp_all
  moreover have t: "takeWhile (\<lambda>c. \<not> is_blank c) w = w" using w(2) by (simp only: takeWhile_eq_all_conv)
  ultimately show ?case by (subst interface_words.simps) (simp only: unwords.simps Let_def t, simp)
next
  case (3 w v vs)
  let ?r = "unwords (v # vs)"
  have w: "word_ok w" using 3 by simp
  then have d: "dropWhile is_blank (w @ '' '' @ ?r) = w @ '' '' @ ?r"
    using word_not_blank [OF w] by (cases w) (simp_all add: word_ok_def)
  have t: "takeWhile (\<lambda>c. \<not> is_blank c) (w @ '' '' @ ?r) = w"
    using takeWhile_stop [of w "\<lambda>c. \<not> is_blank c" "CHR '' ''" ?r] word_not_blank [OF w] blank_is_space(2) by simp
  have "?r \<noteq> []" using unwords_value [of "v # vs"] 3 by (simp add: value_ok_def)
  then show ?case
    using 3 by (subst interface_words.simps) (simp add: Let_def d [simplified] t [simplified])
qed simp

lemma parse_interfaces_unwords:
  assumes "ws \<noteq> []" "\<forall>w \<in> set ws. word_ok w"
  shows "parse_interfaces if_ip (unwords ws) c = Inr (c\<lparr>interfaces := map (\<lambda>w. if is_digit 10 (hd w) then w else if_ip w) ws\<rparr>)"
proof -
  have "interface_text if_ip w = Inr (if is_digit 10 (hd w) then w else if_ip w)" if "word_ok w" for w
    using that unfolding interface_text_def word_ok_def by (cases "is_digit 10 (hd w)") simp_all
  then have "mapR (interface_text if_ip) ws = Inr (map (\<lambda>w. if is_digit 10 (hd w) then w else if_ip w) ws)"
    using assms(2) by (induction ws) simp_all
  then show ?thesis using unwords_value [OF assms] interface_words_unwords [OF assms]
    by (simp add: parse_interfaces_def value_ok_def)
qed

text \<open>One entry, and the file entry by entry.\<close>

lemma conf_set_number:
  assumes "k \<in> set number_keys" "in_int n"
  shows "conf_set if_ip k (show_int n) c = Inr (Some (described if_ip [Number k n] c))"
  using assms(1) unfolding number_keys_def list.set
  by (elim insertE emptyE)
    (simp_all add: conf_set_def described_def numbers_def texts_def interface_lists_def assms(2))

lemma conf_set_value:
  assumes "k \<notin> set (''interfaces'' # number_keys)"
  shows "conf_set if_ip k v c =
    Inr (if k \<in> {''default_filename'', ''speed_type''} then Some (described if_ip [Value k v] c) else None)"
  using assms by (auto simp: conf_set_def number_keys_def described_def numbers_def texts_def interface_lists_def)

lemma described_Cons: "described if_ip (i # items) c = described if_ip items (described if_ip [i] c)"
proof -
  have l: "List.last (x # xs @ ys) = List.last (List.last (x # xs) # ys)" for x :: 'x and xs ys
    by (cases ys rule: rev_cases) auto
  have "numbers k (i # items) = numbers k [i] @ numbers k items" "texts k (i # items) = texts k [i] @ texts k items"
    "interface_lists (i # items) = interface_lists [i] @ interface_lists items" for k
    by (simp_all add: numbers_def texts_def interface_lists_def)
  then show ?thesis by (simp add: described_def l del: List.last.simps)
qed

lemma described_Comment: "described if_ip [Comment t] c = c"
  by (simp add: described_def numbers_def texts_def interface_lists_def)

lemma conf_line_item:
  assumes "item_ok i"
  shows "\<exists>key'. conf_line if_ip (item_line i) (c, key) =
    Inr (if only_known [i] then Some (described if_ip [i] c, key') else None)"
proof (cases i)
  case (Comment t)
  then show ?thesis by (auto simp: conf_line_def only_known_def described_Comment)
next
  case (Number k n)
  then have n: "k \<in> set number_keys" "in_int n" using assms by auto
  then have "length k + length (show_int n) \<le> 97" using number_key_ok [of k] show_int_value [of n] by simp
  with conf_line_entry [of k "show_int n" if_ip c key] n number_key_ok [of k] show_int_value(1) [of n] show ?thesis
    by (auto simp: Number only_known_def conf_set_number)
next
  case (Value k v)
  then show ?thesis using assms conf_line_entry [of k v if_ip c key]
    by (auto simp: only_known_def conf_set_value split: if_splits)
next
  case (Interfaces ws)
  then have w: "ws \<noteq> []" "\<forall>w \<in> set ws. word_ok w" "length (unwords ws) \<le> 87" using assms by auto
  have k: "key_ok ''interfaces''" by (simp add: key_ok_def is_space_def)
  have "conf_set if_ip ''interfaces'' (unwords ws) c = Inr (Some (described if_ip [Interfaces ws] c))"
    using parse_interfaces_unwords [OF w(1,2)]
    by (simp add: conf_set_def described_def numbers_def texts_def interface_lists_def)
  with conf_line_entry [OF k unwords_value [OF w(1,2)], of if_ip c key] w(3) show ?thesis
    by (auto simp: Interfaces only_known_def)
qed

lemma item_line_newline:
  assumes "item_ok i"
  shows "CHR 0x0A \<notin> set (item_line i)"
proof -
  have s: "is_space CHR 0x0A" by (simp add: is_space_def)
  show ?thesis
  proof (cases i)
    case (Number k n)
    then show ?thesis using assms number_key_ok [of k] show_int_value(1) [of n] s by (auto simp: key_ok_def value_ok_def)
  next
    case (Interfaces ws)
    then show ?thesis using assms unwords_value [of ws] by (simp add: value_ok_def)
  qed (use assms s in \<open>auto simp: key_ok_def value_ok_def\<close>)
qed

lemma conf_lines_items:
  assumes "\<forall>i \<in> set items. item_ok i"
  shows "conf_lines if_ip (file_lines (conf_text items)) (c, key) =
    Inr (if only_known items then Some (described if_ip items c) else None)"
  using assms
proof (induction items arbitrary: c key)
  case Nil
  show ?case
    by (simp add: conf_text_def file_lines_Nil conf_line_def only_known_def described_def numbers_def texts_def interface_lists_def)
next
  case (Cons i items)
  have i: "item_ok i" using Cons.prems by simp
  have "conf_text (i # items) = item_line i @ CHR 0x0A # conf_text items" by (simp add: conf_text_def)
  then have l: "file_lines (conf_text (i # items)) = item_line i # file_lines (conf_text items)"
    using file_lines_step [OF item_line_newline [OF i]] by simp
  obtain key' where k: "conf_line if_ip (item_line i) (c, key) =
    Inr (if only_known [i] then Some (described if_ip [i] c, key') else None)"
    using conf_line_item [OF i] by blast
  have "only_known (i # items) \<longleftrightarrow> only_known [i] \<and> only_known items" by (simp add: only_known_def)
  then show ?case using Cons.IH Cons.prems k by (simp add: l described_Cons [of if_ip i items c])
qed

text \<open>C25: a configuration file of comments and entries, one per line, leaves in every field what the last entry for it says, and the
  other fields as they were; an entry with any other key, \<open>user_agent\<close> and \<open>add_header_count\<close> among them, refuses the file.\<close>

theorem conf_file_reads:
  assumes "\<forall>i \<in> set items. item_ok i"
  shows "conf_loadfile if_ip (Some (conf_text items)) c =
    Inr (if \<forall>i \<in> set items. case i of Value k v \<Rightarrow> k \<in> {''default_filename'', ''speed_type''} | _ \<Rightarrow> True
         then Some (described if_ip items c) else None)"
  using conf_lines_items [OF assms] by (simp add: conf_loadfile_def only_known_def)

theorem conf_file_reads_witness:
  "conf_loadfile id (Some (conf_text [Comment ''a'', Number ''buffer_size'' 64, Interfaces [''10.0.0.1'', ''wlan0''],
        Number ''verbose'' 2, Number ''verbose'' 0])) conf_defaults
      = Inr (Some (conf_defaults\<lparr>buffer_size := 64, verbose := 0, interfaces := [''10.0.0.1'', ''wlan0'']\<rparr>))
   \<and> conf_loadfile id (Some (conf_text [Value ''user_agent'' ''x''])) conf_defaults = Inr None"
proof -
  have 1: "\<forall>i \<in> set [Comment ''a'', Number ''buffer_size'' 64, Interfaces [''10.0.0.1'', ''wlan0''],
      Number ''verbose'' 2, Number ''verbose'' 0]. item_ok i"
    by (simp add: number_keys_def in_int_def int_min_def int_max_def word_ok_def is_space_def)
  have 2: "\<forall>i \<in> set [Value ''user_agent'' ''x'']. item_ok i"
    by (simp add: number_keys_def key_ok_def value_ok_def is_space_def)
  show ?thesis
    unfolding conf_file_reads [OF 1] conf_file_reads [OF 2]
    by (simp add: described_def numbers_def texts_def interface_lists_def conf_defaults_def)
qed

end
