(* ===== verification/Sockets.thy ===== *)
theory Sockets
  imports Options Machine
begin

text \<open>
  Sockets and processes: \<open>tcp_connect\<close> with its retries, the wrappers of \<^verbatim>\<open>util.c\<close> that end the program when a
  system call fails, the reading of the frame counter, and the server side of \<^verbatim>\<open>ahttpd.c\<close>: its options, its
  socket, the threads it starts. What the system answers is an argument. Descriptors are those of the
  kernel; which are opened and closed is a list of events.
\<close>

section \<open>Descriptors\<close>

datatype fd_event = Opened int | Closed int

fun fds_after :: "int set \<Rightarrow> fd_event list \<Rightarrow> int set" where
  "fds_after S [] = S"
| "fds_after S (Opened n # es) = fds_after (insert n S) es"
| "fds_after S (Closed n # es) = fds_after (S - {n}) es"

text \<open>Only descriptors are closed that were opened before and not closed since.\<close>

fun closes_own :: "int set \<Rightarrow> fd_event list \<Rightarrow> bool" where
  "closes_own S [] \<longleftrightarrow> True"
| "closes_own S (Opened n # es) \<longleftrightarrow> closes_own (insert n S) es"
| "closes_own S (Closed n # es) \<longleftrightarrow> n \<in> S \<and> closes_own (S - {n}) es"

section \<open>\<open>tcp_connect\<close>\<close>

text \<open>What the system answers in one attempt: \<open>socket\<close>, \<open>bind\<close>, \<open>select\<close>, and the error of the socket.\<close>

record attempt =
  a_fd :: int
  a_bound :: bool
  a_select :: int
  a_error :: int

definition MAX_RETRY :: nat where "MAX_RETRY = 50"

text \<open>The name of the host is looked up until it is not empty.\<close>

fun resolve :: "(nat \<Rightarrow> string option) \<Rightarrow> nat \<Rightarrow> nat \<Rightarrow> bool" where
  "resolve names i 0 \<longleftrightarrow> False"
| "resolve names i (Suc n) \<longleftrightarrow>
     (case names i of None \<Rightarrow> False | Some h \<Rightarrow> h \<noteq> [] \<or> resolve names (Suc i) n)"

function connect_loop :: "(nat \<Rightarrow> attempt) \<Rightarrow> string \<Rightarrow> nat \<Rightarrow> int \<Rightarrow> int \<times> fd_event list" where
  "connect_loop A addr retry sock =
     (if retry > MAX_RETRY then (- 1, [Closed sock])
      else let a = A retry in
        if a_fd a = - 1 then (- 1, [])
        else if addr \<noteq> [] \<and> \<not> a_bound a then (- 1, [Opened (a_fd a), Closed (a_fd a)])
        else if a_select a = 1 \<and> a_error a = 0 then (a_fd a, [Opened (a_fd a)])
        else let r = connect_loop A addr (Suc retry) (a_fd a)
             in (fst r, Opened (a_fd a) # Closed (a_fd a) # snd r))"
  by pat_completeness auto

termination by (relation "measure (\<lambda>(_, _, retry, _). Suc MAX_RETRY - retry)") auto

declare connect_loop.simps [simp del]

text \<open>The variable \<open>sock\<close> is not set on entry; the first attempt sets it.\<close>

definition tcp_connect :: "(nat \<Rightarrow> string option) \<Rightarrow> (nat \<Rightarrow> attempt) \<Rightarrow> string \<Rightarrow> int \<times> fd_event list" where
  "tcp_connect names A addr =
     (if resolve names 0 5 then connect_loop A addr 1 (- 1) else (- 1, []))"

section \<open>Wrappers\<close>

definition checked :: "int \<Rightarrow> int \<Rightarrow> int res" where
  "checked status n = (if n = - 1 then Inl (Exit status) else Inr n)"

definition Socket :: "int \<Rightarrow> int res" where "Socket n = checked 1 n"

definition Setsockopt :: "int \<Rightarrow> int res" where "Setsockopt n = checked 1 n"

text \<open>The comparison is assigned, not the result: 0 when \<open>bind\<close> succeeds.\<close>

definition Bind :: "int \<Rightarrow> int res" where
  "Bind n = (if n = - 1 then Inl (Exit 1) else Inr 0)"

definition Listen :: "int \<Rightarrow> int res" where "Listen n = checked 1 n"

definition Getsockname :: "int \<Rightarrow> int res" where "Getsockname n = checked 1 n"

definition Connect :: "int \<Rightarrow> int res" where
  "Connect n = (if n < 0 then Inl (Exit 1) else Inr n)"

definition Accept :: "int \<Rightarrow> int res" where "Accept n = checked 1 n"

definition Lseek :: "int \<Rightarrow> int res" where
  "Lseek n = (if n < 0 then Inl (Exit 1) else Inr n)"

definition Fseek :: "int \<Rightarrow> int res" where "Fseek n = checked 1 n"

definition Read :: "int \<Rightarrow> int res" where "Read n = checked 1 n"

definition Fstat :: "int \<Rightarrow> int res" where "Fstat n = checked 1 n"

definition Fopen :: "'f option \<Rightarrow> 'f res" where
  "Fopen f = (case f of None \<Rightarrow> Inl (Exit 3) | Some x \<Rightarrow> Inr x)"

definition Close :: "int \<Rightarrow> int res" where "Close n = checked 3 n"

definition Shutdown :: "int \<Rightarrow> int res" where "Shutdown n = checked 3 n"

definition Send :: "int \<Rightarrow> int res" where "Send n = checked 5 n"

text \<open>A short write ends the program too.\<close>

definition Write :: "int \<Rightarrow> int \<Rightarrow> int res" where
  "Write len n = (if n \<noteq> len then Inl (Exit 1) else Inr n)"

definition Pthread_create :: "int \<Rightarrow> int res" where
  "Pthread_create err_num = (if err_num \<noteq> 0 then Inl (Exit 1) else Inr err_num)"

definition Pthread_join :: "int \<Rightarrow> int res" where
  "Pthread_join err_num = (if err_num \<noteq> 0 then Inl (Exit 1) else Inr err_num)"

definition Pthread_kill :: "int \<Rightarrow> int res" where
  "Pthread_kill err_num = (if err_num \<noteq> 0 then Inl (Exit 1) else Inr err_num)"

text \<open>\<open>parsed\<close>: the result of \<open>inet_pton\<close>.\<close>

definition make_connection :: "int \<Rightarrow> int \<Rightarrow> int \<Rightarrow> int res" where
  "make_connection parsed fd answer =
     (if parsed \<le> 0 then Inl (Exit 3)
      else bindR (Socket fd) (\<lambda>s. bindR (Connect answer) (\<lambda>_. Inr s)))"

definition make_connection_over_local_if :: "int \<Rightarrow> int \<Rightarrow> bool \<Rightarrow> bool \<Rightarrow> int \<Rightarrow> (int \<times> fd_event list) res" where
  "make_connection_over_local_if parsed fd has_if bound answer =
     (if parsed \<le> 0 then Inl (Exit 3)
      else bindR (Socket fd) (\<lambda>s.
        if has_if \<and> \<not> bound then Inr (- 1, [Opened s, Closed s])
        else bindR (Connect answer) (\<lambda>_. Inr (s, [Opened s]))))"

text \<open>
  The calls of the profiler: one message over a connection of its own, which is closed; \<open>taken\<close>, \<open>down\<close> and \<open>shut\<close>
  are the answers of \<open>send\<close>, \<open>shutdown\<close> and \<open>close\<close>, \<open>fd\<close> and \<open>answer\<close> those of \<open>socket\<close> and \<open>connect\<close>.
\<close>

definition activate_gprofiler :: "int \<Rightarrow> int \<Rightarrow> int \<Rightarrow> fd_event list res" where
  "activate_gprofiler fd answer taken =
     bindR (make_connection 1 fd answer) (\<lambda>s. bindR (Send taken) (\<lambda>_. Inr [Opened s, Closed s]))"

definition deactivate_gprofiler :: "int \<Rightarrow> int \<Rightarrow> int \<Rightarrow> int \<Rightarrow> int \<Rightarrow> fd_event list res" where
  "deactivate_gprofiler fd answer taken down shut =
     bindR (make_connection 1 fd answer) (\<lambda>s. bindR (Send taken) (\<lambda>_.
     bindR (Shutdown down) (\<lambda>_. bindR (Close shut) (\<lambda>_. Inr [Opened s, Closed s]))))"

section \<open>The interfaces\<close>

text \<open>\<open>gb_get_ip\<close>: the addresses of the first two interfaces that are not the loopback.\<close>

definition gb_get_ip :: "(string \<times> bool) list option \<Rightarrow> string list res" where
  "gb_get_ip nics = (case nics of
      None \<Rightarrow> Inl (Exit 1)
    | Some xs \<Rightarrow> Inr (take 2 (map fst (filter (\<lambda>(_, loopback). \<not> loopback) xs))))"

section \<open>The frame counter\<close>

text \<open>
  \<open>get_num_vframe_decoded\<close>: the output of the player's service is not terminated in the buffer; a search or a number
  that runs to its end goes on in what was not read.
\<close>

definition FRAME_DECODED :: string where "FRAME_DECODED = ''numVideoFramesDecoded''"

definition frames_read :: "string \<Rightarrow> int \<Rightarrow> int res" where
  "frames_read out old =
     (let buf = take 2048 out; s = takeWhile (\<lambda>c. c \<noteq> CHR 0x00) buf; open_end = (CHR 0x00 \<notin> set buf) in
      if buf = [] then Inr old
      else case strstr s FRAME_DECODED of
          None \<Rightarrow> if open_end then Inl Uninit else Inr old
        | Some (_, t) \<Rightarrow>
            (let u = drop (length FRAME_DECODED) t in
             if u = [] then (if open_end then Inl Uninit else Inr old)
             else if hd u \<noteq> CHR ''('' then Inr old
             else let v = skip_space (tl u);
                      digits = (if v \<noteq> [] \<and> (hd v = CHR ''-'' \<or> hd v = CHR ''+'') then tl v else v)
               in if open_end \<and> dropWhile (is_digit 10) digits = [] then Inl Uninit
                  else Inr (case conv_lld v of None \<Rightarrow> old | Some n \<Rightarrow> n)))"

text \<open>\<open>popen\<close> and \<open>fileno\<close> succeed or not, \<open>select\<close> returns a number. The pipe stays open on failure.\<close>

definition get_num_vframe_decoded :: "bool \<Rightarrow> bool \<Rightarrow> int \<Rightarrow> string \<Rightarrow> int \<Rightarrow> (bool \<times> int) res" where
  "get_num_vframe_decoded popen_ok fileno_ok sel out old =
     (if \<not> popen_ok \<or> \<not> fileno_ok \<or> sel = - 1 \<or> sel = 0 then Inr (False, old)
      else bindR (frames_read out old) (\<lambda>n. Inr (True, n)))"

section \<open>The server\<close>

record server_answers =
  s_socket :: int
  s_setsockopt :: int
  s_bind :: int
  s_getsockname :: int
  s_listen :: int
  s_name :: nat

definition startup :: "server_answers \<Rightarrow> nat \<Rightarrow> (int \<times> nat) res" where
  "startup A wanted =
     bindR (Socket (s_socket A)) (\<lambda>httpd.
     bindR (Setsockopt (s_setsockopt A)) (\<lambda>_.
     bindR (Bind (s_bind A)) (\<lambda>_.
     bindR (if wanted = 0 then bindR (Getsockname (s_getsockname A)) (\<lambda>_. Inr (s_name A)) else Inr wanted) (\<lambda>number.
     bindR (Listen (s_listen A)) (\<lambda>_. Inr (httpd, number))))))"

text \<open>
  \<open>parse_ahttpd_args\<close>: the prefix of the log files is the first word of the argument after \<open>-x\<close>; its array
  holds 32 characters. The state is \<open>run_once_mode\<close> and the prefix.
\<close>

fun parse_ahttpd_args :: "string list \<Rightarrow> bool \<times> string \<Rightarrow> (bool \<times> string) res" where
  "parse_ahttpd_args [] st = Inr st"
| "parse_ahttpd_args (a # as) (once, prefix) =
     (if a = ''-x'' then
        (case as of
           [] \<Rightarrow> Inl NullDeref
         | b # _ \<Rightarrow>
             (let w = takeWhile (\<lambda>c. \<not> is_space c) (skip_space b) in
              if length w \<ge> 32 then Inl OutOfBounds
              else parse_ahttpd_args as (once, if w = [] then prefix else w)))
      else parse_ahttpd_args as (once \<or> a = ''-r'', prefix))"

text \<open>
  \<open>skip_headers\<close>: what each call of \<open>recv\<close> delivers, at most 2048 bytes; \<open>None\<close> is an error. \<open>buf\<close> is the known beginning
  of the buffer, which has no terminator. The result is what is left to receive. When the list is
  used up the peer has closed and \<open>recv\<close> returns 0 for ever: \<open>None\<close>, the loop does not end.
\<close>

fun skip_headers :: "string \<Rightarrow> string option list \<Rightarrow> string option list res option" where
  "skip_headers buf [] = None"
| "skip_headers buf (r # rs) =
     (case r of
        None \<Rightarrow> Some (Inl (Exit 3))
      | Some s \<Rightarrow>
          (let b = take 2048 s @ drop (length (take 2048 s)) buf in
           case strstr (takeWhile (\<lambda>c. c \<noteq> CHR 0x00) b) [CHR 0x0D, CHR 0x0A, CHR 0x0D, CHR 0x0A] of
             Some _ \<Rightarrow> Some (Inr rs)
           | None \<Rightarrow> if CHR 0x00 \<notin> set b then Some (Inl Uninit) else skip_headers b rs))"

section \<open>The threads of the server\<close>

text \<open>
  The loop of \<open>main\<close> starts a thread per connection and passes the address of its own variable \<open>client_sock\<close>;
  the thread reads it when it runs. \<open>waiting\<close>: threads that have not read it yet; \<open>served\<close>: what they read, in
  their order. A failed \<open>accept\<close> sets the variable to -1, and ends the loop in \<open>run_once_mode\<close>.
\<close>

record listener =
  listening :: bool
  client_sock :: int
  waiting :: nat
  accepted :: "int list"
  served :: "int list"

definition start_listening :: "listener \<Rightarrow> bool" where
  "start_listening s \<longleftrightarrow> s = \<lparr>listening = True, client_sock = - 1, waiting = 0, accepted = [], served = []\<rparr>"

inductive accept_step :: "bool \<Rightarrow> listener \<Rightarrow> listener \<Rightarrow> bool" for once where
  accept: "listening s \<Longrightarrow> 0 \<le> fd \<Longrightarrow> accept_step once s
     (s\<lparr>client_sock := fd, waiting := Suc (waiting s), accepted := accepted s @ [fd]\<rparr>)"
| accept_fails: "listening s \<Longrightarrow> accept_step once s (s\<lparr>client_sock := - 1, listening := \<not> once\<rparr>)"
| thread_starts: "0 < waiting s \<Longrightarrow> accept_step once s
     (s\<lparr>waiting := waiting s - 1, served := served s @ [client_sock s]\<rparr>)"

inductive_cases accept_stepE: "accept_step once s t"

end
