(* ===== verification/Sockets_Theorems.thy ===== *)
theory Sockets_Theorems
  imports Sockets
begin

text \<open>
  The properties of the sockets: which descriptors \<open>tcp_connect\<close> leaves open and which it closes, and which
  connection each thread of the server works on.
\<close>

section \<open>Descriptors of \<open>tcp_connect\<close>\<close>

lemma fds_after_append: "fds_after S (es @ fs) = fds_after (fds_after S es) fs"
  by (induction S es rule: fds_after.induct) simp_all

lemma closes_own_append: "closes_own S (es @ fs) \<longleftrightarrow> closes_own S es \<and> closes_own (fds_after S es) fs"
  by (induction S es rule: closes_own.induct) simp_all

lemma connect_spent: "retry > MAX_RETRY \<Longrightarrow> connect_loop A addr retry sock = (- 1, [Closed sock])"
  by (subst connect_loop.simps) simp

lemma connect_attempt:
  assumes "retry \<le> MAX_RETRY"
  shows "connect_loop A addr retry sock =
    (if a_fd (A retry) = - 1 then (- 1, [])
     else if addr \<noteq> [] \<and> \<not> a_bound (A retry) then (- 1, [Opened (a_fd (A retry)), Closed (a_fd (A retry))])
     else if a_select (A retry) = 1 \<and> a_error (A retry) = 0 then (a_fd (A retry), [Opened (a_fd (A retry))])
     else case connect_loop A addr (Suc retry) (a_fd (A retry)) of (r, ev) \<Rightarrow>
            (r, Opened (a_fd (A retry)) # Closed (a_fd (A retry)) # ev))"
  using assms by (subst connect_loop.simps) (simp add: Let_def split: prod.splits)

lemma first_attempt: "connect_loop A addr (Suc 0) sock = connect_loop A addr (Suc 0) sock'"
  by (simp add: connect_attempt MAX_RETRY_def)

lemma connect_loop_fds:
  assumes "\<And>i. a_fd (A i) \<notin> S" "sock \<notin> S" "connect_loop A addr retry sock = (r, ev)"
  shows "fds_after S ev = (if r = - 1 then S else insert r S) \<and> (r \<noteq> - 1 \<longrightarrow> closes_own S ev)"
  using assms
proof (induction A addr retry sock arbitrary: r ev rule: connect_loop.induct)
  case (1 A addr retry sock)
  have fresh: "insert (a_fd (A retry)) S - {a_fd (A retry)} = S" using 1(2) by auto
  show ?case
  proof (cases "retry \<le> MAX_RETRY")
    case True
    obtain r' ev' where n: "connect_loop A addr (Suc retry) (a_fd (A retry)) = (r', ev')" by fastforce
    note 2 = 1(4) [unfolded connect_attempt [OF True] n prod.case]
    consider (none) "a_fd (A retry) = - 1" | (unbound) "a_fd (A retry) \<noteq> - 1" "addr \<noteq> [] \<and> \<not> a_bound (A retry)"
      | (connected) "a_fd (A retry) \<noteq> - 1" "\<not> (addr \<noteq> [] \<and> \<not> a_bound (A retry))" "a_select (A retry) = 1 \<and> a_error (A retry) = 0"
      | (again) "a_fd (A retry) \<noteq> - 1" "\<not> (addr \<noteq> [] \<and> \<not> a_bound (A retry))" "\<not> (a_select (A retry) = 1 \<and> a_error (A retry) = 0)"
      by blast
    then show ?thesis
    proof cases
      case none
      then have "r = - 1" "ev = []" using 2 by simp_all
      then show ?thesis by simp
    next
      case unbound
      then have "r = - 1" "ev = [Opened (a_fd (A retry)), Closed (a_fd (A retry))]" using 2 by simp_all
      then show ?thesis using fresh by simp
    next
      case connected
      have "r = a_fd (A retry)" "ev = [Opened (a_fd (A retry))]"
        using 2 [unfolded if_not_P [OF connected(1)] if_not_P [OF connected(2)] if_P [OF connected(3)]] by auto
      then show ?thesis using connected(1) by simp
    next
      case again
      have "fds_after S ev' = (if r' = - 1 then S else insert r' S) \<and> (r' \<noteq> - 1 \<longrightarrow> closes_own S ev')"
        using 1(1) [OF _ refl again _ _ n] True 1(2) by simp
      moreover have "r = r'" "ev = Opened (a_fd (A retry)) # Closed (a_fd (A retry)) # ev'"
        using 2 [unfolded if_not_P [OF again(1)] if_not_P [OF again(2)] if_not_P [OF again(3)]] by auto
      ultimately show ?thesis using fresh by simp
    qed
  next
    case False
    then show ?thesis using 1(3,4) connect_spent [of retry A addr sock] by auto
  qed
qed

text \<open>C30: \<open>tcp_connect\<close> leaves no descriptor open but the one it returns, and when it returns one it has closed only descriptors
  of its own: whatever the system answers, for new descriptors that nothing else uses.\<close>

theorem tcp_connect_descriptors:
  assumes "\<And>i. a_fd (A i) \<notin> S" "tcp_connect names A addr = (r, ev)"
  shows "fds_after S ev = (if r = - 1 then S else insert r S) \<and> (r \<noteq> - 1 \<longrightarrow> closes_own S ev)"
proof (cases "resolve names 0 5")
  case True
  then have "connect_loop A addr (Suc 0) (a_fd (A 0)) = (r, ev)"
    using assms(2) by (simp add: tcp_connect_def first_attempt [of A addr "a_fd (A 0)" "- 1"])
  with assms(1,1) show ?thesis by (rule connect_loop_fds)
qed (use assms(2) in \<open>simp add: tcp_connect_def\<close>)

theorem tcp_connect_descriptors_witness:
  "\<exists>ev. tcp_connect (\<lambda>_. Some ''h'') (\<lambda>i. \<lparr>a_fd = 7, a_bound = True, a_select = (if i = 1 then 0 else 1), a_error = 0\<rparr>) ''10.0.0.2''
     = (7, ev) \<and> fds_after {0, 1, 2} ev = {0, 1, 2, 7}"
proof -
  let ?A = "\<lambda>i::nat. \<lparr>a_fd = 7, a_bound = True, a_select = (if i = 1 then 0 else 1), a_error = 0\<rparr>"
  have "resolve (\<lambda>_. Some ''h'') 0 5" by (simp add: eval_nat_numeral)
  then obtain ev where ev: "tcp_connect (\<lambda>_. Some ''h'') ?A ''10.0.0.2'' = (7, ev)"
    by (simp add: tcp_connect_def connect_attempt MAX_RETRY_def)
  have "a_fd (?A i) \<notin> {0, 1, 2}" for i by simp
  from tcp_connect_descriptors [OF this ev] ev show ?thesis by auto
qed

lemma connect_loop_spent:
  assumes "\<And>i. a_fd (A i) \<noteq> - 1" "\<And>i. a_fd (A i) \<notin> S" "addr = [] \<or> (\<forall>i. a_bound (A i))"
    and "\<And>i. a_select (A i) \<noteq> 1 \<or> a_error (A i) \<noteq> 0" "sock \<notin> S"
  shows "\<exists>ev. connect_loop A addr retry sock = (- 1, ev) \<and> \<not> closes_own S ev"
  using assms
proof (induction A addr retry sock rule: connect_loop.induct)
  case (1 A addr retry sock)
  show ?case
  proof (cases "retry \<le> MAX_RETRY")
    case False
    then show ?thesis using 1(6) by (simp add: connect_spent)
  next
    case True
    have own: "insert (a_fd (A retry)) S - {a_fd (A retry)} = S" using 1(3) by auto
    have go: "a_fd (A retry) \<noteq> - 1" "\<not> (addr \<noteq> [] \<and> \<not> a_bound (A retry))" "\<not> (a_select (A retry) = 1 \<and> a_error (A retry) = 0)"
      using 1(2,4,5) by auto
    obtain ev where "connect_loop A addr (Suc retry) (a_fd (A retry)) = (- 1, ev)" "\<not> closes_own S ev"
      using 1(1) [OF _ refl go] True 1(2-5) by auto
    then show ?thesis using go own by (simp add: connect_attempt [OF True])
  qed
qed

text \<open>C31: when all attempts to connect fail, the last descriptor is closed twice: the second time it may be one that another
  thread has opened in the meantime.\<close>

theorem tcp_connect_double_close:
  assumes "resolve names 0 5" "\<And>i. a_fd (A i) \<noteq> - 1" "\<And>i. a_fd (A i) \<notin> S" "addr = [] \<or> (\<forall>i. a_bound (A i))"
    and "\<And>i. a_select (A i) \<noteq> 1 \<or> a_error (A i) \<noteq> 0"
  shows "\<exists>ev. tcp_connect names A addr = (- 1, ev) \<and> \<not> closes_own S ev"
  using connect_loop_spent [OF assms(2-5) assms(3) [of 0], of "Suc 0"] assms(1)
  by (simp add: tcp_connect_def first_attempt [of A addr "- 1" "a_fd (A 0)"])

theorem tcp_connect_double_close_witness:
  "\<exists>ev. tcp_connect (\<lambda>_. Some ''h'') (\<lambda>_. \<lparr>a_fd = 7, a_bound = True, a_select = 0, a_error = 0\<rparr>) [] = (- 1, ev)
     \<and> \<not> closes_own {0, 1, 2} ev"
  by (rule tcp_connect_double_close) (simp_all add: eval_nat_numeral)

section \<open>The threads of the server\<close>

text \<open>No connection is accepted, and no \<open>accept\<close> fails, while a thread has still to start.\<close>

definition lockstep :: "bool \<Rightarrow> listener \<Rightarrow> listener \<Rightarrow> bool" where
  "lockstep once s t \<longleftrightarrow> accept_step once s t \<and> (0 < waiting s \<longrightarrow> waiting t < waiting s)"

definition in_turn :: "listener \<Rightarrow> bool" where
  "in_turn s \<longleftrightarrow> (if waiting s = 0 then accepted s = served s
     else waiting s = 1 \<and> accepted s = served s @ [client_sock s])"

interpretation server_threads: machine start_listening "lockstep once" in_turn for once
proof
  show "in_turn s" if "start_listening s" for s using that by (simp add: start_listening_def in_turn_def)
  show "in_turn t" if "lockstep once s t" "in_turn s" for s t
    using that by (auto simp: lockstep_def in_turn_def elim!: accept_stepE split: if_splits)
qed

text \<open>as long as each thread starts before the next connection comes, every connection is served by one thread, in
  their order.\<close>

theorem connections_served_in_turn:
  assumes "reach start_listening (lockstep once) s" "waiting s = 0"
  shows "served s = accepted s"
  using server_threads.reach_inv [OF assms(1)] assms(2) by (simp add: in_turn_def)

lemma two_in_turn:
  "reach start_listening (lockstep once) \<lparr>listening = True, client_sock = 5, waiting = 0, accepted = [4, 5], served = [4, 5]\<rparr>"
proof -
  let ?s = "\<lambda>c w a v. \<lparr>listening = True, client_sock = c, waiting = w, accepted = a, served = v\<rparr>"
  let ?R = "reach start_listening (lockstep once)"
  have a: "lockstep once (?s c 0 a v) (?s fd 1 (a @ [fd]) v)" if "0 \<le> fd" for c a v fd
    using accept_step.accept [of "?s c 0 a v" fd once] that by (simp add: lockstep_def)
  have t: "lockstep once (?s c 1 a v) (?s c 0 a (v @ [c]))" for c a v
    using accept_step.thread_starts [of "?s c 1 a v" once] by (simp add: lockstep_def)
  have "?R (?s (- 1) 0 [] [])" by (rule reach.start) (simp add: start_listening_def)
  then have "?R (?s 4 1 [4] [])" using a [of 4 "- 1" "[]" "[]"] by (auto intro: reach.step)
  then have "?R (?s 4 0 [4] [4])" using t [of 4 "[4]" "[]"] by (auto intro: reach.step)
  then have "?R (?s 5 1 [4, 5] [4])" using a [of 5 4 "[4]" "[4]"] by (auto intro: reach.step)
  then show ?thesis using t [of 5 "[4, 5]" "[4]"] by (auto intro: reach.step)
qed

theorem connections_served_in_turn_witness:
  "served \<lparr>listening = True, client_sock = 5, waiting = 0, accepted = [4, 5], served = [4, 5]\<rparr> = [4, 5]"
  using connections_served_in_turn [OF two_in_turn] by simp

text \<open>C32: two connections that come before the first thread starts: both threads work on the second, and the first is never
  served.\<close>

theorem accept_race:
  assumes "0 \<le> a" "0 \<le> b"
  shows "\<exists>s. reach start_listening (accept_step once) s \<and> accepted s = [a, b] \<and> served s = [b, b] \<and> waiting s = 0"
proof -
  let ?s = "\<lambda>c w x v. \<lparr>listening = True, client_sock = c, waiting = w, accepted = x, served = v\<rparr>"
  let ?R = "reach start_listening (accept_step once)"
  have acc: "accept_step once (?s c w x v) (?s fd (Suc w) (x @ [fd]) v)" if "0 \<le> fd" for c w x v fd
    using accept_step.accept [of "?s c w x v" fd once] that by simp
  have t: "accept_step once (?s c (Suc w) x v) (?s c w x (v @ [c]))" for c w x v
    using accept_step.thread_starts [of "?s c (Suc w) x v" once] by simp
  have "?R (?s (- 1) 0 [] [])" by (rule reach.start) (simp add: start_listening_def)
  from reach.step [OF reach.step [OF reach.step [OF reach.step [OF this acc [OF assms(1)]] acc [OF assms(2)]] t] t]
  show ?thesis by (intro exI conjI) (assumption | simp)+
qed

theorem accept_race_witness:
  "\<exists>s. reach start_listening (accept_step True) s \<and> accepted s = [4, 5] \<and> served s = [5, 5] \<and> waiting s = 0"
  by (rule accept_race) simp_all

end
