(* ===== verification/Monitor.thy ===== *)
theory Monitor
  imports Types
begin

text \<open>
  The monitoring threads (\<^verbatim>\<open>periodic_tasks.c\<close>): the playback position and the interruptions of the video, from the
  frame counter of the player, and the logs of the goodput. A turn of a thread is a function of what it
  samples; a line of a log is the numbers in it.
\<close>

section \<open>The position of the player\<close>

text \<open>
  The file that two processes share: its size, 0 or that of the number, and the number in it. A mapping is of the file's pages, so a reader sees
  what a writer stores. Mapping nothing fails, and a failed mapping is an address that nothing is at.
\<close>

record pos_file =
  pf_size :: nat
  pf_value :: dbl

datatype mapping = Mapped | MapFailed

definition DOUBLE_SIZE :: nat where "DOUBLE_SIZE = 8"

text \<open>
  The writer: the file is created or emptied, mapped, and given the size of the number by writing it, which also
  is stored through the mapping; the arguments are the answers of \<open>open\<close>, \<open>mmap\<close> and \<open>write\<close>.
\<close>

definition open_cur_player_pos_file :: "bool \<Rightarrow> bool \<Rightarrow> bool \<Rightarrow> dbl \<Rightarrow> pos_file option \<Rightarrow> mapping \<times> pos_file option" where
  "open_cur_player_pos_file open_ok mmap_ok write_ok x file =
     (if \<not> open_ok then (MapFailed, file)
      else if \<not> mmap_ok then (MapFailed, Some \<lparr>pf_size = 0, pf_value = 0\<rparr>)
      else if \<not> write_ok then (Mapped, Some \<lparr>pf_size = 0, pf_value = 0\<rparr>)
      else (Mapped, Some \<lparr>pf_size = DOUBLE_SIZE, pf_value = x\<rparr>))"

text \<open>A store past the end of the file, or without a mapping, ends the process with a signal.\<close>

definition record_cur_player_pos :: "mapping \<Rightarrow> dbl \<Rightarrow> pos_file option \<Rightarrow> pos_file option res" where
  "record_cur_player_pos m x file = (case (m, file) of
      (Mapped, Some f) \<Rightarrow> if pf_size f = 0 then Inl OutOfBounds else Inr (Some (f\<lparr>pf_value := x\<rparr>))
    | _ \<Rightarrow> Inl NullDeref)"

text \<open>The reader maps as many bytes as the file has when it is opened.\<close>

definition open_cur_player_pos :: "pos_file option \<Rightarrow> mapping" where
  "open_cur_player_pos file = (case file of
      None \<Rightarrow> MapFailed
    | Some f \<Rightarrow> if pf_size f = 0 then MapFailed else Mapped)"

definition read_cur_player_pos :: "mapping \<Rightarrow> pos_file option \<Rightarrow> dbl res" where
  "read_cur_player_pos m file = (case (m, file) of
      (Mapped, Some f) \<Rightarrow> if pf_size f = 0 then Inl OutOfBounds else Inr (pf_value f)
    | _ \<Rightarrow> Inl NullDeref)"

section \<open>Playback (\<open>log_fps\<close>)\<close>

definition BASE_TIMING_INTERVAL :: int where "BASE_TIMING_INTERVAL = 50000"
definition LOG_FPS_MULTIPLIER :: int where "LOG_FPS_MULTIPLIER = 1"
definition LOW_FPS_THRESHOLD :: int where "LOW_FPS_THRESHOLD = 0"
definition MODE_LOG_FPS :: int where "MODE_LOG_FPS = 1"

text \<open>The global \<open>gb\<close> as the thread sees it: a download, one with \<open>finish\<close> set, none any more.\<close>

datatype gb_life = Downloading | Finished | Gone

text \<open>
  A sample: \<open>gb\<close> at the test of the loop; and after the wait the answer of \<open>get_num_vframe_decoded\<close> (\<open>None\<close> a failure,
  \<open>Some None\<close> the number unchanged), the clock and \<open>gb\<close>.
\<close>

record fps_sample =
  at_test :: gb_life
  decoded :: "int option option"
  sampled_at :: dbl
  life :: gb_life

record fps_state =
  num_vframe_decoded :: int
  last_num_vframe_decoded :: int
  last_recorded_time :: dbl
  start_playback_time :: dbl
  video_int_time :: dbl
  video_int_time_added_at_tail :: dbl
  cur_player_pos :: dbl
  stop_after_transferring :: bool
  pos_map :: mapping
  shared_pos :: "pos_file option"
  fps_rows :: "(dbl \<times> dbl \<times> int) list"

definition fps_begin :: "mapping \<times> pos_file option \<Rightarrow> fps_state" where
  "fps_begin = (\<lambda>(m, file). \<lparr>num_vframe_decoded = 0, last_num_vframe_decoded = 0, last_recorded_time = 0,
     start_playback_time = 0, video_int_time = 0, video_int_time_added_at_tail = 0, cur_player_pos = 0,
     stop_after_transferring = False, pos_map = m, shared_pos = file, fps_rows = []\<rparr>)"

definition fps_sampling_interval :: dbl where
  "fps_sampling_interval = of_ll (BASE_TIMING_INTERVAL * LOG_FPS_MULTIPLIER) / Fin 1000000"

text \<open>
  The accounts of a sample with the rate \<open>fps\<close>, once the playback has started and while the download is on; a new position is
  shown to the other process.
\<close>

definition account_fps :: "dbl \<Rightarrow> fps_state \<Rightarrow> fps_state res" where
  "account_fps fps s =
     (if fps \<le> of_ll LOW_FPS_THRESHOLD
      then Inr (s\<lparr>video_int_time := video_int_time s + fps_sampling_interval,
             video_int_time_added_at_tail := video_int_time_added_at_tail s + fps_sampling_interval\<rparr>)
      else let pos = cur_player_pos s + fps_sampling_interval in
        bindR (record_cur_player_pos (pos_map s) pos (shared_pos s)) (\<lambda>file.
          Inr (s\<lparr>cur_player_pos := pos, shared_pos := file\<rparr>)))"

definition fps_turn :: "int \<Rightarrow> dbl \<Rightarrow> fps_sample \<Rightarrow> fps_state \<Rightarrow> fps_state res" where
  "fps_turn mode gb_start x s =
     (case decoded x of
        None \<Rightarrow> bindR (guardR NullDeref (life x \<noteq> Gone)) (\<lambda>_. Inr s)
      | Some d \<Rightarrow>
          (let num = (case d of None \<Rightarrow> num_vframe_decoded s | Some n \<Rightarrow> n);
               now = sampled_at x;
               fps = of_ll (num - last_num_vframe_decoded s) / (now - last_recorded_time s);
               begins = (0 < fps \<and> dbl_eq (start_playback_time s) 0);
               s1 = (if begins then s\<lparr>start_playback_time := now\<rparr> else s)
           in bindR (guardR NullDeref (life x \<noteq> Gone \<or> \<not> begins \<and> mode \<noteq> MODE_LOG_FPS)) (\<lambda>_.
              bindR (if life x = Downloading \<and> 0 < start_playback_time s1 then account_fps fps s1 else Inr s1) (\<lambda>s2.
              let s3 = (if life x = Downloading \<and> of_ll LOW_FPS_THRESHOLD < fps
                        then s2\<lparr>video_int_time_added_at_tail := 0\<rparr> else s2)
              in Inr (s3\<lparr>num_vframe_decoded := num, last_recorded_time := now, last_num_vframe_decoded := num,
                fps_rows := (if mode = MODE_LOG_FPS then fps_rows s3 @ [(now - gb_start, fps, num)] else fps_rows s3),
                stop_after_transferring := (stop_after_transferring s3 \<or> life x = Finished \<and> dbl_eq fps 0)\<rparr>)))))"

text \<open>
  The loop over what is sampled; it is left at a test, and only there: \<open>None\<close> when it is still going on after these
  samples.
\<close>

fun log_fps_loop :: "int \<Rightarrow> dbl \<Rightarrow> fps_sample list \<Rightarrow> fps_state \<Rightarrow> fps_state option res" where
  "log_fps_loop mode gb_start [] s = Inr None"
| "log_fps_loop mode gb_start (x # xs) s =
     (if at_test x = Downloading \<or> \<not> stop_after_transferring s
      then bindR (fps_turn mode gb_start x s) (log_fps_loop mode gb_start xs) else Inr (Some s))"

text \<open>
  What the thread reports: when the playback started and how long it was interrupted. \<open>answers\<close> is what the system answers for the
  file of the position; \<open>log_ok\<close>: the log can be opened. \<open>None\<close>: it reports nothing, for want of its log or because it
  has not ended.
\<close>

definition log_fps :: "int \<Rightarrow> bool \<times> bool \<times> bool \<Rightarrow> pos_file option \<Rightarrow> bool \<Rightarrow> dbl \<Rightarrow> fps_sample list \<Rightarrow> dbl \<Rightarrow>
    (dbl \<times> dbl \<times> fps_state) option res" where
  "log_fps mode answers file log_ok gb_start xs now =
     (let m = (if mode \<noteq> 0 then mode else MODE_LOG_FPS);
          s0 = fps_begin (case answers of (open_ok, mmap_ok, write_ok) \<Rightarrow> open_cur_player_pos_file open_ok mmap_ok write_ok 0 file)
      in if m = MODE_LOG_FPS \<and> \<not> log_ok then Inr None
         else bindR (log_fps_loop m gb_start xs s0) (\<lambda>r. Inr (map_option (\<lambda>s.
           (if dbl_eq (start_playback_time s) 0 then now else start_playback_time s,
            video_int_time s - video_int_time_added_at_tail s, s)) r)))"

section \<open>Goodput (\<open>log_goodput\<close>, \<open>log_goodput_to_client\<close>)\<close>

text \<open>Per connection: whether it is enabled and its \<open>bytes_done\<close>. The state is the last time and counts.\<close>

definition goodput_turn :: "link list \<Rightarrow> dbl \<times> (link \<Rightarrow> bool) \<times> (link \<Rightarrow> int) \<Rightarrow> dbl \<times> (link \<Rightarrow> int) \<Rightarrow>
    (dbl \<times> (link \<Rightarrow> dbl option)) \<times> (dbl \<times> (link \<Rightarrow> int))" where
  "goodput_turn ks = (\<lambda>(now, on, done) (t, prev).
     ((now, \<lambda>k. if k \<in> set ks \<and> on k
                then Some (of_ll (done k - prev k) / (now - t) * Fin 8 / Fin 1000000) else None),
      (now, \<lambda>k. if k \<in> set ks \<and> on k then done k else prev k)))"

fun log_goodput :: "link list \<Rightarrow> (dbl \<times> (link \<Rightarrow> bool) \<times> (link \<Rightarrow> int)) list \<Rightarrow> dbl \<times> (link \<Rightarrow> int) \<Rightarrow>
    (dbl \<times> (link \<Rightarrow> dbl option)) list" where
  "log_goodput ks [] st = []"
| "log_goodput ks (x # xs) st =
     (let (row, st') = goodput_turn ks x st in row # log_goodput ks xs st')"

text \<open>
  The bytes sent to the player: the clock is read once for the line and once more for the next interval;
  \<open>first\<close> is the count at the start of the thread.
\<close>

fun log_goodput_to_client :: "int \<Rightarrow> (dbl \<times> int \<times> dbl) list \<Rightarrow> dbl \<times> int \<Rightarrow> (dbl \<times> dbl \<times> int) list" where
  "log_goodput_to_client first [] st = []"
| "log_goodput_to_client first ((now, sent, later) # xs) (t, prev) =
     (now, of_ll (sent - prev) / (now - t) * Fin 8 / Fin 1000000, sent - first)
       # log_goodput_to_client first xs (later, sent)"

text \<open>\<open>measure_rtt\<close>: the round-trip time and its deviation in milliseconds, from the kernel's microseconds.\<close>

definition rtt_row :: "link list \<Rightarrow> (link \<Rightarrow> bool) \<Rightarrow> (link \<Rightarrow> int) \<Rightarrow> (int \<Rightarrow> (int \<times> int) option) \<Rightarrow> (dbl \<times> dbl) option list" where
  "rtt_row ks on fd tcp_info =
     concat (map (\<lambda>k. if on k \<and> fd k \<noteq> 0
                      then (case tcp_info (fd k) of
                              Some (rtt, var) \<Rightarrow> [Some (of_ll rtt / Fin 1000, of_ll var / Fin 1000)]
                            | None \<Rightarrow> [])
                      else [None]) ks)"

section \<open>The threads\<close>

text \<open>
  In this configuration \<open>start_periodic_tasks\<close> only creates the thread that signals the others, none of which is
  started, and \<open>join_periodic_tasks\<close> has nothing to wait for.
\<close>

definition start_periodic_tasks :: "int \<Rightarrow> int" where
  "start_periodic_tasks err_num = (if err_num \<noteq> 0 then - 1 else 0)"

end
