(* ===== verification/Monitor_Theorems.thy ===== *)
theory Monitor_Theorems
  imports Monitor
begin

text \<open>
  The properties of the monitoring threads: how the playback position and the reported interruption follow from
  the frame counts, and that the goodputs of the log add up to the bytes received.
\<close>

section \<open>Playback\<close>

text \<open>Samples of a download that goes on, and of one that is over while \<open>gb\<close> is still there: the frame count and the time.\<close>

definition watching :: "(int \<times> rat) list \<Rightarrow> fps_sample list" where
  "watching = map (\<lambda>(n, t). \<lparr>at_test = Downloading, decoded = Some (Some n), sampled_at = Fin t, life = Downloading\<rparr>)"





definition stalls_at_end :: "bool list \<Rightarrow> nat" where
  "stalls_at_end bs = length (takeWhile Not (rev bs))"



definition final_count :: "(int \<times> rat) list \<Rightarrow> int" where
  "final_count xs = (if xs = [] then 0 else fst (List.last xs))"

definition final_time :: "(int \<times> rat) list \<Rightarrow> rat" where
  "final_time xs = (if xs = [] then 0 else snd (List.last xs))"

lemma final_snoc [simp]: "final_count (xs @ [(n, t)]) = n" "final_time (xs @ [(n, t)]) = t"
  by (simp_all add: final_count_def final_time_def)








lemma stalls_at_end_simps [simp]:
  "stalls_at_end [] = 0" "stalls_at_end (bs @ [True]) = 0" "stalls_at_end (bs @ [False]) = Suc (stalls_at_end bs)"
  by (simp_all add: stalls_at_end_def)















text \<open>Without the mapping the first position that is recorded ends the program, although the thread has only warned.\<close>

theorem unmapped_position_faults:
  assumes "log_ok" and "0 < t"
  shows "log_fps mode (True, False, True) file log_ok g (watching ((1, t) # xs)) now = Inl NullDeref"
  using assms by (simp add: log_fps_def Let_def watching_def fps_begin_def open_cur_player_pos_file_def fps_turn_def
      account_fps_def record_cur_player_pos_def of_ll_def LOW_FPS_THRESHOLD_def dbl_eq_def)

theorem unmapped_position_faults_witness:
  "log_fps 1 (True, False, True) None True (Fin 0) (watching [(1, 1)]) 0 = Inl NullDeref"
  by (rule unmapped_position_faults) simp_all

section \<open>Goodput\<close>

text \<open>The megabits that the rows of the log stand for: rate times time, added up.\<close>

fun megabits :: "rat \<Rightarrow> (dbl \<times> (link \<Rightarrow> dbl option)) list \<Rightarrow> link \<Rightarrow> rat" where
  "megabits t ((Fin u, rate) # rows) k = (case rate k of Some (Fin r) \<Rightarrow> r * (u - t) | _ \<Rightarrow> 0) + megabits u rows k"
| "megabits t _ k = 0"

abbreviation timed :: "(rat \<times> (link \<Rightarrow> bool) \<times> (link \<Rightarrow> int)) list \<Rightarrow> (dbl \<times> (link \<Rightarrow> bool) \<times> (link \<Rightarrow> int)) list" where
  "timed \<equiv> map (\<lambda>(t, x). (Fin t, x))"

lemma rate_times_time: "d \<noteq> 0 \<Longrightarrow> a / d * 8 / 1000000 * d = a * 8 / 1000000" for a d :: rat
  by (simp add: field_simps)

lemma megabits_log:
  assumes "sorted_wrt (<) (t # map fst xs)" "k \<in> set ks" "\<forall>(_, on, _) \<in> set xs. on k"
  shows "megabits t (log_goodput ks (timed xs) (Fin t, prev)) k
    = of_int ((if xs = [] then prev k else snd (snd (List.last xs)) k) - prev k) * 8 / 1000000"
  using assms
proof (induction xs arbitrary: t prev)
  case (Cons x xs)
  obtain u on count where x: "x = (u, on, count)" by (cases x) auto
  have u: "t < u" "on k" using Cons.prems x by simp_all
  have "megabits u (log_goodput ks (timed xs) (Fin u, \<lambda>k. if k \<in> set ks \<and> on k then count k else prev k)) k
    = of_int ((if xs = [] then count k else snd (snd (List.last xs)) k) - count k) * 8 / 1000000"
    using Cons.IH [of u "\<lambda>k. if k \<in> set ks \<and> on k then count k else prev k"] Cons.prems u by (simp add: x)
  moreover have "of_int (count k - prev k) / (u - t) * 8 / 1000000 * (u - t) = of_int (count k - prev k) * 8 / (1000000 :: rat)"
    by (rule rate_times_time) (use u in simp)
  ultimately show ?case using u Cons.prems(2)
    by (simp add: x goodput_turn_def of_ll_def add_divide_distrib [symmetric] distrib_right [symmetric])
qed simp

text \<open>the rates that the log shows for an enabled connection, each times the time since the line before, add up to
  the bytes that the connection has received.\<close>

theorem goodput_log_adds_up:
  assumes "sorted_wrt (<) (0 # map fst xs)" "k \<in> set ks" "\<forall>(_, on, _) \<in> set xs. on k" "xs \<noteq> []"
  shows "megabits 0 (log_goodput ks (map (\<lambda>(t, x). (Fin t, x)) xs) (0, \<lambda>_. 0)) k
    = of_int (snd (snd (List.last xs)) k) * 8 / 1000000"
  using megabits_log [OF assms(1-3), of "\<lambda>_. 0"] assms(4) by simp

theorem goodput_log_adds_up_witness:
  "megabits 0 (log_goodput [LTE, WIFI] (map (\<lambda>(t, x). (Fin t, x)) [(1, \<lambda>_. True, \<lambda>_. 1000), (3, \<lambda>_. True, \<lambda>_. 125000)])
     (0, \<lambda>_. 0)) WIFI = 1"
  by (subst goodput_log_adds_up) simp_all

end
