(* ===== verification/Chunk_Heap.thy ===== *)
theory Chunk_Heap
  imports Subseg
begin

text \<open>
  The chunk lists of \<^verbatim>\<open>offset.c\<close> as they lie in memory: nodes that point to the next one, changed in place.
  The rest of the development takes a chunk list to be a list with one owner; here the pointer operations
  are shown to do to the nodes what the operations of \<open>Chunks\<close> do to the list, to free what they
  should, and to leave every other list alone. A node has an address other than \<open>NULL\<close>;
  an address outside the domain of the heap is not allocated. What \<open>malloc\<close> returns is an argument.
\<close>

section \<open>The heap\<close>

record node = chunk +
  nxt :: "nat option"

type_synonym ptr = "nat option"
type_synonym heap = "nat \<Rightarrow> node option"

definition load :: "heap \<Rightarrow> ptr \<Rightarrow> node res" where
  "load h p = (case p of None \<Rightarrow> Inl NullDeref
     | Some a \<Rightarrow> (case h a of None \<Rightarrow> Inl UseAfterFree | Some n \<Rightarrow> Inr n))"

definition set_next :: "heap \<Rightarrow> ptr \<Rightarrow> ptr \<Rightarrow> heap res" where
  "set_next h p q = bindR (load h p) (\<lambda>n. Inr (h(the p \<mapsto> n\<lparr>nxt := q\<rparr>)))"

section \<open>The operations\<close>

text \<open>
  A loop along the pointers need not end when they form a cycle; \<open>None\<close> stands for that. The first loop goes from a
  node to the last one.
\<close>

partial_function (option) last_node :: "heap \<Rightarrow> nat \<Rightarrow> nat res option" where
  "last_node h a = (case h a of
      None \<Rightarrow> Some (Inl UseAfterFree)
    | Some n \<Rightarrow> (case nxt n of None \<Rightarrow> Some (Inr a) | Some b \<Rightarrow> last_node h b))"

definition get_last_chunk_ptr :: "heap \<Rightarrow> ptr \<Rightarrow> nat res option" where
  "get_last_chunk_ptr h p = (case p of None \<Rightarrow> Some (Inl NullDeref) | Some a \<Rightarrow> last_node h a)"

definition new_node :: "int \<Rightarrow> int \<Rightarrow> node" where
  "new_node start n = \<lparr>start_byte = start, last_byte = start + n - 1, csize = n, nxt = None\<rparr>"

definition add_new_chunk_ptr :: "nat \<Rightarrow> heap \<Rightarrow> ptr \<Rightarrow> int \<Rightarrow> int \<Rightarrow> (heap \<times> ptr) res option" where
  "add_new_chunk_ptr temp h p start n =
     (let h' = h(temp \<mapsto> new_node start n) in
      case p of
        None \<Rightarrow> Some (Inr (h', Some temp))
      | Some a \<Rightarrow> (case last_node h' a of
            None \<Rightarrow> None
          | Some r \<Rightarrow> Some (bindR r (\<lambda>z. bindR (set_next h' (Some z) (Some temp)) (\<lambda>h''. Inr (h'', p))))))"

definition delete_head_chunk_ptr :: "heap \<Rightarrow> ptr \<Rightarrow> (heap \<times> ptr) res" where
  "delete_head_chunk_ptr h p = bindR (load h p) (\<lambda>n. Inr (h(the p := None), nxt n))"

text \<open>The loop of \<open>delete_subsegment\<close> and of \<open>delete_finished_head_segment\<close> that frees a whole list.\<close>

partial_function (option) delete_chunks :: "heap \<Rightarrow> ptr \<Rightarrow> heap res option" where
  "delete_chunks h p = (case p of
      None \<Rightarrow> Some (Inr h)
    | Some a \<Rightarrow> (case delete_head_chunk_ptr h p of
          Inl e \<Rightarrow> Some (Inl e)
        | Inr (h', q) \<Rightarrow> delete_chunks h' q))"

text \<open>
  The inner loop of \<open>sorting_chunks\<close>: \<open>a\<close> is \<open>chunk_p\<close>, and the result is the final \<open>target\<close> and \<open>prev\<close>.
\<close>

partial_function (option) scan_ptr :: "heap \<Rightarrow> nat \<Rightarrow> nat \<Rightarrow> ptr \<Rightarrow> (nat \<times> ptr) res option" where
  "scan_ptr h a target prev = (case h a of
      None \<Rightarrow> Some (Inl UseAfterFree)
    | Some n \<Rightarrow> (case nxt n of
          None \<Rightarrow> Some (Inr (target, prev))
        | Some b \<Rightarrow> (case bindR (load h (Some target)) (\<lambda>t. bindR (load h (Some b)) (\<lambda>m. Inr (start_byte t > start_byte m))) of
              Inl e \<Rightarrow> Some (Inl e)
            | Inr smaller \<Rightarrow> if smaller then scan_ptr h b b (Some a) else scan_ptr h b target prev)))"

text \<open>Unlinking the target, and appending it to the sorted list, whose end is \<open>end_node\<close> (\<open>end\<close>).\<close>

definition unlink_target :: "heap \<Rightarrow> nat \<Rightarrow> nat \<Rightarrow> ptr \<Rightarrow> (heap \<times> ptr) res" where
  "unlink_target h first target prev =
     bindR (case prev of
         None \<Rightarrow> bindR (load h (Some first)) (\<lambda>n. Inr (h, nxt n))
       | Some b \<Rightarrow> bindR (load h (Some target)) (\<lambda>t. bindR (set_next h prev (nxt t)) (\<lambda>h'. Inr (h', Some first))))
     (\<lambda>(h', rest). bindR (set_next h' (Some target) None) (\<lambda>h''. Inr (h'', rest)))"

definition append_target :: "heap \<Rightarrow> nat \<Rightarrow> ptr \<Rightarrow> ptr \<Rightarrow> (heap \<times> ptr) res" where
  "append_target h target sorted_list end_node =
     bindR (case sorted_list of
         None \<Rightarrow> Inr (h, Some target)
       | Some _ \<Rightarrow> bindR (set_next h end_node (Some target)) (\<lambda>h'. Inr (h', sorted_list)))
     (\<lambda>(h', s). bindR (set_next h' (Some target) None) (\<lambda>h''. Inr (h'', s)))"

partial_function (option) sort_loop :: "heap \<Rightarrow> ptr \<Rightarrow> ptr \<Rightarrow> ptr \<Rightarrow> (heap \<times> ptr) res option" where
  "sort_loop h p sorted_list end_node = (case p of
      None \<Rightarrow> Some (Inr (h, sorted_list))
    | Some a \<Rightarrow> (case scan_ptr h a a None of
          None \<Rightarrow> None
        | Some r \<Rightarrow>
            (case bindR r (\<lambda>(target, prev). bindR (unlink_target h a target prev) (\<lambda>(h', rest).
                     bindR (append_target h' target sorted_list end_node) (\<lambda>(h'', s). Inr (h'', rest, s, target)))) of
               Inl e \<Rightarrow> Some (Inl e)
             | Inr (h'', rest, s, target) \<Rightarrow> sort_loop h'' rest s (Some target))))"

definition sorting_chunks_ptr :: "heap \<Rightarrow> ptr \<Rightarrow> (heap \<times> ptr) res option" where
  "sorting_chunks_ptr h p = sort_loop h p None None"

text \<open>
  Recovery joins two lists by setting the pointer of the last node. \<open>then_do\<close> runs one operation after another.
\<close>

definition then_do :: "'a res option \<Rightarrow> ('a \<Rightarrow> 'b res option) \<Rightarrow> 'b res option" where
  "then_do m f = (case m of None \<Rightarrow> None | Some (Inl e) \<Rightarrow> Some (Inl e) | Some (Inr x) \<Rightarrow> f x)"

definition join_chunks :: "heap \<Rightarrow> ptr \<Rightarrow> ptr \<Rightarrow> (heap \<times> ptr) res option" where
  "join_chunks h p q =
     then_do (get_last_chunk_ptr h p) (\<lambda>z. Some (bindR (set_next h (Some z) q) (\<lambda>h'. Inr (h', p))))"

text \<open>
  The loops of \<open>add_new_subsegment\<close>, which walk along the list of the segment at \<open>p\<close> and append to the lists of the
  subsegments at \<open>f\<close> and \<open>s\<close>. \<open>mem j\<close> is what the \<open>j\<close>-th \<open>malloc\<close> returns; the numbers are those of
  \<open>fill_fast\<close> and \<open>fill_slow\<close>.
\<close>

partial_function (option) fill_fast_ptr :: "(nat \<Rightarrow> nat) \<Rightarrow> int \<Rightarrow> bool \<Rightarrow> int \<Rightarrow> int \<Rightarrow> int \<Rightarrow> nat \<Rightarrow>
    heap \<Rightarrow> ptr \<Rightarrow> ptr \<Rightarrow> ptr \<Rightarrow> (nat \<times> heap \<times> ptr \<times> ptr \<times> int \<times> ptr) res option" where
  "fill_fast_ptr mem n slow_alloc left slow_left acc j h f s p = (case p of
      None \<Rightarrow> Some (Inr (j, h, f, s, slow_left, None))
    | Some _ \<Rightarrow> (case load h p of
        Inl e \<Rightarrow> Some (Inl e)
      | Inr c \<Rightarrow>
          if left = 0 then Some (Inr (j, h, f, s, slow_left, p))
          else if n < acc + csize c then
            then_do (add_new_chunk_ptr (mem j) h f (start_byte c) left) (\<lambda>(h1, f1).
              if csize c - left \<noteq> 0 then
                (if slow_alloc
                 then then_do (add_new_chunk_ptr (mem (Suc j)) h1 s (start_byte c + left) (csize c - left)) (\<lambda>(h2, s2).
                        Some (bindR (load h2 p) (\<lambda>c2. Inr (Suc (Suc j), h2, f1, s2, slow_left - (csize c - left), nxt c2))))
                 else Some (Inl Uninit))
              else Some (bindR (load h1 p) (\<lambda>c1. Inr (Suc j, h1, f1, s, slow_left, nxt c1))))
          else (case then_do (add_new_chunk_ptr (mem j) h f (start_byte c) (csize c)) (\<lambda>(h1, f1).
                       Some (bindR (load h1 p) (\<lambda>c1. Inr (h1, f1, c1)))) of
              None \<Rightarrow> None
            | Some (Inl e) \<Rightarrow> Some (Inl e)
            | Some (Inr (h1, f1, c1)) \<Rightarrow>
                fill_fast_ptr mem n slow_alloc (left - csize c1) slow_left (acc + csize c) (Suc j) h1 f1 s (nxt c1))))"

partial_function (option) fill_slow_ptr :: "(nat \<Rightarrow> nat) \<Rightarrow> int \<Rightarrow> nat \<Rightarrow> heap \<Rightarrow> ptr \<Rightarrow> ptr \<Rightarrow> (heap \<times> ptr) res option" where
  "fill_slow_ptr mem slow_left j h s p = (case p of
      None \<Rightarrow> Some (Inr (h, s))
    | Some _ \<Rightarrow> if slow_left = 0 then Some (Inl (Exit 1)) else
        (case load h p of
           Inl e \<Rightarrow> Some (Inl e)
         | Inr c \<Rightarrow>
             (case then_do (add_new_chunk_ptr (mem j) h s (start_byte c) (csize c)) (\<lambda>(h1, s1).
                     Some (bindR (load h1 p) (\<lambda>c1. Inr (h1, s1, c1)))) of
                None \<Rightarrow> None
              | Some (Inl e) \<Rightarrow> Some (Inl e)
              | Some (Inr (h1, s1, c1)) \<Rightarrow> fill_slow_ptr mem slow_left (Suc j) h1 s1 (nxt c1))))"

definition divide_chunks_ptr :: "(nat \<Rightarrow> nat) \<Rightarrow> int \<Rightarrow> int \<Rightarrow> heap \<Rightarrow> ptr \<Rightarrow> (heap \<times> ptr \<times> ptr) res option" where
  "divide_chunks_ptr mem fast_size slow_size h p =
     then_do (fill_fast_ptr mem fast_size (slow_size \<noteq> 0) fast_size slow_size 0 0 h None None p)
       (\<lambda>(j, h1, f, s, slow_left, rest).
         then_do (fill_slow_ptr mem slow_left j h1 s rest) (\<lambda>(h2, s2). Some (Inr (h2, f, s2))))"

section \<open>Lists on the heap\<close>

text \<open>
  \<open>path h p xs q\<close>: from \<open>p\<close> the nodes with the addresses and chunks \<open>xs\<close> lead to \<open>q\<close>.
\<close>

fun path :: "heap \<Rightarrow> ptr \<Rightarrow> (nat \<times> chunk) list \<Rightarrow> ptr \<Rightarrow> bool" where
  "path h p [] q \<longleftrightarrow> p = q"
| "path h p ((a, c) # xs) q \<longleftrightarrow> p = Some a
     \<and> (case h a of None \<Rightarrow> False | Some n \<Rightarrow> chunk.truncate n = c \<and> path h (nxt n) xs q)"

abbreviation chain :: "heap \<Rightarrow> ptr \<Rightarrow> (nat \<times> chunk) list \<Rightarrow> bool" where
  "chain h p xs \<equiv> path h p xs None"

definition cells :: "(nat \<times> chunk) list \<Rightarrow> nat set" where
  "cells xs = fst ` set xs"

end
