(* ===== verification/Chunk_Heap_Laws.thy ===== *)
theory Chunk_Heap_Laws
  imports Chunk_Heap
begin

text \<open>
  The operations of \<open>Chunk_Heap\<close> on lists in memory do what those of \<open>Chunks\<close> and \<open>Subseg\<close> do to the list of chunks, and
  disturb no other list. The locale \<open>list_op\<close> is the contract they share.
\<close>

section \<open>Paths\<close>

lemma cells_simps [simp]:
  "cells [] = {}" "cells (x # xs) = insert (fst x) (cells xs)" "cells (xs @ ys) = cells xs \<union> cells ys"
  by (simp_all add: cells_def image_Un)

lemma path_append: "path h p (xs @ ys) q \<longleftrightarrow> (\<exists>r. path h p xs r \<and> path h r ys q)"
  by (induction h p xs q rule: path.induct) (auto split: option.splits)

lemma path_frame: "path h p xs q \<Longrightarrow> \<forall>a \<in> cells xs. h' a = h a \<Longrightarrow> path h' p xs q"
  by (induction h p xs q rule: path.induct) (auto split: option.splits)

lemma path_upd: "a \<notin> cells xs \<Longrightarrow> path (h(a := v)) p xs q \<longleftrightarrow> path h p xs q"
  by (induction h p xs q rule: path.induct) (auto split: option.splits)

lemma path_dom: "path h p xs q \<Longrightarrow> cells xs \<subseteq> dom h"
  by (induction h p xs q rule: path.induct) (auto split: option.splits)

lemma path_Nil [simp]: "path h None xs q \<longleftrightarrow> xs = [] \<and> q = None"
  by (cases xs) auto

lemma path_ConsE:
  assumes "path h p (x # xs) q"
  obtains n where "p = Some (fst x)" "h (fst x) = Some n" "chunk.truncate n = snd x" "path h (nxt n) xs q"
proof (cases "h (fst x)")
  case (Some n)
  moreover from assms have "p = Some (fst x)" by (cases x) simp
  moreover from assms Some have "chunk.truncate n = snd x \<and> path h (nxt n) xs q" by (cases x) simp
  ultimately show thesis using that by simp
qed (use assms in \<open>cases x; simp\<close>)

lemma path_unique: "chain h p xs \<Longrightarrow> chain h p ys \<Longrightarrow> xs = ys"
proof (induction xs arbitrary: p ys)
  case (Cons x xs)
  from Cons.prems(1) obtain n where n: "p = Some (fst x)" "h (fst x) = Some n"
    "chunk.truncate n = snd x" "chain h (nxt n) xs" by (rule path_ConsE)
  from Cons.prems(2) n(1) obtain y zs where ys: "ys = y # zs" by (cases ys) simp_all
  from Cons.prems(2) [unfolded ys] obtain m where m: "p = Some (fst y)" "h (fst y) = Some m"
    "chunk.truncate m = snd y" "chain h (nxt m) zs" by (rule path_ConsE)
  from n m have "x = y" "n = m" by (auto simp: prod_eq_iff)
  with n(4) m(4) ys Cons.IH show ?case by simp
qed simp

text \<open>A list that ends in \<open>NULL\<close> has no node twice.\<close>

lemma chain_distinct: "chain h p xs \<Longrightarrow> distinct (map fst xs)"
proof (induction xs arbitrary: p)
  case (Cons x xs)
  from Cons.prems obtain n where n: "p = Some (fst x)" "h (fst x) = Some n"
    "chunk.truncate n = snd x" "chain h (nxt n) xs" by (rule path_ConsE)
  have "fst x \<notin> cells xs"
  proof
    assume "fst x \<in> cells xs"
    then obtain y ys zs where y: "xs = ys @ y # zs" "fst y = fst x" unfolding cells_def
      by (auto dest!: split_list)
    then have "chain h p (y # zs)" using n(1,4) by (cases y) (auto simp: path_append)
    with Cons.prems have "y # zs = x # xs" by (rule path_unique [THEN sym])
    with y(1) show False by simp
  qed
  with n(4) Cons.IH show ?case by (simp add: cells_def)
qed simp

definition end_of :: "(nat \<times> chunk) list \<Rightarrow> ptr" where
  "end_of xs = (if xs = [] then None else Some (fst (last xs)))"

lemma end_of_simps [simp]:
  "end_of [] = None" "end_of (xs @ [x]) = Some (fst x)" "end_of [x] = Some (fst x)"
  by (simp_all add: end_of_def)

lemma truncate_simps [simp]:
  "chunk.truncate (n\<lparr>nxt := q\<rparr>) = chunk.truncate n"
  "start_byte (chunk.truncate n) = start_byte n"
  "csize (chunk.truncate n) = csize n"
  "chunk.truncate (new_node s k) = mk_chunk s k"
  "nxt (new_node s k) = None"
  by (simp_all add: chunk.defs new_node_def mk_chunk_def)

lemma load_Some: "h a = Some n \<Longrightarrow> load h (Some a) = Inr n"
  by (simp add: load_def)

lemma set_next_Some: "h a = Some n \<Longrightarrow> set_next h (Some a) q = Inr (h(a \<mapsto> n\<lparr>nxt := q\<rparr>))"
  by (simp add: set_next_def load_def)

text \<open>A node in the middle of a list, and what becomes of the list when its pointer changes.\<close>

lemma chain_splitE:
  assumes "chain h p (xs @ y # zs)"
  obtains n where "path h p xs (Some (fst y))" "h (fst y) = Some n" "chunk.truncate n = snd y"
    "chain h (nxt n) zs" "fst y \<notin> cells xs" "fst y \<notin> cells zs" "cells xs \<inter> cells zs = {}"
proof -
  from assms obtain r where r: "path h p xs r" "chain h r (y # zs)" by (auto simp: path_append)
  from r(2) obtain n where "r = Some (fst y)" "h (fst y) = Some n" "chunk.truncate n = snd y" "chain h (nxt n) zs"
    by (rule path_ConsE)
  moreover from chain_distinct [OF assms] have "fst y \<notin> cells xs" "fst y \<notin> cells zs" "cells xs \<inter> cells zs = {}"
    by (auto simp: cells_def)
  ultimately show thesis using that r(1) by simp
qed

lemma path_snoc:
  "path h p xs (Some (fst y)) \<Longrightarrow> h (fst y) = Some n \<Longrightarrow> chunk.truncate n = snd y \<Longrightarrow> nxt n = q \<Longrightarrow> path h p (xs @ [y]) q"
  by (cases y) (auto simp: path_append)

section \<open>Adding and freeing\<close>

lemma last_node_chain: "chain h (Some a) (xs @ [z]) \<Longrightarrow> last_node h a = Some (Inr (fst z))"
proof (induction xs arbitrary: a)
  case Nil
  then obtain n where "a = fst z" "h a = Some n" "nxt n = None" by (auto elim: path_ConsE)
  then show ?case by (subst last_node.simps) simp
next
  case (Cons x xs)
  from Cons.prems obtain n where n: "a = fst x" "h a = Some n" "chain h (nxt n) (xs @ [z])"
    by (auto elim: path_ConsE)
  then obtain b where b: "nxt n = Some b" by (cases "nxt n") simp_all
  with n Cons.IH have "last_node h b = Some (Inr (fst z))" by simp
  with n b show ?case by (subst last_node.simps) simp
qed

lemma add_new_chunk_chain:
  assumes c: "chain h p xs" and t: "h temp = None"
  shows "\<exists>h' q. add_new_chunk_ptr temp h p s n = Some (Inr (h', q)) \<and> chain h' q (xs @ [(temp, mk_chunk s n)])
    \<and> (\<forall>a. a \<notin> cells xs \<longrightarrow> a \<noteq> temp \<longrightarrow> h' a = h a)"
proof (cases xs rule: rev_cases)
  case Nil
  with c show ?thesis by (simp add: add_new_chunk_ptr_def)
next
  case (snoc ys z)
  let ?h = "h(temp \<mapsto> new_node s n)"
  have nt: "temp \<notin> cells xs" using path_dom [OF c] t by auto
  then have c': "chain ?h p (ys @ z # [])" using c snoc by (simp add: path_upd)
  then obtain a where a: "p = Some a" by (cases p) simp_all
  from c' obtain m where m: "path ?h p ys (Some (fst z))" "?h (fst z) = Some m" "chunk.truncate m = snd z" "fst z \<notin> cells ys"
    by (rule chain_splitE)
  let ?k = "?h(fst z \<mapsto> m\<lparr>nxt := Some temp\<rparr>)"
  have "path ?k p (ys @ [z]) (Some temp)"
    using m by (intro path_snoc [of _ _ _ _ "m\<lparr>nxt := Some temp\<rparr>"]) (simp_all add: path_upd)
  moreover have "?k temp = Some (new_node s n)" using nt snoc by auto
  ultimately have "chain ?k p (xs @ [(temp, mk_chunk s n)])"
    using path_snoc [of ?k p xs "(temp, mk_chunk s n)" "new_node s n" None] snoc by simp
  moreover have "add_new_chunk_ptr temp h p s n = Some (Inr (?k, p))"
    using last_node_chain [of ?h a ys z] c' m(2) by (simp add: add_new_chunk_ptr_def a set_next_Some)
  ultimately show ?thesis using snoc by auto
qed

lemma delete_head_chain:
  assumes "chain h p (x # xs)"
  shows "\<exists>q. delete_head_chunk_ptr h p = Inr (h(fst x := None), q) \<and> chain (h(fst x := None)) q xs"
proof -
  have "chain h p ([] @ x # xs)" using assms by simp
  then obtain n where "path h p [] (Some (fst x))" "h (fst x) = Some n" "chain h (nxt n) xs" "fst x \<notin> cells xs"
    by (rule chain_splitE)
  then show ?thesis by (simp add: delete_head_chunk_ptr_def load_def path_upd)
qed

lemma delete_chunks_chain:
  "chain h p xs \<Longrightarrow> delete_chunks h p = Some (Inr (\<lambda>a. if a \<in> cells xs then None else h a))"
proof (induction xs arbitrary: h p)
  case Nil
  then show ?case by (subst delete_chunks.simps) simp
next
  case (Cons x xs)
  from Cons.prems obtain n where "p = Some (fst x)" by (rule path_ConsE)
  moreover from delete_head_chain [OF Cons.prems] obtain q where
    "delete_head_chunk_ptr h p = Inr (h(fst x := None), q)" "chain (h(fst x := None)) q xs" by blast
  moreover have "(\<lambda>a. if a \<in> cells xs then None else (h(fst x := None)) a)
      = (\<lambda>a. if a \<in> cells (x # xs) then None else h a)" by (simp add: fun_eq_iff)
  with Cons.IH [OF calculation(3)] have "delete_chunks (h(fst x := None)) q
      = Some (Inr (\<lambda>a. if a \<in> cells (x # xs) then None else h a))" by (simp only:)
  ultimately show ?case by (subst delete_chunks.simps) simp
qed

section \<open>Sorting\<close>

abbreviation key :: "nat \<times> chunk \<Rightarrow> int" where "key \<equiv> \<lambda>x. start_byte (snd x)"

lemma scan_ptr_chain:
  assumes "chain h p (front @ t # behind @ rest)" and "last (front @ t # behind) = x" and "chain h (Some (fst x)) (x # rest)"
    and "\<forall>y \<in> set front. key t < key y" and "\<forall>y \<in> set behind. key t \<le> key y"
  shows "\<exists>front' t' behind'. scan_ptr h (fst x) (fst t) (end_of front) = Some (Inr (fst t', end_of front'))
    \<and> front' @ t' # behind' = front @ t # behind @ rest
    \<and> (\<forall>y \<in> set front'. key t' < key y) \<and> (\<forall>y \<in> set behind'. key t' \<le> key y)"
  using assms
proof (induction rest arbitrary: x front t behind)
  case Nil
  from Nil.prems(3) obtain n where "h (fst x) = Some n" "nxt n = None" by (auto elim: path_ConsE)
  then have "scan_ptr h (fst x) (fst t) (end_of front) = Some (Inr (fst t, end_of front))"
    by (subst scan_ptr.simps) simp
  with Nil.prems(4,5) show ?case
    by (intro exI [of _ front] exI [of _ t] exI [of _ behind]) simp
next
  case (Cons z rest)
  from Cons.prems(3) obtain n where n: "h (fst x) = Some n" "chain h (nxt n) (z # rest)" by (auto elim: path_ConsE)
  from n(2) obtain m where m: "nxt n = Some (fst z)" "h (fst z) = Some m" "chunk.truncate m = snd z"
    by (rule path_ConsE)
  from Cons.prems(1) obtain k where k: "h (fst t) = Some k" "chunk.truncate k = snd t" by (rule chain_splitE)
  have sb: "start_byte m = key z" "start_byte k = key t"
    using m(3) [symmetric] k(2) [symmetric] by simp_all
  show ?case
  proof (cases "key t > key z")
    case True
    have "scan_ptr h (fst x) (fst t) (end_of front) = scan_ptr h (fst z) (fst z) (Some (fst x))"
      using True by (subst scan_ptr.simps) (simp add: n(1) m k load_def sb)
    moreover have "Some (fst x) = end_of (front @ t # behind)"
      using Cons.prems(2) by (auto simp: end_of_def)
    moreover have "\<forall>y \<in> set (front @ t # behind). key z < key y"
      using True Cons.prems(4,5) by fastforce
    ultimately show ?thesis
      using Cons.IH [of "front @ t # behind" z "[]" z] Cons.prems(1) n(2) m(1) by simp
  next
    case False
    then have "scan_ptr h (fst x) (fst t) (end_of front) = scan_ptr h (fst z) (fst t) (end_of front)"
      by (subst scan_ptr.simps) (simp add: n(1) m k load_def sb)
    with False show ?thesis
      using Cons.IH [of front t "behind @ [z]" z] Cons.prems(1,4,5) n(2) m(1) by simp
  qed
qed

lemma unlink_target_chain:
  assumes c: "chain h p (front @ y # behind)" and p: "p = Some a"
  shows "\<exists>h' q n. unlink_target h a (fst y) (end_of front) = Inr (h', q) \<and> chain h' q (front @ behind)
    \<and> h' (fst y) = Some n \<and> chunk.truncate n = snd y \<and> nxt n = None
    \<and> (\<forall>b. b \<notin> cells (front @ y # behind) \<longrightarrow> h' b = h b)"
proof -
  from c obtain n where n: "path h p front (Some (fst y))" "h (fst y) = Some n" "chunk.truncate n = snd y"
    "chain h (nxt n) behind" "fst y \<notin> cells front" "fst y \<notin> cells behind" by (rule chain_splitE)
  let ?n = "n\<lparr>nxt := None\<rparr>"
  show ?thesis
  proof (cases front rule: rev_cases)
    case Nil
    with n p show ?thesis
      by (intro exI [of _ "h(fst y \<mapsto> ?n)"] exI [of _ "nxt n"] exI [of _ ?n])
        (simp add: unlink_target_def load_Some set_next_Some path_upd)
  next
    case (snoc xs z)
    then have "chain h p (xs @ z # y # behind)" using c by simp
    then obtain m where m: "path h p xs (Some (fst z))" "h (fst z) = Some m" "chunk.truncate m = snd z"
      "fst z \<notin> cells xs" "fst z \<notin> cells (y # behind)" by (rule chain_splitE)
    let ?h = "h(fst z \<mapsto> m\<lparr>nxt := nxt n\<rparr>)" and ?k = "h(fst z \<mapsto> m\<lparr>nxt := nxt n\<rparr>, fst y \<mapsto> ?n)"
    have "path ?h p (xs @ [z]) (nxt n)"
      using m by (intro path_snoc [of _ _ _ _ "m\<lparr>nxt := nxt n\<rparr>"]) (simp_all add: path_upd)
    moreover have "chain ?h (nxt n) behind" using n(4) m(5) by (simp add: path_upd)
    ultimately have "chain ?h p (front @ behind)" unfolding snoc path_append by blast
    then have "chain ?k p (front @ behind)" using n by (simp add: path_upd)
    moreover have "unlink_target h a (fst y) (end_of front) = Inr (?k, p)"
      using n m p by (auto simp: unlink_target_def snoc load_Some set_next_Some)
    ultimately show ?thesis using n(3) snoc by auto
  qed
qed

lemma append_target_chain:
  assumes z: "chain h s zs" and y: "h (fst y) = Some n" "chunk.truncate n = snd y" "nxt n = None" "fst y \<notin> cells zs"
  shows "\<exists>h' q. append_target h (fst y) s (end_of zs) = Inr (h', q) \<and> chain h' q (zs @ [y])
    \<and> (\<forall>b. b \<notin> cells zs \<longrightarrow> b \<noteq> fst y \<longrightarrow> h' b = h b)"
proof (cases zs rule: rev_cases)
  case Nil
  have "path (h(fst y \<mapsto> n\<lparr>nxt := None\<rparr>)) (Some (fst y)) [y] None" using y by (cases y) simp
  with Nil z y show ?thesis by (simp add: append_target_def set_next_Some)
next
  case (snoc xs z)
  with z have "chain h s (xs @ z # [])" by simp
  then obtain m where m: "path h s xs (Some (fst z))" "h (fst z) = Some m" "chunk.truncate m = snd z" "fst z \<notin> cells xs"
    by (rule chain_splitE)
  let ?h = "h(fst z \<mapsto> m\<lparr>nxt := Some (fst y)\<rparr>)" and ?n = "n\<lparr>nxt := None\<rparr>"
  let ?k = "h(fst z \<mapsto> m\<lparr>nxt := Some (fst y)\<rparr>, fst y \<mapsto> ?n)"
  have "s \<noteq> None" using \<open>chain h s (xs @ z # [])\<close> by (cases s) simp_all
  moreover have "fst z \<noteq> fst y" using y(4) snoc by simp
  ultimately have "append_target h (fst y) s (end_of zs) = Inr (?k, s)"
    using m y by (auto simp: append_target_def snoc set_next_Some)
  moreover have "path ?h s (xs @ [z]) (Some (fst y))"
    using m by (intro path_snoc [of _ _ _ _ "m\<lparr>nxt := Some (fst y)\<rparr>"]) (simp_all add: path_upd)
  then have "path ?k s zs (Some (fst y))" using y(4) snoc by (simp add: path_upd)
  then have "chain ?k s (zs @ [y])" using y by (intro path_snoc [of _ _ _ _ ?n]) simp_all
  ultimately show ?thesis using snoc by auto
qed

lemma sort_loop_chain:
  assumes "chain h p xs" and "chain h s zs" and "cells xs \<inter> cells zs = {}"
  shows "\<exists>h' q. sort_loop h p s (end_of zs) = Some (Inr (h', q)) \<and> chain h' q (zs @ sort_key key xs)
    \<and> (\<forall>b. b \<notin> cells xs \<union> cells zs \<longrightarrow> h' b = h b)"
  using assms
proof (induction "length xs" arbitrary: h p xs s zs)
  case 0
  then show ?case by (subst sort_loop.simps) simp
next
  case (Suc k)
  then obtain x rest where xs: "xs = x # rest" by (cases xs) simp_all
  with Suc.prems(1) have p: "p = Some (fst x)" by (auto elim: path_ConsE)
  obtain front t behind where st: "scan_ptr h (fst x) (fst x) None = Some (Inr (fst t, end_of front))"
      "front @ t # behind = xs" and min: "\<forall>y \<in> set front. key t < key y" "\<forall>y \<in> set behind. key t \<le> key y"
    using scan_ptr_chain [of h p "[]" x "[]" rest x] Suc.prems(1) p xs by auto
  obtain h' q n where u: "unlink_target h (fst x) (fst t) (end_of front) = Inr (h', q)" "chain h' q (front @ behind)"
      "h' (fst t) = Some n" "chunk.truncate n = snd t" "nxt n = None" "\<forall>b. b \<notin> cells xs \<longrightarrow> h' b = h b"
    using unlink_target_chain [of h p front t behind "fst x"] Suc.prems(1) p st(2) by auto
  have "chain h' s zs" using Suc.prems(2,3) u(6) by (auto intro: path_frame)
  moreover have tz: "fst t \<notin> cells zs" using Suc.prems(3) st(2) by auto
  ultimately obtain h'' s' where a: "append_target h' (fst t) s (end_of zs) = Inr (h'', s')" "chain h'' s' (zs @ [t])"
      "\<forall>b. b \<notin> cells zs \<longrightarrow> b \<noteq> fst t \<longrightarrow> h'' b = h' b"
    using append_target_chain u(3,4,5) by blast
  from Suc.prems(1) st(2) have "fst t \<notin> cells front" "fst t \<notin> cells behind"
    by (metis chain_splitE)+
  then have d: "cells (front @ behind) \<inter> cells (zs @ [t]) = {}" using Suc.prems(3) st(2) by auto
  then have "chain h'' q (front @ behind)" using a(3) by (intro path_frame [OF u(2)]) auto
  moreover have "k = length (front @ behind)" using Suc.hyps(2) st(2) by auto
  ultimately obtain g r where g: "sort_loop h'' q s' (Some (fst t)) = Some (Inr (g, r))"
      "chain g r ((zs @ [t]) @ sort_key key (front @ behind))"
      "\<forall>b. b \<notin> cells (front @ behind) \<union> cells (zs @ [t]) \<longrightarrow> g b = h'' b"
    using Suc.hyps(1) [of "front @ behind" h'' q s' "zs @ [t]"] a(2) d by auto
  have "sort_loop h p s (end_of zs) = Some (Inr (g, r))"
    using st(1) u(1) a(1) g(1) by (subst sort_loop.simps) (simp add: p)
  moreover have "sort_key key xs = t # sort_key key (front @ behind)"
    using sort_key_min_first [of front key t behind] min st(2) by simp
  moreover have "\<forall>b. b \<notin> cells xs \<union> cells zs \<longrightarrow> g b = h b"
    using g(3) a(3) u(6) st(2) by (auto simp: all_conj_distrib [symmetric])
  ultimately show ?case using g(2) by auto
qed

lemma map_sort_key: "map f (sort_key (\<lambda>x. g (f x)) xs) = sort_key g (map f xs)"
proof -
  have "map f (insort_key (\<lambda>x. g (f x)) x ys) = insort_key g (f x) (map f ys)" for x ys
    by (induction ys) simp_all
  then show ?thesis by (induction xs) (simp_all add: sort_key_def)
qed

lemma sorting_chunks_chain:
  assumes "chain h p xs"
  shows "\<exists>h' q. sorting_chunks_ptr h p = Some (Inr (h', q)) \<and> chain h' q (sort_key key xs)
    \<and> map snd (sort_key key xs) = sorting_chunks (map snd xs) \<and> (\<forall>b. b \<notin> cells xs \<longrightarrow> h' b = h b)"
  using sort_loop_chain [OF assms, of None "[]"]
  by (simp add: sorting_chunks_ptr_def sorting_chunks_eq_sort_key map_sort_key)

section \<open>Several lists\<close>

text \<open>
  The contract of an operation on one list: it runs, does \<open>f\<close> to the chunks, takes new nodes only from
  memory that was not allocated, and writes to no other node. A client that holds other lists needs only this.
\<close>

definition undisturbed :: "heap \<Rightarrow> nat set \<Rightarrow> heap \<Rightarrow> nat set \<Rightarrow> bool" where
  "undisturbed h A h' B \<longleftrightarrow>
     (\<forall>r zs. chain h r zs \<longrightarrow> cells zs \<inter> A = {} \<longrightarrow> chain h' r zs \<and> cells zs \<inter> B = {})"

lemma undisturbedD:
  "undisturbed h A h' B \<Longrightarrow> chain h r zs \<Longrightarrow> cells zs \<inter> A = {} \<Longrightarrow> chain h' r zs"
  "undisturbed h A h' B \<Longrightarrow> chain h r zs \<Longrightarrow> cells zs \<inter> A = {} \<Longrightarrow> cells zs \<inter> B = {}"
  by (auto simp: undisturbed_def)

lemma undisturbed_refl: "undisturbed h A h A"
  by (simp add: undisturbed_def)

lemma undisturbed_trans: "undisturbed h A h' B \<Longrightarrow> undisturbed h' B h'' C \<Longrightarrow> undisturbed h A h'' C"
  unfolding undisturbed_def by blast

lemma undisturbedI:
  assumes "\<And>b. b \<in> dom h \<Longrightarrow> b \<notin> A \<Longrightarrow> h' b = h b" and "B \<inter> dom h \<subseteq> A"
  shows "undisturbed h A h' B"
  unfolding undisturbed_def
proof (intro allI impI conjI)
  fix r zs assume z: "chain h r zs" "cells zs \<inter> A = {}"
  note d = path_dom [OF z(1)]
  show "chain h' r zs" by (rule path_frame [OF z(1)]) (use z(2) d assms(1) in blast)
  show "cells zs \<inter> B = {}" using z(2) d assms(2) by blast
qed

locale list_op =
  fixes run_op :: "heap \<Rightarrow> ptr \<Rightarrow> (heap \<times> ptr) res option"
    and f :: "chunk list \<Rightarrow> chunk list"
    and ok :: "heap \<Rightarrow> chunk list \<Rightarrow> bool"
  assumes runs: "chain h p xs \<Longrightarrow> ok h (map snd xs) \<Longrightarrow> \<exists>h' q ys. run_op h p = Some (Inr (h', q))
      \<and> chain h' q ys \<and> map snd ys = f (map snd xs) \<and> cells ys \<inter> dom h \<subseteq> cells xs
      \<and> (\<forall>b \<in> dom h. b \<notin> cells xs \<longrightarrow> h' b = h b)"
begin

lemma runs_undisturbed:
  assumes "chain h p xs" and "ok h (map snd xs)"
  obtains h' q ys where "run_op h p = Some (Inr (h', q))" "chain h' q ys" "map snd ys = f (map snd xs)"
    "undisturbed h (cells xs) h' (cells ys)"
proof -
  from runs [OF assms] obtain h' q ys where r: "run_op h p = Some (Inr (h', q))" "chain h' q ys"
    "map snd ys = f (map snd xs)" "cells ys \<inter> dom h \<subseteq> cells xs" "\<forall>b \<in> dom h. b \<notin> cells xs \<longrightarrow> h' b = h b"
    by blast
  moreover have "undisturbed h (cells xs) h' (cells ys)" by (rule undisturbedI) (use r(4,5) in auto)
  ultimately show thesis using that by blast
qed

text \<open>Two lists with nodes of their own still have that afterwards, and the second is the same.\<close>

lemma keeps_apart:
  assumes "chain h p xs" and "ok h (map snd xs)" and "chain h r zs" and "cells zs \<inter> cells xs = {}"
  shows "\<exists>h' q ys. run_op h p = Some (Inr (h', q)) \<and> chain h' q ys \<and> map snd ys = f (map snd xs)
    \<and> chain h' r zs \<and> cells zs \<inter> cells ys = {}"
proof -
  obtain h' q ys where "run_op h p = Some (Inr (h', q))" "chain h' q ys" "map snd ys = f (map snd xs)"
    "undisturbed h (cells xs) h' (cells ys)" by (rule runs_undisturbed [OF assms(1,2)])
  then show ?thesis using undisturbedD [OF _ assms(3,4)] by blast
qed

end

interpretation adding: list_op "\<lambda>h p. add_new_chunk_ptr temp h p s n" "\<lambda>cs. add_new_chunk cs s n" "\<lambda>h cs. h temp = None"
  for temp s n
proof
  fix h p xs assume "chain h p xs" "h temp = None"
  from add_new_chunk_chain [OF this, of s n] obtain h' q where
    "add_new_chunk_ptr temp h p s n = Some (Inr (h', q))" "chain h' q (xs @ [(temp, mk_chunk s n)])"
    "\<forall>a. a \<notin> cells xs \<longrightarrow> a \<noteq> temp \<longrightarrow> h' a = h a" by blast
  with \<open>h temp = None\<close> show "\<exists>h' q ys. add_new_chunk_ptr temp h p s n = Some (Inr (h', q)) \<and> chain h' q ys
      \<and> map snd ys = add_new_chunk (map snd xs) s n \<and> cells ys \<inter> dom h \<subseteq> cells xs
      \<and> (\<forall>b \<in> dom h. b \<notin> cells xs \<longrightarrow> h' b = h b)"
    by (intro exI [of _ h'] exI [of _ q] exI [of _ "xs @ [(temp, mk_chunk s n)]"]) (auto simp: add_new_chunk_def)
qed

interpretation deleting: list_op "\<lambda>h p. Some (delete_head_chunk_ptr h p)" tl "\<lambda>h cs. cs \<noteq> []"
proof
  fix h p and xs :: "(nat \<times> chunk) list" assume c: "chain h p xs" "map snd xs \<noteq> []"
  then obtain x rest where x: "xs = x # rest" by (cases xs) simp_all
  from delete_head_chain [OF c(1) [unfolded x]] obtain q where
    "delete_head_chunk_ptr h p = Inr (h(fst x := None), q)" "chain (h(fst x := None)) q rest" by blast
  then show "\<exists>h' q ys. Some (delete_head_chunk_ptr h p) = Some (Inr (h', q)) \<and> chain h' q ys
      \<and> map snd ys = tl (map snd xs) \<and> cells ys \<inter> dom h \<subseteq> cells xs
      \<and> (\<forall>b \<in> dom h. b \<notin> cells xs \<longrightarrow> h' b = h b)"
    by (intro exI [of _ "h(fst x := None)"] exI [of _ q] exI [of _ rest]) (auto simp: x)
qed

lemma cells_sort_key [simp]: "cells (sort_key f xs) = cells xs"
  by (simp add: cells_def)

interpretation sorting: list_op sorting_chunks_ptr sorting_chunks "\<lambda>h cs. True"
proof
  fix h p xs assume "chain h p xs"
  from sorting_chunks_chain [OF this] obtain h' q where
    "sorting_chunks_ptr h p = Some (Inr (h', q))" "chain h' q (sort_key key xs)"
    "map snd (sort_key key xs) = sorting_chunks (map snd xs)" "\<forall>b. b \<notin> cells xs \<longrightarrow> h' b = h b" by blast
  then show "\<exists>h' q ys. sorting_chunks_ptr h p = Some (Inr (h', q)) \<and> chain h' q ys
      \<and> map snd ys = sorting_chunks (map snd xs) \<and> cells ys \<inter> dom h \<subseteq> cells xs
      \<and> (\<forall>b \<in> dom h. b \<notin> cells xs \<longrightarrow> h' b = h b)"
    by (intro exI [of _ h'] exI [of _ q] exI [of _ "sort_key key xs"]) simp
qed

text \<open>Joining hands the nodes of the second list over to the first.\<close>

lemma join_chunks_chain:
  assumes "chain h p xs" "xs \<noteq> []" "chain h q ys" "cells xs \<inter> cells ys = {}"
  shows "\<exists>h'. join_chunks h p q = Some (Inr (h', p)) \<and> chain h' p (xs @ ys)
    \<and> undisturbed h (cells xs) h' (cells xs)"
proof -
  obtain ws z where xs: "xs = ws @ [z]" using assms(2) by (cases xs rule: rev_cases) simp_all
  obtain a where a: "p = Some a" using assms(1,2) by (cases p) simp_all
  have "chain h p (ws @ z # [])" using assms(1) xs by simp
  then obtain m where m: "path h p ws (Some (fst z))" "h (fst z) = Some m" "chunk.truncate m = snd z" "fst z \<notin> cells ws"
    by (rule chain_splitE)
  let ?h = "h(fst z \<mapsto> m\<lparr>nxt := q\<rparr>)"
  have "path ?h p xs q"
    using path_snoc [of ?h p ws z "m\<lparr>nxt := q\<rparr>" q] m by (simp add: xs path_upd)
  moreover have "chain ?h q ys" using assms(3,4) xs by (simp add: path_upd)
  ultimately have "chain ?h p (xs @ ys)" unfolding path_append by blast
  moreover have "join_chunks h p q = Some (Inr (?h, p))"
    using last_node_chain [of h a ws z] assms(1) xs a m(2)
    by (simp add: join_chunks_def get_last_chunk_ptr_def then_do_def set_next_Some)
  moreover have "undisturbed h (cells xs) ?h (cells xs)" by (rule undisturbedI) (auto simp: xs)
  ultimately show ?thesis by blast
qed

section \<open>Dividing a segment on the heap\<close>

definition apart :: "(nat \<Rightarrow> nat) \<Rightarrow> nat \<Rightarrow> heap \<Rightarrow> ptr \<Rightarrow> (nat \<times> chunk) list \<Rightarrow> ptr \<Rightarrow> (nat \<times> chunk) list \<Rightarrow> bool" where
  "apart mem j h f fs s ss \<longleftrightarrow> chain h f fs \<and> chain h s ss \<and> cells fs \<inter> cells ss = {}
     \<and> (\<forall>i \<ge> j. h (mem i) = None) \<and> inj mem"

lemma apart_sym: "apart mem j h f fs s ss \<Longrightarrow> apart mem j h s ss f fs"
  by (auto simp: apart_def)

lemma apart_add:
  assumes "apart mem j h f fs s ss"
  shows "\<exists>h' q fs'. add_new_chunk_ptr (mem j) h f st n = Some (Inr (h', q)) \<and> apart mem (Suc j) h' q fs' s ss
    \<and> map snd fs' = add_new_chunk (map snd fs) st n
    \<and> undisturbed h (cells fs \<union> cells ss) h' (cells fs' \<union> cells ss)"
proof -
  from assms have a: "chain h f fs" "chain h s ss" "cells fs \<inter> cells ss = {}" "\<forall>i \<ge> j. h (mem i) = None" "inj mem"
    by (auto simp: apart_def)
  obtain h' q where q: "add_new_chunk_ptr (mem j) h f st n = Some (Inr (h', q))"
    "chain h' q (fs @ [(mem j, mk_chunk st n)])" "\<forall>b. b \<notin> cells fs \<longrightarrow> b \<noteq> mem j \<longrightarrow> h' b = h b"
    using add_new_chunk_chain [OF a(1)] a(4) by blast
  have d: "mem i \<notin> cells fs" "mem i \<notin> cells ss" if "j \<le> i" for i
    using path_dom [OF a(1)] path_dom [OF a(2)] a(4) that by auto
  have "chain h' s ss" by (rule path_frame [OF a(2)]) (use q(3) a(3) d(2) in auto)
  moreover have "h' (mem i) = None" if "Suc j \<le> i" for i
  proof -
    have "mem i \<noteq> mem j" using inj_eq [OF a(5)] that by simp
    then show ?thesis using q(3) d(1) a(4) that by simp
  qed
  moreover have "undisturbed h (cells fs \<union> cells ss) h' (cells (fs @ [(mem j, mk_chunk st n)]) \<union> cells ss)"
    by (rule undisturbedI) (use q(3) a(4) in auto)
  ultimately show ?thesis using q(1,2) a(3,5) d
    by (intro exI [of _ h'] exI [of _ q] exI [of _ "fs @ [(mem j, mk_chunk st n)]"]) (auto simp: apart_def add_new_chunk_def)
qed

lemma then_do_simps [simp]:
  "then_do (Some (Inr x)) k = k x" "then_do (Some (Inl e)) k = Some (Inl e)" "then_do None k = None"
  by (simp_all add: then_do_def)

lemma chain_ConsE:
  assumes "chain h p (x # xs)"
  obtains n where "p = Some (fst x)" "load h p = Inr n" "start_byte n = start_byte (snd x)"
    "csize n = csize (snd x)" "chain h (nxt n) xs"
proof -
  from assms obtain n where "p = Some (fst x)" "h (fst x) = Some n" "chunk.truncate n = snd x" "chain h (nxt n) xs"
    by (rule path_ConsE)
  with that show thesis by (metis load_Some truncate_simps(2,3))
qed

definition fast_filled :: "(nat \<Rightarrow> nat) \<Rightarrow> heap \<Rightarrow> nat set \<Rightarrow> (nat \<times> heap \<times> ptr \<times> ptr \<times> int \<times> ptr) res option \<Rightarrow>
    (chunk list \<times> chunk list \<times> int \<times> chunk list) res \<Rightarrow> bool" where
  "fast_filled mem h A r spec = (case spec of
      Inl e \<Rightarrow> r = Some (Inl e)
    | Inr (fc, sc, left, rest) \<Rightarrow> \<exists>j h' f fs s ss p xs. r = Some (Inr (j, h', f, s, left, p))
        \<and> apart mem j h' f fs s ss \<and> map snd fs = fc \<and> map snd ss = sc \<and> chain h' p xs \<and> map snd xs = rest
        \<and> cells xs \<inter> (cells fs \<union> cells ss) = {} \<and> undisturbed h A h' (cells fs \<union> cells ss))"

lemma fast_filledI:
  assumes "apart mem j h' f fs s ss" "chain h' p xs" "cells xs \<inter> (cells fs \<union> cells ss) = {}"
    "undisturbed h A h' (cells fs \<union> cells ss)"
  shows "fast_filled mem h A (Some (Inr (j, h', f, s, left, p))) (Inr (map snd fs, map snd ss, left, map snd xs))"
  using assms unfolding fast_filled_def by auto

lemma fast_filled_trans:
  assumes "undisturbed h A h' B" and "fast_filled mem h' B r spec"
  shows "fast_filled mem h A r spec"
proof (cases spec)
  case (Inr x)
  obtain fc sc left rest where x: "x = (fc, sc, left, rest)" by (cases x)
  from assms(2) show ?thesis unfolding Inr x fast_filled_def sum.case prod.case
    by (blast intro: undisturbed_trans [OF assms(1)])
qed (use assms in \<open>simp add: fast_filled_def\<close>)

lemma fill_fast_chain:
  assumes "apart mem j h f fs s ss" and "chain h p xs" and "cells xs \<inter> (cells fs \<union> cells ss) = {}"
  shows "fast_filled mem h (cells fs \<union> cells ss) (fill_fast_ptr mem n slow_alloc left slow_left acc j h f s p)
    (fill_fast n slow_alloc left slow_left acc (map snd fs) (map snd ss) (map snd xs))"
  using assms
proof (induction xs arbitrary: left acc j h f fs p)
  case Nil
  then show ?case
    using fast_filledI [OF Nil.prems(1), of None "[]" h "cells fs \<union> cells ss" slow_left]
    by (subst fill_fast_ptr.simps) (simp add: undisturbed_refl)
next
  case (Cons x xs)
  let ?c = "snd x"
  from Cons.prems(2) obtain n0 where p: "p = Some (fst x)" and ld: "load h p = Inr n0"
    and b: "start_byte n0 = start_byte ?c" "csize n0 = csize ?c" by (rule chain_ConsE)
  have ptr: "fill_fast_ptr mem n slow_alloc left slow_left acc j h f s p =
     (if left = 0 then Some (Inr (j, h, f, s, slow_left, p))
      else if n < acc + csize ?c then
            then_do (add_new_chunk_ptr (mem j) h f (start_byte ?c) left) (\<lambda>(h1, f1).
              if csize ?c - left \<noteq> 0 then
                (if slow_alloc
                 then then_do (add_new_chunk_ptr (mem (Suc j)) h1 s (start_byte ?c + left) (csize ?c - left)) (\<lambda>(h2, s2).
                        Some (bindR (load h2 p) (\<lambda>c2. Inr (Suc (Suc j), h2, f1, s2, slow_left - (csize ?c - left), nxt c2))))
                 else Some (Inl Uninit))
              else Some (bindR (load h1 p) (\<lambda>c1. Inr (Suc j, h1, f1, s, slow_left, nxt c1))))
      else (case then_do (add_new_chunk_ptr (mem j) h f (start_byte ?c) (csize ?c)) (\<lambda>(h1, f1).
                       Some (bindR (load h1 p) (\<lambda>c1. Inr (h1, f1, c1)))) of
              None \<Rightarrow> None
            | Some (Inl e) \<Rightarrow> Some (Inl e)
            | Some (Inr (h1, f1, c1)) \<Rightarrow>
                fill_fast_ptr mem n slow_alloc (left - csize c1) slow_left (acc + csize ?c) (Suc j) h1 f1 s (nxt c1)))"
    by (subst fill_fast_ptr.simps) (simp only: p option.case ld [unfolded p] sum.case b)
  consider "left = 0" | "left \<noteq> 0" "n < acc + csize ?c" | "left \<noteq> 0" "\<not> n < acc + csize ?c" by blast
  then show ?case
  proof cases
    case 1
    with fast_filledI [OF Cons.prems(1,2,3) undisturbed_refl, of slow_left] show ?thesis
      unfolding ptr by simp
  next
    case 2
    from apart_add [OF Cons.prems(1), of "start_byte ?c" left] obtain h1 f1 fs1 where
      a: "add_new_chunk_ptr (mem j) h f (start_byte ?c) left = Some (Inr (h1, f1))" "apart mem (Suc j) h1 f1 fs1 s ss"
        "map snd fs1 = add_new_chunk (map snd fs) (start_byte ?c) left"
        "undisturbed h (cells fs \<union> cells ss) h1 (cells fs1 \<union> cells ss)" by blast
    note c1 = undisturbedD [OF a(4) Cons.prems(2,3)]
    from c1(1) obtain n1 where n1: "load h1 p = Inr n1" "chain h1 (nxt n1) xs" by (rule chain_ConsE)
    show ?thesis
    proof (cases "csize ?c - left = 0")
      case True
      then show ?thesis
        using 2 fast_filledI [OF a(2) n1(2) _ a(4), of slow_left] c1(2) by (simp add: ptr a n1)
    next
      case False
      from apart_add [OF apart_sym [OF a(2)], of "start_byte ?c + left" "csize ?c - left"] obtain h2 s2 ss2 where
        e: "add_new_chunk_ptr (mem (Suc j)) h1 s (start_byte ?c + left) (csize ?c - left) = Some (Inr (h2, s2))"
          "apart mem (Suc (Suc j)) h2 s2 ss2 f1 fs1"
          "map snd ss2 = add_new_chunk (map snd ss) (start_byte ?c + left) (csize ?c - left)"
          "undisturbed h1 (cells ss \<union> cells fs1) h2 (cells ss2 \<union> cells fs1)" by blast
      have u: "undisturbed h (cells fs \<union> cells ss) h2 (cells fs1 \<union> cells ss2)"
        using undisturbed_trans [OF a(4)] e(4) by (simp add: Un_commute)
      note c2 = undisturbedD [OF u Cons.prems(2,3)]
      from c2(1) obtain n2 where n2: "load h2 p = Inr n2" "chain h2 (nxt n2) xs" by (rule chain_ConsE)
      show ?thesis
      proof (cases slow_alloc)
        case True
        with 2 False fast_filledI [OF apart_sym [OF e(2)] n2(2) _ u, of "slow_left - (csize ?c - left)"] c2(2)
        show ?thesis unfolding ptr by (simp add: a(1,3) e(1,3) n2(1))
      next
        case no: False
        with 2 False show ?thesis unfolding ptr by (simp add: a(1) fast_filled_def)
      qed
    qed
  next
    case 3
    from apart_add [OF Cons.prems(1), of "start_byte ?c" "csize ?c"] obtain h1 f1 fs1 where
      a: "add_new_chunk_ptr (mem j) h f (start_byte ?c) (csize ?c) = Some (Inr (h1, f1))" "apart mem (Suc j) h1 f1 fs1 s ss"
        "map snd fs1 = add_new_chunk (map snd fs) (start_byte ?c) (csize ?c)"
        "undisturbed h (cells fs \<union> cells ss) h1 (cells fs1 \<union> cells ss)" by blast
    note c1 = undisturbedD [OF a(4) Cons.prems(2,3)]
    from c1(1) obtain n1 where n1: "load h1 p = Inr n1" "csize n1 = csize ?c" "chain h1 (nxt n1) xs" by (rule chain_ConsE)
    have "fast_filled mem h1 (cells fs1 \<union> cells ss)
        (fill_fast_ptr mem n slow_alloc (left - csize ?c) slow_left (acc + csize ?c) (Suc j) h1 f1 s (nxt n1))
        (fill_fast n slow_alloc (left - csize ?c) slow_left (acc + csize ?c) (map snd fs1) (map snd ss) (map snd xs))"
      using c1(2) by (intro Cons.IH [OF a(2) n1(3)]) auto
    from fast_filled_trans [OF a(4) this] 3 show ?thesis by (simp add: ptr a(1,3) n1(1,2))
  qed
qed

lemma fill_slow_chain:
  assumes "apart mem j h s ss f fs" and "chain h p xs" and "cells xs \<inter> (cells ss \<union> cells fs) = {}"
  shows "case fill_slow slow_left (map snd ss) (map snd xs) of
      Inl e \<Rightarrow> fill_slow_ptr mem slow_left j h s p = Some (Inl e)
    | Inr sc \<Rightarrow> \<exists>i h' q ss'. fill_slow_ptr mem slow_left j h s p = Some (Inr (h', q)) \<and> apart mem i h' q ss' f fs
        \<and> map snd ss' = sc \<and> undisturbed h (cells ss \<union> cells fs) h' (cells ss' \<union> cells fs)"
  using assms
proof (induction xs arbitrary: j h s ss p)
  case Nil
  then show ?case by (subst fill_slow_ptr.simps) (auto intro: undisturbed_refl)
next
  case (Cons x xs)
  let ?c = "snd x"
  from Cons.prems(2) obtain n0 where p: "p = Some (fst x)" and ld: "load h p = Inr n0"
    and b: "start_byte n0 = start_byte ?c" "csize n0 = csize ?c" by (rule chain_ConsE)
  from apart_add [OF Cons.prems(1), of "start_byte ?c" "csize ?c"] obtain h1 s1 ss1 where
    a: "add_new_chunk_ptr (mem j) h s (start_byte ?c) (csize ?c) = Some (Inr (h1, s1))" "apart mem (Suc j) h1 s1 ss1 f fs"
      "map snd ss1 = add_new_chunk (map snd ss) (start_byte ?c) (csize ?c)"
      "undisturbed h (cells ss \<union> cells fs) h1 (cells ss1 \<union> cells fs)" by blast
  note c1 = undisturbedD [OF a(4) Cons.prems(2,3)]
  from c1(1) obtain n1 where n1: "load h1 p = Inr n1" "chain h1 (nxt n1) xs" by (rule chain_ConsE)
  have ptr: "fill_slow_ptr mem slow_left j h s p =
      (if slow_left = 0 then Some (Inl (Exit 1)) else fill_slow_ptr mem slow_left (Suc j) h1 s1 (nxt n1))"
    by (subst fill_slow_ptr.simps) (use p ld b a(1) n1(1) in simp)
  show ?case
  proof (cases "slow_left = 0")
    case False
    from c1(2) have "cells xs \<inter> (cells ss1 \<union> cells fs) = {}" by auto
    note IH = Cons.IH [OF a(2) n1(2) this]
    show ?thesis
    proof (cases "fill_slow slow_left (map snd ss1) (map snd xs)")
      case (Inr sc)
      from IH [unfolded Inr sum.case] False Inr show ?thesis unfolding ptr a(3)
        by (simp del: ex_simps) (blast intro: undisturbed_trans [OF a(4)])
    qed (use IH False a(3) in \<open>simp add: ptr\<close>)
  next
    case True
    then show ?thesis unfolding ptr by simp
  qed
qed

lemma divide_chunks_chain:
  assumes "chain h p xs" and "inj mem" and "\<forall>i. h (mem i) = None"
  shows "case divide_chunks a b (map snd xs) of
      Inl e \<Rightarrow> divide_chunks_ptr mem a b h p = Some (Inl e)
    | Inr (fc, sc) \<Rightarrow> \<exists>h' f s fs ss. divide_chunks_ptr mem a b h p = Some (Inr (h', f, s))
        \<and> chain h' f fs \<and> map snd fs = fc \<and> chain h' s ss \<and> map snd ss = sc \<and> cells fs \<inter> cells ss = {}
        \<and> undisturbed h {} h' (cells fs \<union> cells ss)"
proof -
  have ap: "apart mem 0 h None [] None []" using assms by (simp add: apart_def)
  have fast: "fast_filled mem h {} (fill_fast_ptr mem a (b \<noteq> 0) a b 0 0 h None None p)
      (fill_fast a (b \<noteq> 0) a b 0 [] [] (map snd xs))"
    using fill_fast_chain [OF ap assms(1)] by simp
  show ?thesis
  proof (cases "fill_fast a (b \<noteq> 0) a b 0 [] [] (map snd xs)")
    case (Inl e)
    with fast show ?thesis by (simp add: divide_chunks_def divide_chunks_ptr_def fast_filled_def)
  next
    case (Inr x)
    obtain fc sc l rest where x: "x = (fc, sc, l, rest)" by (cases x)
    from fast Inr x obtain j h1 f fs s ss q zs where r:
      "fill_fast_ptr mem a (b \<noteq> 0) a b 0 0 h None None p = Some (Inr (j, h1, f, s, l, q))"
      "apart mem j h1 f fs s ss" "map snd fs = fc" "map snd ss = sc" "chain h1 q zs" "map snd zs = rest"
      "cells zs \<inter> (cells fs \<union> cells ss) = {}" "undisturbed h {} h1 (cells fs \<union> cells ss)"
      unfolding fast_filled_def by auto
    have "cells zs \<inter> (cells ss \<union> cells fs) = {}" using r(7) by auto
    note slow = fill_slow_chain [OF apart_sym [OF r(2)] r(5) this, of l]
    show ?thesis
    proof (cases "fill_slow l sc rest")
      case (Inl e)
      with slow r show ?thesis using Inr x by (simp add: divide_chunks_def divide_chunks_ptr_def)
    next
      case sl: (Inr sc')
      from slow sl r(4,6) obtain i h2 s2 ss2 where t: "fill_slow_ptr mem l j h1 s q = Some (Inr (h2, s2))"
        "apart mem i h2 s2 ss2 f fs" "map snd ss2 = sc'" "undisturbed h1 (cells ss \<union> cells fs) h2 (cells ss2 \<union> cells fs)"
        by auto
      have "undisturbed h {} h2 (cells fs \<union> cells ss2)"
        using undisturbed_trans [OF r(8)] t(4) by (simp add: Un_commute)
      moreover have "divide_chunks_ptr mem a b h p = Some (Inr (h2, f, s2))"
        by (simp add: divide_chunks_ptr_def r(1) t(1))
      moreover have "divide_chunks a b (map snd xs) = Inr (map snd fs, map snd ss2)"
        using Inr x sl r(3,4,6) t(3) by (simp add: divide_chunks_def)
      ultimately show ?thesis using apart_sym [OF t(2)] unfolding apart_def by auto
    qed
  qed
qed

end
