(* ===== verification/Heap_Theorems.thy ===== *)
theory Heap_Theorems
  imports Chunk_Heap_Laws
begin

text \<open>
  The chunk lists in memory: what sorting and dividing do to the nodes, and what freeing a list frees.
\<close>

section \<open>Sorting and dividing in memory\<close>

text \<open>C11: Called on a list in memory, \<open>sorting_chunks\<close> returns, and what it returns is a list in memory of the same nodes
  with the same chunks, in the order of the sorted list; no other node of memory is written, nothing is
  allocated or freed.\<close>

theorem sorting_in_place:
  assumes "chain h p xs"
  shows "\<exists>h' q ys. sorting_chunks_ptr h p = Some (Inr (h', q)) \<and> chain h' q ys
    \<and> map snd ys = sorting_chunks (map snd xs) \<and> mset ys = mset xs
    \<and> dom h' = dom h \<and> (\<forall>a. a \<notin> cells xs \<longrightarrow> h' a = h a)"
proof -
  from sorting_chunks_chain [OF assms] obtain h' q where s: "sorting_chunks_ptr h p = Some (Inr (h', q))"
    "chain h' q (sort_key key xs)" "map snd (sort_key key xs) = sorting_chunks (map snd xs)"
    "\<forall>a. a \<notin> cells xs \<longrightarrow> h' a = h a" by blast
  moreover have "dom h' = dom h"
  proof (rule set_eqI)
    fix a
    have "cells xs \<subseteq> dom h" "cells xs \<subseteq> dom h'" using path_dom [OF assms] path_dom [OF s(2)] by simp_all
    then show "a \<in> dom h' \<longleftrightarrow> a \<in> dom h"
      by (cases "a \<in> cells xs") (simp_all add: s(4) subset_iff domIff)
  qed
  ultimately show ?thesis by (intro exI [of _ h'] exI [of _ q] exI [of _ "sort_key key xs"]) simp
qed

definition sample_heap :: heap where
  "sample_heap = [1 \<mapsto> \<lparr>start_byte = 50, last_byte = 79, csize = 30, nxt = Some 2\<rparr>,
                  2 \<mapsto> \<lparr>start_byte = 0, last_byte = 9, csize = 10, nxt = Some 3\<rparr>,
                  3 \<mapsto> \<lparr>start_byte = 20, last_byte = 29, csize = 10, nxt = None\<rparr>]"

definition sample_list :: "(nat \<times> chunk) list" where
  "sample_list = [(1, mk_chunk 50 30), (2, mk_chunk 0 10), (3, mk_chunk 20 10)]"

lemma sample_chain: "chain sample_heap (Some 1) sample_list"
  by (simp add: sample_heap_def sample_list_def mk_chunk_def chunk.defs)

theorem sorting_in_place_witness:
  "\<exists>h' q ys. sorting_chunks_ptr sample_heap (Some 1) = Some (Inr (h', q)) \<and> chain h' q ys
    \<and> map snd ys = [mk_chunk 0 10, mk_chunk 20 10, mk_chunk 50 30]"
proof -
  have "sorting_chunks (map snd sample_list) = [mk_chunk 0 10, mk_chunk 20 10, mk_chunk 50 30]"
    by (simp add: sample_list_def)
  with sorting_in_place [OF sample_chain] show ?thesis by metis
qed

text \<open>C12: The loops of \<open>add_new_subsegment\<close>, run on a segment's list in memory and given fresh memory by \<open>malloc\<close>, end with the same
  error as on lists of chunks, or with two lists that hold the same chunks as there, share no node, and
  share none with any list that was in memory before, all of which are as they were.\<close>

theorem dividing_in_memory:
  assumes "chain h p xs" and "inj mem" and "\<forall>i. h (mem i) = None"
  shows "case divide_chunks fast_size slow_size (map snd xs) of
      Inl e \<Rightarrow> divide_chunks_ptr mem fast_size slow_size h p = Some (Inl e)
    | Inr (fc, sc) \<Rightarrow> \<exists>h' f s fs ss. divide_chunks_ptr mem fast_size slow_size h p = Some (Inr (h', f, s))
        \<and> chain h' f fs \<and> map snd fs = fc \<and> chain h' s ss \<and> map snd ss = sc \<and> cells fs \<inter> cells ss = {}
        \<and> (\<forall>r zs. chain h r zs \<longrightarrow> chain h' r zs \<and> cells zs \<inter> (cells fs \<union> cells ss) = {})"
proof (cases "divide_chunks fast_size slow_size (map snd xs)")
  case (Inl e)
  with divide_chunks_chain [OF assms, of fast_size slow_size] show ?thesis by simp
next
  case (Inr x)
  with divide_chunks_chain [OF assms, of fast_size slow_size] show ?thesis
    unfolding Inr sum.case undisturbed_def by (simp only: Int_empty_right simp_thms)
qed

theorem dividing_in_memory_witness:
  "\<exists>h' f s fs ss. divide_chunks_ptr (\<lambda>i. i + 10) 35 15 sample_heap (Some 1) = Some (Inr (h', f, s))
    \<and> chain h' f fs \<and> map snd fs = [mk_chunk 50 30, mk_chunk 0 5] \<and> chain h' s ss
    \<and> map snd ss = [mk_chunk 5 5, mk_chunk 20 10] \<and> chain h' (Some 1) sample_list"
proof -
  have d: "divide_chunks 35 15 (map snd sample_list)
      = Inr ([mk_chunk 50 30, mk_chunk 0 5], [mk_chunk 5 5, mk_chunk 20 10])"
    by (simp add: sample_list_def divide_chunks_def add_new_chunk_def)
  have inj: "inj (\<lambda>i :: nat. i + 10)" by simp
  have fresh: "\<forall>i. sample_heap (i + 10) = None" by (simp add: sample_heap_def)
  from dividing_in_memory [OF sample_chain inj fresh, of 35 15, unfolded d sum.case prod.case]
  obtain h' f s fs ss where r:
    "divide_chunks_ptr (\<lambda>i. i + 10) 35 15 sample_heap (Some 1) = Some (Inr (h', f, s))"
    "chain h' f fs" "map snd fs = [mk_chunk 50 30, mk_chunk 0 5]"
    "chain h' s ss" "map snd ss = [mk_chunk 5 5, mk_chunk 20 10]"
    "\<forall>r zs. chain sample_heap r zs \<longrightarrow> chain h' r zs \<and> cells zs \<inter> (cells fs \<union> cells ss) = {}"
    by (elim exE conjE) (rule that)
  have "chain h' (Some 1) sample_list" using r(6) sample_chain by blast
  with r(1-5) show ?thesis
    by (intro exI [of _ h'] exI [of _ f] exI [of _ s] exI [of _ fs] exI [of _ ss]) simp
qed

section \<open>Freeing\<close>

text \<open>The loop of \<open>delete_subsegment\<close> frees every node of the list and no other.\<close>

theorem delete_chunks_frees:
  assumes "chain h p xs"
  shows "\<exists>h'. delete_chunks h p = Some (Inr h') \<and> dom h' = dom h - cells xs \<and> (\<forall>a. a \<notin> cells xs \<longrightarrow> h' a = h a)"
  using delete_chunks_chain [OF assms] by (auto split: if_splits)

text \<open>Adding to one of two lists, through the contract: the other one stays as it is.\<close>

theorem add_keeps_other_list:
  assumes "chain h p xs" and "h temp = None" and "chain h r zs" and "cells zs \<inter> cells xs = {}"
  shows "\<exists>h' q ys. add_new_chunk_ptr temp h p s n = Some (Inr (h', q)) \<and> chain h' q ys
    \<and> map snd ys = add_new_chunk (map snd xs) s n \<and> chain h' r zs \<and> cells zs \<inter> cells ys = {}"
  using assms by (rule adding.keeps_apart)

text \<open>Recovery appends the chunks of a later subsegment without copying them; both lists become one.\<close>

theorem join_appends:
  assumes "chain h p xs" "xs \<noteq> []" "chain h q ys" "cells xs \<inter> cells ys = {}"
  shows "\<exists>h'. join_chunks h p q = Some (Inr (h', p)) \<and> chain h' p (xs @ ys)"
  using join_chunks_chain [OF assms] by blast

end
