(* ===== verification/Display.thy ===== *)
theory Display
  imports Recovery
begin

text \<open>
  What a session prints: sizes and times for people, the progress bar, the list of segments, and the file of parameters
  (\<^verbatim>\<open>gbsession.c\<close>, \<^verbatim>\<open>gb.c\<close>, \<^verbatim>\<open>recovery.c\<close>, \<^verbatim>\<open>log_params.c\<close>). A function that prints has the printed text as its
  result. The formats of \<open>printf\<close> come first; a decimal fraction is rounded to the nearest, a tie
  to the even digit.
\<close>

section \<open>The formats of \<open>printf\<close>\<close>

definition pad :: "char \<Rightarrow> nat \<Rightarrow> string \<Rightarrow> string" where
  "pad c w s = replicate (w - length s) c @ s"

text \<open>\<open>%wd\<close>, \<open>%0wd\<close> and \<open>%.wlld\<close>\<close>

definition fmt_d :: "nat \<Rightarrow> int \<Rightarrow> string" where
  "fmt_d w n = pad CHR '' '' w (show_int n)"

definition fmt_0d :: "nat \<Rightarrow> int \<Rightarrow> string" where
  "fmt_0d w n = (if n < 0 then CHR ''-'' # pad CHR ''0'' (w - 1) (show_nat (nat (- n)))
     else pad CHR ''0'' w (show_nat (nat n)))"

definition fmt_prec :: "nat \<Rightarrow> int \<Rightarrow> string" where
  "fmt_prec w n = (if n < 0 then [CHR ''-''] else []) @ pad CHR ''0'' w (show_nat (nat \<bar>n\<bar>))"

definition round_half_even :: "rat \<Rightarrow> int" where
  "round_half_even r = (let d = r - of_int \<lfloor>r\<rfloor> in
     if d < 1 / 2 \<or> (d = 1 / 2 \<and> even \<lfloor>r\<rfloor>) then \<lfloor>r\<rfloor> else \<lfloor>r\<rfloor> + 1)"

text \<open>\<open>%.kf\<close>; the sign of not-a-number is not printed here.\<close>

definition fmt_f :: "nat \<Rightarrow> dbl \<Rightarrow> string" where
  "fmt_f k x = (case x of
      Fin r \<Rightarrow> (let n = nat (round_half_even (\<bar>r\<bar> * 10 ^ k)) in
        (if r < 0 then [CHR ''-''] else []) @ show_nat (n div 10 ^ k)
        @ (if k = 0 then [] else CHR ''.'' # pad CHR ''0'' k (show_nat (n mod 10 ^ k))))
    | PInf \<Rightarrow> ''inf'' | NInf \<Rightarrow> ''-inf'' | NaN \<Rightarrow> ''nan'')"

definition ESC :: char where "ESC = CHR 0x1B"

text \<open>A line in a colour: style, foreground and a black background.\<close>

definition paint :: "int \<Rightarrow> int \<Rightarrow> string \<Rightarrow> string" where
  "paint style colour s = ESC # ''['' @ show_int style @ '';'' @ show_int colour @ '';40m'' @ s
     @ ESC # ''[47;0m'' @ [CHR 0x0A]"

section \<open>Sizes and times\<close>

definition size_human :: "int \<Rightarrow> string" where
  "size_human n =
     (if n = 1 then show_int n @ '' byte''
      else if n < 1024 then show_int n @ '' bytes''
      else if n < 10485760 then fmt_f 1 (of_ll n / Fin 1024) @ '' kilobytes''
      else fmt_f 1 (of_ll n / Fin 1048576) @ '' megabytes'')"

definition time_human :: "int \<Rightarrow> string" where
  "time_human n =
     (if n = 1 then show_int n @ '' second''
      else if n < 60 then show_int n @ '' seconds''
      else if n < 3600 then show_int (n sdiv 60) @ '':'' @ fmt_0d 2 (n smod 60) @ '' seconds''
      else show_int (n sdiv 3600) @ '':'' @ fmt_0d 2 ((n sdiv 60) smod 60) @ '':'' @ fmt_0d 2 (n smod 60) @ '' seconds'')"

section \<open>Messages\<close>

definition clrline :: string where
  "clrline = CHR 0x0D # replicate 80 CHR '' '' @ [CHR 0x0D]"

definition print_messages :: "proc \<Rightarrow> string \<times> proc" where
  "print_messages p = (concat (map (\<lambda>m. m @ [CHR 0x0A]) (messages p)), p\<lparr>messages := []\<rparr>)"

section \<open>The progress bar\<close>

text \<open>
  Columns are filled up to a limit, the \<open>j\<close>-th being the next. An infinite limit is never reached.
\<close>

function fill_chars :: "char \<Rightarrow> rat \<Rightarrow> int \<Rightarrow> string" where
  "fill_chars c r j = (if of_int j < r then c # fill_chars c r (j + 1) else [])"
  by pat_completeness auto
termination by (relation "measure (\<lambda>(c, r, j). nat (\<lceil>r\<rceil> - j))") (auto simp: less_ceiling_iff)

declare fill_chars.simps [simp del]

definition fill_bar :: "char \<Rightarrow> dbl \<Rightarrow> int \<times> string \<Rightarrow> (int \<times> string) option" where
  "fill_bar c limit = (\<lambda>(j, out). case limit of
      Fin r \<Rightarrow> (let s = fill_chars c r j in Some (j + int (length s), out @ s))
    | PInf \<Rightarrow> None
    | _ \<Rightarrow> Some (j, out))"

definition column :: "proc \<Rightarrow> int \<Rightarrow> dbl" where
  "column p b = of_ll b / of_ll (g_size p + 1) * Fin 50"

definition conn_mark :: "proc \<Rightarrow> dbl \<Rightarrow> link \<Rightarrow> char" where
  "conn_mark p now k = (let c = conn p k in
     if currentbyte c < lastbyte c then
       (if now \<le> of_ll (last_transfer c + connection_timeout (conf p) sdiv 2) then digit (nat (idx k)) else CHR ''#'')
     else CHR ''.'')"

definition bar_conn :: "proc \<Rightarrow> dbl \<Rightarrow> link \<Rightarrow> int \<times> string \<Rightarrow> (int \<times> string) option" where
  "bar_conn p now k st =
     Option.bind (fill_bar CHR ''.'' (column p (currentbyte (conn p k)) - Fin 1) st) (\<lambda>(j, out).
       fill_bar CHR '' '' (column p (lastbyte (conn p k))) (j + 1, out @ [conn_mark p now k]))"

fun bar :: "proc \<Rightarrow> dbl \<Rightarrow> link list \<Rightarrow> int \<times> string \<Rightarrow> (int \<times> string) option" where
  "bar p now [] st = Some st"
| "bar p now (k # ks) st = Option.bind (bar_conn p now k st) (bar p now ks)"

definition speed :: "int \<Rightarrow> string" where
  "speed bps =
     (if bps > 1048576 then ''] ['' @ pad CHR '' '' 6 (fmt_f 1 (of_ll bps / Fin (1024 * 1024))) @ ''MB/s]''
      else if bps > 1024 then ''] ['' @ pad CHR '' '' 6 (fmt_f 1 (of_ll bps / Fin 1024)) @ ''KB/s]''
      else ''] ['' @ pad CHR '' '' 6 (fmt_f 1 (of_ll bps)) @ ''B/s]'')"

text \<open>Days, hours, minutes and seconds of a number of seconds.\<close>

definition split_time :: "int \<Rightarrow> int \<times> int \<times> int \<times> int" where
  "split_time t =
     (let minutes = t sdiv 60; seconds = t - minutes * 60;
          hours = minutes sdiv 60; minutes1 = minutes - hours * 60;
          days = hours sdiv 24; hours1 = hours - days * 24
      in (days, hours1, minutes1, seconds))"

definition time_left :: "int \<Rightarrow> string" where
  "time_left t = (let (days, hours, minutes, seconds) = split_time t in
     if days \<noteq> 0 then '' ['' @ fmt_d 2 days @ ''d'' @ fmt_d 2 hours @ '']''
     else if hours \<noteq> 0 then '' ['' @ fmt_d 2 hours @ ''h'' @ fmt_0d 2 minutes @ '']''
     else '' ['' @ fmt_0d 2 minutes @ '':'' @ fmt_0d 2 seconds @ '']'')"

definition print_alternate_output :: "dbl \<Rightarrow> proc \<Rightarrow> string res option" where
  "print_alternate_output now p =
     (let done = bytes_done p; total = g_size p in
      case cast_ll (of_ll done * Fin 100 / of_ll total + Fin (1 / 2)) of
        Inl e \<Rightarrow> Some (Inl e)
      | Inr percent \<Rightarrow>
          Option.bind (bar p now (conn_indices p) (0, [])) (\<lambda>(_, columns).
            Some (bindR (if done < total then bindR (cast_int (of_ll (finish_time p) - now)) (\<lambda>t. Inr (time_left t))
                         else Inr []) (\<lambda>rest.
              Inr (CHR 0x0D # ''['' @ fmt_d 3 (min 100 percent) @ ''%] ['' @ columns
                   @ speed (g_bytes_per_second p) @ rest)))))"

text \<open>\<open>print_loading_bar\<close>; the time is read at most once.\<close>

definition print_loading_bar :: "dbl \<Rightarrow> int \<Rightarrow> proc \<Rightarrow> (string \<times> proc) res option" where
  "print_loading_bar now prev_bytes_done p =
     (if messages p = [] then
        (case (if prev_bytes_done \<noteq> bytes_done p then print_alternate_output now p else Some (Inr [])) of
           None \<Rightarrow> None
         | Some r \<Rightarrow> Some (bindR r (\<lambda>s. Inr (s @ (if ready p \<noteq> 0 then [CHR 0x0A] else []), p))))
      else
        (let (text, q) = print_messages p in
         case (if ready q = 0 then print_alternate_output now q else Some (Inr [])) of
           None \<Rightarrow> None
         | Some r \<Rightarrow> Some (bindR r (\<lambda>s. Inr (clrline @ text @ s, q)))))"

text \<open>The summary at the end; the difference of times becomes an \<open>int\<close> when it is passed to \<open>time_human\<close>.\<close>

definition print_finish_message :: "dbl \<Rightarrow> proc \<Rightarrow> string res" where
  "print_finish_message now p =
     bindR (cast_int (now - g_start_time p)) (\<lambda>t.
       Inr (ESC # ''[27;36;40m'' @ CHR 0x0A # ''Downloaded '' @ size_human (bytes_done p - g_start_byte p)
            @ '' in '' @ time_human t @ ''. ('' @ fmt_f 2 (of_ll (g_bytes_per_second p) / Fin 1024) @ '' KB/s)''
            @ CHR 0x0A # ESC # ''[47;0m'' @ [CHR 0x0A]))"

section \<open>The segments\<close>

definition mega :: "int \<Rightarrow> string" where
  "mega n = show_int (n sdiv 1000000) @ '','' @ fmt_prec 6 (n smod 1000000)"

definition print_chunk_info :: "chunk \<Rightarrow> string" where
  "print_chunk_info c = ''- Start: '' @ mega (start_byte c) @ ''    Last: '' @ mega (last_byte c)
     @ ''    Size: '' @ mega (csize c) @ [CHR 0x0A]"

definition print_conn_pos :: "proc \<Rightarrow> link \<Rightarrow> link \<Rightarrow> string res" where
  "print_conn_pos p cur k =
     bindR (seg_deref (offset_info p) (connection (offset_info p) k)) (\<lambda>s.
       Inr ((if k = cur then ''*'' else []) @ ''Connection '' @ show_int (idx k) @ '' - Segment''
            @ (if recovery_segment s then ''#'' else []) @ '': '' @ show_int (seg_id s)
            @ ''    Current byte: '' @ mega (currentbyte (conn p k))
            @ ''    Last byte: '' @ mega (lastbyte (conn p k)) @ [CHR 0x0A]))"

definition print_segment :: "link list \<Rightarrow> segment \<Rightarrow> string" where
  "print_segment ks s =
     ''Segment'' @ (if recovery_segment s then ''#'' else []) @ '' '' @ show_int (seg_id s)
     @ '' (size: '' @ mega (seg_size s) @ '')'' @ [CHR 0x0A]
     @ concat (map print_chunk_info (seg_chunks s))
     @ concat (map (\<lambda>k. case subseg s k of
          None \<Rightarrow> []
        | Some b \<Rightarrow> CHR 0x09 # ''Subseg '' @ show_int (idx k) @ [CHR 0x0A]
             @ concat (map (\<lambda>c. CHR 0x09 # print_chunk_info c) (ss_chunks b))) ks)"

definition display_offset_info :: "proc \<Rightarrow> link \<Rightarrow> string res" where
  "display_offset_info p cur =
     (let i = offset_info p; ks = conn_indices p in
      foldR (\<lambda>k out. if connection i k = None then Inr out
                     else bindR (print_conn_pos p cur k) (\<lambda>s. Inr (out @ s)))
        ks (concat (map (print_segment ks) (segs i))))"

definition print_info_before_setup_next_segment :: "proc \<Rightarrow> link \<Rightarrow> string res" where
  "print_info_before_setup_next_segment p cur =
     bindR (display_offset_info p cur) (\<lambda>s.
       Inr (''Before sending a next request'' @ [CHR 0x0A]
            @ ''Last downloaded byte: '' @ show_int (last_downloaded_byte p) @ [CHR 0x0A]
            @ concat (map (\<lambda>k. ''conn '' @ show_int (idx k) @ '' - currentbyte : '' @ show_int (currentbyte (conn p k))
                 @ '' lastbyte : '' @ show_int (lastbyte (conn p k)) @ [CHR 0x0A]) (conn_indices p))
            @ ''Currently finishing connection: '' @ show_int (idx cur) @ [CHR 0x0A]
            @ ''----------BEFORE----------'' @ [CHR 0x0A] @ s @ ''--------------------------'' @ [CHR 0x0A]))"

definition print_info_after_setup_next_segment :: "proc \<Rightarrow> link \<Rightarrow> string res" where
  "print_info_after_setup_next_segment p cur =
     bindR (display_offset_info p cur) (\<lambda>s.
       Inr (CHR 0x0A # ''----------AFTER----------'' @ [CHR 0x0A] @ s @ ''-------------------------'' @ [CHR 0x0A]))"

definition print_link_mode :: "int \<Rightarrow> string" where
  "print_link_mode m =
     (if m = LTE_SINGLE_LINK_MODE then paint 1 31 ''LTE Single Link Mode''
      else if m = WIFI_SINGLE_LINK_MODE then paint 1 32 ''WIFI Single Link Mode''
      else if m = DUAL_LINK_MODE then paint 1 36 ''Dual Link Mode''
      else paint 1 31 ''WARNING: Unrecognized recovery decision!'')"

definition print_recovery_mode :: "int \<Rightarrow> string" where
  "print_recovery_mode m =
     (if m = RECOVERY_FOR_INSUFFICIENT_PLAYABLE_TIME then paint 1 35 ''Recover for insufficient playable time''
      else if m = 2 then paint 1 36 ''Recover for resuming playing''
      else paint 1 31 ''WARNING: Unrecognized recovery decision!'')"

definition print_recovery_start_msg :: string where
  "print_recovery_start_msg = paint 1 32 ''Recovery start!''"

definition print_player_state :: "dbl \<Rightarrow> int \<Rightarrow> string" where
  "print_player_state pos st =
     paint 27 47 (''Current player position: '' @ fmt_f 2 pos)
     @ paint 27 47 (if st = PLAYER_PAUSED then ''Player paused'' else if st = PLAYER_PLAYING then ''Player playing''
                    else ''Unknown state of player'')"

section \<open>The file of parameters\<close>

definition setting :: "string \<Rightarrow> string \<Rightarrow> string" where
  "setting name v = name @ '': '' @ v @ [CHR 0x0A]"

text \<open>\<open>write_args_to_file\<close>; a value that means nothing in the mode is written as -1.\<close>

definition write_args_to_file :: "proc \<Rightarrow> string \<Rightarrow> string" where
  "write_args_to_file p raw =
     (let c = conf p in
      setting ''Fixed Segment Mode'' (show_int (fixed_segment_mode c))
      @ setting ''Fixed Subsegment Mode'' (show_int (fixed_subsegment_mode c))
      @ setting ''Energy Saving Mode'' (show_int (minimum_energy_mode c))
      @ setting ''QoS(kbps)'' (show_int (if minimum_energy_mode c \<noteq> 0 then qos_kbps c else - 1))
      @ setting ''Number of Segments'' (show_int (if fixed_segment_mode c \<noteq> 0 then num_of_segments c else - 1))
      @ setting ''Segment Size(KB)'' (show_int (if fixed_segment_mode c \<noteq> 0 then fixed_segment_size_KB c else - 1))
      @ setting ''Initial Subsegment Rate'' (fmt_f 2 (of_ll (initial_chunk_rate c LTE) / of_ll (initial_chunk_rate c WIFI)))
      @ setting ''Initial Segment Size(KB)'' (show_int (init_seg_size (offset_info p) sdiv 1024))
      @ setting ''EWMA Factor'' (fmt_f 2 (ewma_factor c))
      @ setting ''BW Factor for Mode'' (fmt_f 2 (BW_factor_for_mode c))
      @ setting ''BW Factor for stage'' (fmt_f 2 (BW_factor_for_stage c))
      @ setting ''Recovery Mode'' (show_int (recovery_mode c))
      @ setting ''Recovery Decision Factor'' (fmt_f 2 (recovery_decision_factor c))
      @ setting ''Raw Argument'' raw)"

definition record_post_download_params :: "proc \<Rightarrow> dbl \<Rightarrow> string" where
  "record_post_download_params p now =
     setting ''File Download Time(sec)'' (fmt_f 2 (now - g_start_time p))
     @ setting ''Number of Recoveries'' (show_int (num_recoveries p))"

end
