(* ===== verification/Display_Theorems.thy ===== *)
theory Display_Theorems
  imports Display Samples
begin

text \<open>
  What the printed text says: a time reads back as the number of seconds, the progress bar has a bounded width, and
  the list of segments can be printed unless a connection points to a freed segment.
\<close>

section \<open>Times\<close>

text \<open>Reading a time: numbers between colons, each worth sixty of the next, up to the first other character.\<close>

fun clock_value :: "nat \<Rightarrow> nat \<Rightarrow> string \<Rightarrow> nat" where
  "clock_value t n [] = t * 60 + n"
| "clock_value t n (c # cs) =
     (if is_digit 10 c then clock_value t (n * 10 + the (digit_val c)) cs
      else if c = CHR '':'' then clock_value (t * 60 + n) 0 cs
      else t * 60 + n)"

lemma clock_value_show_nat: "clock_value t 0 (show_nat k @ rest) = clock_value t k rest"
proof (induction k arbitrary: rest rule: show_nat.induct)
  case (1 k)
  show ?case
  proof (cases "k < 10")
    case False
    then have "clock_value t 0 (show_nat k @ rest) = clock_value t (k div 10) (digit (k mod 10) # rest)"
      using 1 by (simp add: show_nat.simps [of k])
    also have "\<dots> = clock_value t k rest" by (simp add: is_digit_def)
    finally show ?thesis .
  qed (simp add: show_nat.simps [of k] is_digit_def)
qed

lemma clock_value_zeros: "clock_value t 0 (replicate m CHR ''0'' @ s) = clock_value t 0 s"
  by (induction m) (simp_all add: is_digit_def digit_val_def)

lemma clock_value_fields:
  "0 \<le> n \<Longrightarrow> clock_value t 0 (show_int n @ rest) = clock_value t (nat n) rest"
  "0 \<le> n \<Longrightarrow> clock_value t 0 (fmt_0d w n @ rest) = clock_value t (nat n) rest"
  by (simp_all add: show_int_nonneg fmt_0d_def pad_def clock_value_zeros clock_value_show_nat)

lemma clock_value_end:
  "clock_value t n ('' second'' @ s) = t * 60 + n"
  "clock_value t n ('' seconds'' @ s) = t * 60 + n"
  "clock_value t n (CHR '':'' # s) = clock_value (t * 60 + n) 0 s"
  by (simp_all add: is_digit_def digit_val_def)

declare clock_value.simps [simp del]

lemma sixty: "0 \<le> n \<Longrightarrow> nat (n div 60) * 60 + nat (n mod 60) = nat n"
  by (simp add: nat_div_distrib nat_mod_distrib)

text \<open>The time that \<open>time_human\<close> prints for a number of seconds, from one second to the largest \<open>int\<close>, reads back as
  that number, in each of its four forms.\<close>

theorem time_human_reads_back:
  assumes "0 \<le> n"
  shows "clock_value 0 0 (time_human n) = nat n"
proof -
  have "n div 3600 = n div 60 div 60" using zdiv_zmult2_eq [of 60 n 60] by simp
  then have h: "nat (n div 3600) * 60 + nat (n div 60 mod 60) = nat (n div 60)"
    using sixty [of "n div 60"] assms by simp
  consider "n = 1" | "n \<noteq> 1" "n < 60" | "60 \<le> n" "n < 3600" | "3600 \<le> n" by linarith
  then show ?thesis
  proof cases
    case 4
    have "0 \<le> n div 3600" "0 \<le> n div 60" using assms by (simp_all add: pos_imp_zdiv_nonneg_iff)
    moreover have "0 \<le> n div 60 mod 60" "0 \<le> n mod 60" by (rule pos_mod_sign, simp)+
    moreover have "time_human n = show_int (n div 3600) @ CHR '':'' # fmt_0d 2 (n div 60 mod 60)
        @ CHR '':'' # fmt_0d 2 (n mod 60) @ '' seconds'' @ []"
      using 4 assms \<open>0 \<le> n div 60\<close> by (simp add: time_human_def)
    ultimately have "clock_value 0 0 (time_human n)
        = (nat (n div 3600) * 60 + nat (n div 60 mod 60)) * 60 + nat (n mod 60)"
      by (simp only: clock_value_fields clock_value_end mult_0 add_0)
    then show ?thesis by (simp only: h sixty [OF assms])
  next
    case 3
    have "0 \<le> n div 60" using assms by (simp add: pos_imp_zdiv_nonneg_iff)
    moreover have "0 \<le> n mod 60" by simp
    moreover have "time_human n = show_int (n div 60) @ CHR '':'' # fmt_0d 2 (n mod 60) @ '' seconds'' @ []"
      using 3 assms by (simp add: time_human_def)
    ultimately have "clock_value 0 0 (time_human n) = nat (n div 60) * 60 + nat (n mod 60)"
      by (simp only: clock_value_fields clock_value_end mult_0 add_0)
    then show ?thesis by (simp only: sixty [OF assms])
  next
    case 2
    then have "time_human n = show_int n @ '' seconds'' @ []" by (simp add: time_human_def)
    then show ?thesis using assms by (simp only: clock_value_fields clock_value_end mult_0 add_0)
  next
    case 1
    then have "time_human n = show_int n @ '' second'' @ []" by (simp add: time_human_def)
    then show ?thesis using assms by (simp only: clock_value_fields clock_value_end mult_0 add_0)
  qed
qed

theorem time_human_reads_back_witness:
  "clock_value 0 0 (time_human 45296) = 45296 \<and> time_human 45296 = ''12:34:56 seconds''"
proof
  show "clock_value 0 0 (time_human 45296) = 45296" using time_human_reads_back [of 45296] by simp
  show "time_human 45296 = ''12:34:56 seconds''" by code_simp
qed

section \<open>The progress bar\<close>

lemma length_fill_chars: "int (length (fill_chars c r j)) = max 0 (\<lceil>r\<rceil> - j)"
proof (induction c r j rule: fill_chars.induct)
  case (1 c r j)
  show ?case
  proof (cases "of_int j < r")
    case True
    then have "j < \<lceil>r\<rceil>" by (simp add: less_ceiling_iff)
    with 1 True show ?thesis by (subst fill_chars.simps) simp
  next
    case False
    then have "\<lceil>r\<rceil> \<le> j" by (simp add: ceiling_le_iff)
    with False show ?thesis by (subst fill_chars.simps) simp
  qed
qed

lemma fill_bar_Fin:
  "fill_bar c (Fin r) (j, out) = Some (j', out') \<longleftrightarrow>
     j' = max j \<lceil>r\<rceil> \<and> out' = out @ fill_chars c r j"
  using length_fill_chars [of c r j] by (auto simp: fill_bar_def)

lemma column_Fin: "0 \<le> g_size p \<Longrightarrow> column p b = Fin (of_int b / of_int (g_size p + 1) * 50)"
  by (simp add: column_def of_ll_def)

lemma column_bound: "0 \<le> n \<Longrightarrow> b \<le> n \<Longrightarrow> of_int b / of_int (n + 1) * 50 < (50 :: rat)"
  by (simp add: divide_simps)

text \<open>The part of one connection: it ends at most one column after the start or after the fiftieth.\<close>

lemma bar_conn_columns:
  assumes "0 \<le> g_size p" "currentbyte (conn p k) \<le> g_size p" "lastbyte (conn p k) \<le> g_size p"
    and "int (length out) = j"
  shows "\<exists>j' out'. bar_conn p now k (j, out) = Some (j', out') \<and> int (length out') = j'
    \<and> j < j' \<and> j' \<le> max (j + 1) 50"
proof -
  let ?x = "of_int (currentbyte (conn p k)) / of_int (g_size p + 1) * 50 - 1 :: rat"
  let ?y = "of_int (lastbyte (conn p k)) / of_int (g_size p + 1) * 50 :: rat"
  have x: "\<lceil>?x\<rceil> \<le> 49" and y: "\<lceil>?y\<rceil> \<le> 50"
    using column_bound [OF assms(1,2)] column_bound [OF assms(1,3)] by (simp_all add: ceiling_le_iff)
  let ?o = "out @ fill_chars CHR ''.'' ?x j" and ?j = "max j \<lceil>?x\<rceil>"
  have o: "int (length ?o) = ?j" using length_fill_chars [of "CHR ''.''" ?x j] assms(4) by simp
  let ?m = "?o @ [conn_mark p now k]"
  have "bar_conn p now k (j, out) =
      Some (max (?j + 1) \<lceil>?y\<rceil>, ?m @ fill_chars CHR '' '' ?y (?j + 1))"
  proof -
    have "column p (currentbyte (conn p k)) - Fin 1 = Fin ?x" using assms(1) by (simp add: column_Fin)
    then have "fill_bar CHR ''.'' (column p (currentbyte (conn p k)) - Fin 1) (j, out) = Some (?j, ?o)"
      by (simp only: fill_bar_Fin)
    moreover have "fill_bar CHR '' '' (column p (lastbyte (conn p k))) (?j + 1, ?m) =
        Some (max (?j + 1) \<lceil>?y\<rceil>, ?m @ fill_chars CHR '' '' ?y (?j + 1))"
      using assms(1) by (simp only: column_Fin fill_bar_Fin)
    ultimately show ?thesis by (simp add: bar_conn_def)
  qed
  moreover have "int (length (?m @ fill_chars CHR '' '' ?y (?j + 1))) = max (?j + 1) \<lceil>?y\<rceil>"
    using o length_fill_chars [of "CHR '' ''" ?y "?j + 1"] by simp
  moreover have "a \<le> 49 \<Longrightarrow> b \<le> 50 \<Longrightarrow> j < max (max j a + 1) b \<and> max (max j a + 1) b \<le> max (j + 1) 50" for a b
    by auto
  from this [OF x y] have "j < max (?j + 1) \<lceil>?y\<rceil>" and "max (?j + 1) \<lceil>?y\<rceil> \<le> max (j + 1) 50" by blast+
  ultimately show ?thesis by blast
qed

lemma bar_columns:
  assumes "0 \<le> g_size p" "\<forall>k \<in> set ks. currentbyte (conn p k) \<le> g_size p \<and> lastbyte (conn p k) \<le> g_size p"
    and "int (length out) = j"
  shows "\<exists>j' out'. bar p now ks (j, out) = Some (j', out') \<and> int (length out') = j'
    \<and> j + int (length ks) \<le> j' \<and> j' \<le> max j 49 + int (length ks)"
  using assms(2,3)
proof (induction ks arbitrary: j out)
  case (Cons k ks)
  then obtain j1 out1 where 1: "bar_conn p now k (j, out) = Some (j1, out1)" "int (length out1) = j1"
    "j < j1" "j1 \<le> max (j + 1) 50" using bar_conn_columns [OF assms(1)] by force
  with Cons.IH [of out1 j1] Cons.prems(1) obtain j2 out2 where "bar p now ks (j1, out1) = Some (j2, out2)"
    "int (length out2) = j2" "j1 + int (length ks) \<le> j2" "j2 \<le> max j1 49 + int (length ks)" by auto
  with 1 show ?case by auto
qed simp

text \<open>While the positions of the connections are inside the file, the loops that draw the progress bar end, and with two
  connections the bar has at least two and at most 51 columns, one for each count of the loop.\<close>

theorem progress_bar_fits:
  assumes "0 \<le> g_size p" and "\<forall>k. currentbyte (conn p k) \<le> g_size p \<and> lastbyte (conn p k) \<le> g_size p"
  shows "\<exists>j columns. bar p now (conn_indices p) (0, []) = Some (j, columns) \<and> int (length columns) = j
    \<and> length (conn_indices p) \<le> length columns \<and> length columns \<le> 49 + length (conn_indices p)"
  using bar_columns [of p "conn_indices p" "[]" 0 now] assms by auto

theorem progress_bar_fits_witness:
  "\<exists>columns. bar sample (Fin 9) [LTE, WIFI] (0, []) = Some (int (length columns), columns)
    \<and> 2 \<le> length columns \<and> length columns \<le> 51"
proof -
  have "conn_indices sample = [LTE, WIFI]" by (simp add: conn_indices_def conn_ok_def sample_defs)
  with progress_bar_fits [of sample "Fin 9"] show ?thesis by (auto simp: sample_defs)
qed

text \<open>A file whose size is not known, counted as -1: the bar of a connection that has received a byte is never finished.\<close>

theorem progress_bar_unknown_size:
  assumes "g_size p = - 1" and "0 < currentbyte (conn p k)"
  shows "bar_conn p now k (j, out) = None"
proof -
  have "column p (currentbyte (conn p k)) - Fin 1 = PInf"
    using assms by (simp add: column_def of_ll_def dbl_inf_def)
  then show ?thesis by (simp only: bar_conn_def fill_bar_def prod.case dbl.case bind.simps)
qed

text \<open>The split of the remaining time adds up, and its parts are in range while time remains.\<close>

theorem split_time_adds_up:
  assumes "split_time t = (days, hours, minutes, seconds)"
  shows "((days * 24 + hours) * 60 + minutes) * 60 + seconds = t"
  using assms by (auto simp: split_time_def Let_def)

theorem split_time_in_range:
  assumes "split_time t = (days, hours, minutes, seconds)" and "0 \<le> t"
  shows "0 \<le> days \<and> hours \<in> {0..<24} \<and> minutes \<in> {0..<60} \<and> seconds \<in> {0..<60}"
proof -
  have "0 \<le> t div 60" "0 \<le> t div 60 div 60" "0 \<le> t div 60 div 60 div 24"
    using assms(2) by (simp_all add: pos_imp_zdiv_nonneg_iff)
  moreover have "a - a div b * b = a mod b" for a b :: int by (simp add: minus_div_mult_eq_mod)
  ultimately have "split_time t = (t div 60 div 60 div 24, t div 60 div 60 mod 24, t div 60 mod 60, t mod 60)"
    using assms(2) by (simp add: split_time_def Let_def)
  with assms(1) have "days = t div 60 div 60 div 24" "hours = t div 60 div 60 mod 24"
    "minutes = t div 60 mod 60" "seconds = t mod 60" by simp_all
  moreover have "a mod 24 \<in> {0..<24}" "a mod 60 \<in> {0..<60}" for a :: int by simp_all
  ultimately show ?thesis using \<open>0 \<le> t div 60 div 60 div 24\<close> by (simp only: simp_thms)
qed

section \<open>The list of segments\<close>

text \<open>The list is printed in full unless a connection points to a segment that was freed.\<close>

lemma foldR_append_Inr:
  "(\<And>k. k \<in> set ks \<Longrightarrow> \<exists>s. g k = Inr s) \<Longrightarrow> \<exists>t. foldR (\<lambda>k out. bindR (g k) (\<lambda>s. Inr (out @ s))) ks out = Inr (out @ t)"
proof (induction ks arbitrary: out)
  case (Cons k ks)
  from Cons.prems [of k] obtain s where s: "g k = Inr s" by auto
  have "\<exists>t. foldR (\<lambda>k out. bindR (g k) (\<lambda>s. Inr (out @ s))) ks (out @ s) = Inr ((out @ s) @ t)"
    using Cons.prems by (intro Cons.IH) simp
  then show ?case using s by auto
qed simp

theorem display_prints_segments:
  assumes "\<And>k q. connection (offset_info p) k = Some q \<Longrightarrow> \<exists>s. seg_at (offset_info p) q = Inr s"
  shows "\<exists>positions. display_offset_info p cur =
    Inr (concat (map (print_segment (conn_indices p)) (segs (offset_info p))) @ positions)"
proof -
  let ?g = "\<lambda>k. if connection (offset_info p) k = None then Inr [] else print_conn_pos p cur k"
  have "\<exists>s. ?g k = Inr s" for k
    using assms [of k] by (cases "connection (offset_info p) k") (auto simp: print_conn_pos_def seg_deref_def)
  then have "\<exists>t. foldR (\<lambda>k out. bindR (?g k) (\<lambda>s. Inr (out @ s))) (conn_indices p) out = Inr (out @ t)" for out
    by (rule foldR_append_Inr)
  moreover have "(\<lambda>k out. bindR (?g k) (\<lambda>s. Inr (out @ s))) = (\<lambda>k out. if connection (offset_info p) k = None then Inr out
      else bindR (print_conn_pos p cur k) (\<lambda>s. Inr (out @ s)))"
    by (auto simp: fun_eq_iff)
  ultimately show ?thesis unfolding display_offset_info_def Let_def by metis
qed

theorem display_stale_connection:
  assumes "conn_ok p LTE" and "connection (offset_info p) LTE = Some q" and "seg_at (offset_info p) q = Inl UseAfterFree"
  shows "display_offset_info p cur = Inl UseAfterFree"
  using assms by (simp add: display_offset_info_def conn_indices_def print_conn_pos_def seg_deref_def)

end
