(* ===== verification/Probes.thy ===== *)
theory Probes
  imports Sockets Monitor
begin

text \<open>
  The threads of \<^verbatim>\<open>periodic_tasks.c\<close> that look at the connections from outside: \<open>update_rtt\<close>, which keeps a connection of its
  own to the server per link and sends a probe over it in every turn, and \<open>measure_rtt\<close>, which only asks the kernel; the
  heads of the logs; and the functions of \<^verbatim>\<open>util.c\<close> that ask the kernel for interfaces. Both threads are switched off in
  \<^verbatim>\<open>config.h\<close>.
\<close>

section \<open>Probes (\<open>update_rtt\<close>)\<close>

text \<open>
  A turn: which connections are enabled, what \<open>send\<close> on a descriptor returns, what \<open>tcp_connect\<close> returns for a link if
  it is called, the descriptors of the download's own connections, and the kernel's figures for a descriptor.
  The state is the set of open descriptors of the thread and its array \<open>rtt_meas_conn\<close>.
\<close>

record probe_turn =
  p_enabled :: "link \<Rightarrow> bool"
  p_send :: "int \<Rightarrow> int"
  p_reconnect :: "link \<Rightarrow> int"
  p_fd :: "link \<Rightarrow> int"
  p_tcp_info :: "int \<Rightarrow> (int \<times> int) option"

type_synonym probes = "int set \<times> (link \<Rightarrow> int)"

text \<open>\<open>Close\<close> ends the program when \<open>close\<close> fails, as it does for a descriptor that is not open.\<close>

definition close_probe :: "int \<Rightarrow> int set \<Rightarrow> int set res" where
  "close_probe n fds = bindR (Close (if n \<in> fds then 0 else - 1)) (\<lambda>_. Inr (fds - {n}))"

definition opened :: "int \<Rightarrow> int set \<Rightarrow> int set" where
  "opened n fds = (if n = - 1 then fds else insert n fds)"

definition connect_probe :: "(link \<Rightarrow> int) \<Rightarrow> link \<Rightarrow> probes \<Rightarrow> probes" where
  "connect_probe answers k = (\<lambda>(fds, meas). (opened (answers k) fds, meas(k := answers k)))"

definition send_probe :: "probe_turn \<Rightarrow> link \<Rightarrow> probes \<Rightarrow> probes res" where
  "send_probe T k = (\<lambda>(fds, meas).
     if p_enabled T k \<and> meas k \<noteq> 0 then
       (if p_send T (meas k) < 0
        then bindR (close_probe (meas k) fds) (\<lambda>fds'. Inr (connect_probe (p_reconnect T) k (fds', meas)))
        else Inr (fds, meas))
     else Inr (fds, meas))"

text \<open>What the thread writes into the connections; in milliseconds.\<close>

definition update_conn_rtt :: "link list \<Rightarrow> probe_turn \<Rightarrow> (link \<Rightarrow> dbl \<times> dbl) \<Rightarrow> (link \<Rightarrow> dbl \<times> dbl)" where
  "update_conn_rtt ks T rtt = (\<lambda>k.
     if k \<in> set ks \<and> p_enabled T k \<and> p_fd T k \<noteq> 0 then
       (case p_tcp_info T (p_fd T k) of
          None \<Rightarrow> rtt k
        | Some (r, v) \<Rightarrow> (of_ll r / Fin 1000, of_ll v / Fin 1000))
     else rtt k)"

text \<open>The turns until \<open>gb\<close> is gone or finished, then the end, where every connection is closed.\<close>

fun probe_loop :: "link list \<Rightarrow> probe_turn list \<Rightarrow> probes \<times> (link \<Rightarrow> dbl \<times> dbl) \<Rightarrow> (probes \<times> (link \<Rightarrow> dbl \<times> dbl)) res" where
  "probe_loop ks [] st = Inr st"
| "probe_loop ks (T # Ts) (s, rtt) =
     bindR (foldR (send_probe T) ks s) (\<lambda>s1. probe_loop ks Ts (s1, update_conn_rtt ks T rtt))"

definition update_rtt :: "link list \<Rightarrow> (link \<Rightarrow> int) \<Rightarrow> probe_turn list \<Rightarrow> int set \<Rightarrow> (link \<Rightarrow> dbl \<times> dbl) \<Rightarrow>
    (int set \<times> (link \<Rightarrow> dbl \<times> dbl)) res" where
  "update_rtt ks answers Ts fds rtt =
     bindR (probe_loop ks Ts (fold (connect_probe answers) ks (fds, \<lambda>_. 0), rtt)) (\<lambda>((fds1, meas), rtt1).
     bindR (foldR (\<lambda>k f. close_probe (meas k) f) ks fds1) (\<lambda>fds2. Inr (fds2, rtt1)))"

section \<open>The logs\<close>

definition open_goodput_log :: "link list \<Rightarrow> string" where
  "open_goodput_log ks = ''Time(s)'' @ concat (map (\<lambda>k. CHR 0x09 # ''Goodput['' @ show_int (idx k) @ ''](Mbps)'') ks) @ [CHR 0x0A]"

definition open_rtt_log :: "link list \<Rightarrow> string" where
  "open_rtt_log ks = ''Time(s)'' @ concat (map (\<lambda>k. CHR 0x09 # ''RTT['' @ show_int (idx k) @ ''](ms)''
     @ CHR 0x09 # ''RTT Dev['' @ show_int (idx k) @ ''](ms)'') ks) @ [CHR 0x0A]"

text \<open>\<open>measure_rtt\<close>: a line per turn, with the time since the start of the download.\<close>

definition measure_rtt :: "link list \<Rightarrow> dbl \<Rightarrow> (dbl \<times> probe_turn) list \<Rightarrow> (dbl \<times> (dbl \<times> dbl) option list) list" where
  "measure_rtt ks gb_start turns =
     map (\<lambda>(now, T). (now - gb_start, rtt_row ks (p_enabled T) (p_fd T) (p_tcp_info T))) turns"

text \<open>The state in which \<open>log_goodput\<close> starts.\<close>

definition goodput_begin :: "dbl \<times> (link \<Rightarrow> int)" where
  "goodput_begin = (0, \<lambda>_. 0)"

section \<open>Interfaces\<close>

text \<open>
  \<open>get_if_ip\<close>: the name is copied into an array of 16 characters; \<open>addr\<close> is what the kernel knows. The result is what is
  returned, and the text if it is written. The descriptor stays open.
\<close>

definition IFNAMSIZ :: nat where "IFNAMSIZ = 16"

definition get_if_ip :: "(string \<Rightarrow> string option) \<Rightarrow> string \<Rightarrow> (int \<times> string option) res" where
  "get_if_ip addr iface =
     (if length iface \<ge> IFNAMSIZ then Inl OutOfBounds
      else Inr (case addr iface of Some ip \<Rightarrow> (1, Some ip) | None \<Rightarrow> (0, None)))"

text \<open>\<open>get_ip_dev\<close> does not look at the answer, and terminates only names shorter than the 15 characters it copies.\<close>

definition get_ip_dev :: "(string \<Rightarrow> string option) \<Rightarrow> string \<Rightarrow> string res" where
  "get_ip_dev addr dev =
     (if length dev \<ge> IFNAMSIZ - 1 then Inl Uninit
      else case addr dev of None \<Rightarrow> Inl Uninit | Some ip \<Rightarrow> Inr ip)"

text \<open>
  \<open>get_online_if\<close>: the names that fit into 2048 bytes, 40 for each; when the kernel cannot say, one name that
  was never set (\<open>None\<close>).
\<close>

definition get_online_if :: "string list option \<Rightarrow> string option list" where
  "get_online_if names = (case names of None \<Rightarrow> [None] | Some ns \<Rightarrow> map Some (take (2048 div 40) ns))"

end
