(* ===== verification/Probe_Theorems.thy ===== *)
theory Probe_Theorems
  imports Probes
begin

text \<open>
  What becomes of the probing thread when a connection fails, and of the shared position of the player.
\<close>

section \<open>Probes\<close>

text \<open>A link without a connection: the array has -1, which is no descriptor.\<close>

definition lost :: "link \<Rightarrow> probes \<Rightarrow> bool" where
  "lost k s \<longleftrightarrow> snd s k = - 1 \<and> - 1 \<notin> fst s"

lemma close_probe_Inr [simp]: "close_probe n fds = Inr fds' \<longleftrightarrow> n \<in> fds \<and> fds' = fds - {n}"
  by (auto simp: close_probe_def Close_def checked_def)

lemma close_probe_cases: "close_probe n fds = (if n \<in> fds then Inr (fds - {n}) else Inl (Exit 3))"
  by (simp add: close_probe_def Close_def checked_def)

lemma send_probe_lost:
  assumes "lost k s"
  shows "send_probe T l s = Inl (Exit 3) \<or> (\<exists>s'. send_probe T l s = Inr s' \<and> lost k s')"
proof -
  obtain fds meas where s: "s = (fds, meas)" by (cases s)
  with assms show ?thesis
    by (cases "l = k") (auto simp: send_probe_def lost_def close_probe_cases connect_probe_def opened_def)
qed

lemma foldR_lost:
  assumes "\<And>x s. lost k s \<Longrightarrow> g x s = Inl e \<or> (\<exists>s'. g x s = Inr s' \<and> lost k s')" and "lost k s"
  shows "foldR g xs s = Inl e \<or> (\<exists>s'. foldR g xs s = Inr s' \<and> lost k s')"
  using assms(2)
proof (induction xs arbitrary: s)
  case (Cons x xs)
  from assms(1) [OF Cons.prems, of x] show ?case
  proof
    assume "\<exists>s'. g x s = Inr s' \<and> lost k s'"
    then obtain s' where s': "g x s = Inr s'" "lost k s'" by blast
    with Cons.IH [OF s'(2)] show ?thesis by simp
  qed simp
qed simp

lemma probe_loop_lost:
  "lost k s \<Longrightarrow> probe_loop ks Ts (s, rtt) = Inl (Exit 3) \<or> (\<exists>s' r. probe_loop ks Ts (s, rtt) = Inr (s', r) \<and> lost k s')"
proof (induction Ts arbitrary: s rtt)
  case (Cons T Ts)
  from foldR_lost [where g = "send_probe T" and xs = ks, OF send_probe_lost Cons.prems] show ?case
  proof
    assume "\<exists>s'. foldR (send_probe T) ks s = Inr s' \<and> lost k s'"
    then obtain s' where s': "foldR (send_probe T) ks s = Inr s'" "lost k s'" by blast
    with Cons.IH [OF s'(2), of "update_conn_rtt ks T rtt"] show ?thesis by simp
  next
    assume "foldR (send_probe T) ks s = Inl (Exit 3)"
    then show ?thesis by simp
  qed
qed simp

lemma close_all_lost:
  "k \<in> set ks \<Longrightarrow> meas k = - 1 \<Longrightarrow> - 1 \<notin> fds \<Longrightarrow> foldR (\<lambda>k f. close_probe (meas k) f) ks fds = Inl (Exit 3)"
  by (induction ks arbitrary: fds) (auto simp: close_probe_cases)

lemma connect_probes:
  "- 1 \<notin> fds \<Longrightarrow> - 1 \<notin> fst (fold (connect_probe answers) ks (fds, meas))
    \<and> snd (fold (connect_probe answers) ks (fds, meas)) = (\<lambda>k. if k \<in> set ks then answers k else meas k)"
  by (induction ks arbitrary: fds meas) (auto simp: connect_probe_def opened_def fun_eq_iff)

text \<open>C34: If one of the connections for probes cannot be made, the thread never ends but by ending the program: whatever happens in its
  turns, the descriptor -1 is closed at the next failed probe or at the end, and \<open>Close\<close> exits.\<close>

theorem failed_probe_connection_exits:
  assumes "k \<in> set ks" and "answers k = - 1" and "- 1 \<notin> fds"
  shows "update_rtt ks answers Ts fds rtt = Inl (Exit 3)"
proof -
  let ?s = "fold (connect_probe answers) ks (fds, \<lambda>_. 0)"
  have "lost k ?s" using connect_probes [OF assms(3), of answers ks "\<lambda>_. 0"] assms(1,2) by (simp add: lost_def)
  from probe_loop_lost [OF this, of ks Ts rtt] show ?thesis
  proof
    assume "probe_loop ks Ts (?s, rtt) = Inl (Exit 3)"
    then show ?thesis by (simp add: update_rtt_def)
  next
    assume "\<exists>s' r. probe_loop ks Ts (?s, rtt) = Inr (s', r) \<and> lost k s'"
    then obtain fds1 meas r where "probe_loop ks Ts (?s, rtt) = Inr ((fds1, meas), r)" "meas k = - 1" "- 1 \<notin> fds1"
      by (auto simp: lost_def)
    then show ?thesis using close_all_lost [of k ks meas fds1] assms(1) by (simp add: update_rtt_def)
  qed
qed

theorem failed_probe_connection_exits_witness:
  "update_rtt [LTE, WIFI] (\<lambda>k. if k = LTE then 7 else - 1) [] {0, 1, 2} (\<lambda>_. (0, 0)) = Inl (Exit 3)"
  by (rule failed_probe_connection_exits [of WIFI]) simp_all

text \<open>A connection that is lost in a turn and cannot be made again has the same end.\<close>

theorem failed_reconnection_is_lost:
  assumes "p_enabled T k" "meas k \<noteq> 0" "p_send T (meas k) < 0" "meas k \<in> fds" "p_reconnect T k = - 1" "- 1 \<notin> fds"
  shows "\<exists>s. send_probe T k (fds, meas) = Inr s \<and> lost k s"
  using assms by (auto simp: send_probe_def close_probe_cases connect_probe_def opened_def lost_def)

text \<open>While no connection fails the thread ends with the descriptors it began with.\<close>

lemma close_all:
  "distinct (map meas ks) \<Longrightarrow> meas ` set ks \<subseteq> fds \<Longrightarrow>
    foldR (\<lambda>k f. close_probe (meas k) f) ks fds = Inr (fds - meas ` set ks)"
proof (induction ks arbitrary: fds)
  case (Cons k ks)
  then have "foldR (\<lambda>k f. close_probe (meas k) f) ks (fds - {meas k}) = Inr (fds - {meas k} - meas ` set ks)"
    by (intro Cons.IH) (auto simp: image_iff)
  moreover have "fds - {meas k} - meas ` set ks = fds - meas ` set (k # ks)" by auto
  ultimately show ?case using Cons.prems(2) by (simp add: close_probe_cases)
qed simp

lemma probe_loop_quiet:
  "\<forall>T \<in> set Ts. \<forall>n. 0 \<le> p_send T n \<Longrightarrow> \<exists>r. probe_loop ks Ts (s, rtt) = Inr (s, r)"
proof (induction Ts arbitrary: rtt)
  case (Cons T Ts)
  have "\<not> p_send T n < 0" for n using Cons.prems by (simp add: not_less)
  then have "send_probe T k s = Inr s" for k by (cases s) (simp add: send_probe_def)
  then have "foldR (send_probe T) ks s = Inr s" by (induction ks) simp_all
  with Cons show ?case by simp
qed simp

theorem quiet_probes_closed:
  assumes "\<forall>T \<in> set Ts. \<forall>n. 0 \<le> p_send T n" and "distinct (map answers ks)"
    and "\<forall>k \<in> set ks. 0 \<le> answers k \<and> answers k \<notin> fds" and "- 1 \<notin> fds"
  shows "\<exists>r. update_rtt ks answers Ts fds rtt = Inr (fds, r)"
proof -
  have c: "fold (connect_probe answers) js (f, m) =
      (f \<union> answers ` set js, \<lambda>k. if k \<in> set js then answers k else m k)" if "set js \<subseteq> set ks" for js f m
    using that assms(3)
    by (induction js arbitrary: f m) (auto simp: connect_probe_def opened_def fun_eq_iff)
  let ?meas = "\<lambda>k. if k \<in> set ks then answers k else 0"
  obtain r where "probe_loop ks Ts ((fds \<union> answers ` set ks, ?meas), rtt) = Inr ((fds \<union> answers ` set ks, ?meas), r)"
    using probe_loop_quiet [OF assms(1)] by blast
  moreover have m: "map ?meas ks = map answers ks" "?meas ` set ks = answers ` set ks" by auto
  have "foldR (\<lambda>k f. close_probe (?meas k) f) ks (fds \<union> answers ` set ks) = Inr (fds \<union> answers ` set ks - answers ` set ks)"
    using close_all [of ?meas ks "fds \<union> answers ` set ks"] assms(2) unfolding m by simp
  moreover have "fds \<union> answers ` set ks - answers ` set ks = fds" using assms(3) by auto
  ultimately show ?thesis using c [of ks fds "\<lambda>_. 0"] by (simp add: update_rtt_def)
qed

section \<open>The round-trip log\<close>

text \<open>A line has a cell for each connection that has no figures to ask for and for each whose figures the kernel gives; where it fails
  to, nothing is written and the cells after it move to the left, under the wrong heading.\<close>

theorem rtt_row_shifts:
  assumes "on LTE" "fd LTE \<noteq> 0" "info (fd LTE) = None" "on WIFI" "fd WIFI \<noteq> 0" "info (fd WIFI) = Some (r, v)"
  shows "rtt_row [LTE, WIFI] on fd info = [Some (of_ll r / Fin 1000, of_ll v / Fin 1000)]"
  using assms by (simp add: rtt_row_def)

section \<open>The position of the player\<close>

text \<open>A reader that opens the shared file once the writer has set it up reads, after any number of stores, the last number stored.\<close>

theorem position_is_last_recorded:
  assumes "open_cur_player_pos_file True True True x file = (m, f)"
  shows "\<exists>g. foldR (record_cur_player_pos m) xs f = Inr g
    \<and> read_cur_player_pos (open_cur_player_pos f) g = Inr (if xs = [] then x else List.last xs)"
proof -
  have "\<exists>g. foldR (record_cur_player_pos Mapped) xs (Some \<lparr>pf_size = 8, pf_value = y\<rparr>) = Inr g
      \<and> g = Some \<lparr>pf_size = 8, pf_value = (if xs = [] then y else List.last xs)\<rparr>" for y
    by (induction xs arbitrary: y) (auto simp: record_cur_player_pos_def)
  from this [of x] show ?thesis using assms
    by (auto simp: open_cur_player_pos_file_def open_cur_player_pos_def read_cur_player_pos_def DOUBLE_SIZE_def)
qed

text \<open>A reader that comes first, when the file is not there or empty, dies at its first reading, whatever is written since.\<close>

theorem position_read_too_early:
  assumes "file = None \<or> (\<exists>f. file = Some f \<and> pf_size f = 0)"
  shows "read_cur_player_pos (open_cur_player_pos file) later = Inl NullDeref"
  using assms by (auto simp: open_cur_player_pos_def read_cur_player_pos_def)

section \<open>Interfaces\<close>

text \<open>When the kernel cannot list the interfaces, one is reported whose name was never set.\<close>

theorem online_interfaces_unset: "length (get_online_if None) = 1 \<and> get_online_if None = [None]"
  by (simp add: get_online_if_def)

theorem get_if_ip_bounds:
  "(\<exists>r. get_if_ip addr iface = Inr r) \<longleftrightarrow> length iface < IFNAMSIZ"
  by (simp add: get_if_ip_def)

end
