(* ===== verification/Serving.thy ===== *)
theory Serving
  imports Proxy Download
begin

text \<open>
  The whole of \<open>send_remote_file\<close> (\<^verbatim>\<open>ahttpd.c\<close>) around the loop of \<open>Proxy\<close>: waiting until the downloading thread has the first
  bytes, the header, the loop, and the end, where the download is stopped and its file removed.
\<close>

text \<open>
  The wait: what is seen each time the loop looks, \<open>None\<close> when there is no \<open>gb\<close> yet, otherwise its
  \<open>last_downloaded_byte\<close>. (The test \<open>gb->filename == NULL\<close> has no case: \<open>filename\<close> is an array inside the struct.) It gives up at the 101st look; \<open>None\<close> as the result: still waiting.
\<close>

definition TIMEOUT_WAIT_COUNT :: nat where "TIMEOUT_WAIT_COUNT = 100"

fun wait_for_data :: "nat \<Rightarrow> int option list \<Rightarrow> bool option" where
  "wait_for_data wait_count [] = None"
| "wait_for_data wait_count (g # gs) =
     (if (case g of None \<Rightarrow> False | Some n \<Rightarrow> 0 < n) then Some True
      else if wait_count \<ge> TIMEOUT_WAIT_COUNT then Some False
      else wait_for_data (wait_count + 1) gs)"

text \<open>
  The end: \<open>gb\<close> is asserted to be there, told to stop, waited for, and its file is removed. The result is the
  state that the downloading thread goes on from and the name of the removed file.
\<close>

definition stop_download :: "proc option \<Rightarrow> (proc \<times> string) res" where
  "stop_download gb = (case gb of
      None \<Rightarrow> Inl AssertFail
    | Some p \<Rightarrow> Inr (p\<lparr>run := False, finish := True\<rparr>, filename p))"

datatype service = TimedOut string | Served string proc string

text \<open>
  \<open>first\<close> is \<open>gb\<close> when the wait is over, \<open>final\<close> at the end of the loop; \<open>open_ok\<close>: the file can be opened.
\<close>

definition serve_remote :: "int option list \<Rightarrow> proc \<Rightarrow> bool \<Rightarrow> round list \<Rightarrow> proc option \<Rightarrow> string \<Rightarrow> service res option" where
  "serve_remote looks first open_ok rounds final version =
     (case wait_for_data 0 looks of
        None \<Rightarrow> None
      | Some False \<Rightarrow> Some (Inr (TimedOut (not_found version)))
      | Some True \<Rightarrow> Some (
          if \<not> open_ok then Inl (Exit 3)
          else bindR (send_file_headers (filename first) (g_size first)) (\<lambda>h.
               bindR (send_remote_file (g_size first) rounds start_serving) (\<lambda>s.
               bindR (stop_download final) (\<lambda>(q, removed).
                 Inr (Served (h @ delivered s) q removed))))))"

end
