(* ===== verification/Serving_Theorems.thy ===== *)
theory Serving_Theorems
  imports Serving Prefix_Laws Samples
begin

text \<open>
  What the player is sent in all, and what becomes of the download when it has been sent.
\<close>

lemma wait_for_data_timeout:
  "\<forall>g \<in> set gs. g = None \<or> (\<exists>n. g = Some n \<and> n \<le> 0) \<Longrightarrow> wait_count \<le> TIMEOUT_WAIT_COUNT \<Longrightarrow>
    wait_for_data wait_count gs = (if length gs + wait_count \<le> TIMEOUT_WAIT_COUNT then None else Some False)"
  by (induction wait_count gs rule: wait_for_data.induct) (auto split: option.splits)

text \<open>Without data the wait is over at the 101st look; the player is told that there is no such file, and the download is
  left running.\<close>

theorem wait_times_out:
  assumes "\<forall>g \<in> set looks. g = None \<or> (\<exists>n. g = Some n \<and> n \<le> 0)" and "100 < length looks"
  shows "serve_remote looks first open_ok rounds final version = Some (Inr (TimedOut (not_found version)))"
  using wait_for_data_timeout [OF assms(1), of 0] assms(2) by (simp add: serve_remote_def TIMEOUT_WAIT_COUNT_def)

theorem served_without_gb:
  assumes "serve_remote looks first open_ok rounds None version = Some (Inr r)"
  shows "r = TimedOut (not_found version)"
  using assms by (auto simp: serve_remote_def stop_download_def bindR_eq_Inr split: option.splits bool.splits if_splits)

text \<open>When a remote file has been served, the player has been sent the header for the file's type and size and then
  the bytes from the start of the file in order; the downloading thread is told to stop and takes no more turns, whatever it
  meets; and the file that is removed is its own. The conditions are those of the loop.\<close>

theorem served_then_stopped:
  assumes "serve_remote looks first open_ok rounds (Some p) version = Some (Inr (Served text q removed))"
    and "\<forall>r \<in> set rounds. mark_grows (g_size first) r \<and> full_send r"
  shows "\<exists>h body. send_file_headers (filename first) (g_size first) = Inr h \<and> text = h @ body
    \<and> (\<forall>x < length body. \<exists>r \<in> set rounds. read_at r x (body ! x))
    \<and> removed = filename p \<and> finish q \<and> (\<forall>E. run_loop 0 E q = Some (update_last_downloaded_byte q))"
proof -
  from assms(1) obtain h s where h: "send_file_headers (filename first) (g_size first) = Inr h"
    and s: "send_remote_file (g_size first) rounds start_serving = Inr s" and t: "text = h @ delivered s"
    and q: "q = p\<lparr>run := False, finish := True\<rparr>" "removed = filename p"
    by (auto simp: serve_remote_def stop_download_def bindR_eq_Inr split: option.splits bool.splits if_splits)
  have "\<forall>x < length (delivered s). \<exists>r \<in> set rounds. read_at r x (delivered s ! x)"
    using send_remote_file_serves [OF assms(2) subset_refl start_serves s] by (simp add: serves_def)
  then show ?thesis using h t q by (intro exI [of _ h] exI [of _ "delivered s"]) (auto simp: run_loop.simps)
qed

definition two_rounds :: "round list" where
  "two_rounds = [\<lparr>ld = (2, 2, 2, 3), contents = store Map.empty 0 ''ab'', got = 5, sent = 128, freed = False\<rparr>,
     \<lparr>ld = (3, 3, 3, 3), contents = store Map.empty 0 ''abc'', got = 5, sent = 128, freed = False\<rparr>]"

theorem served_then_stopped_witness:
  "\<exists>h body q. serve_remote [None, Some 0, Some 2] (sample\<lparr>g_size := 3\<rparr>) True two_rounds (Some sample) ''HTTP/1.1''
      = Some (Inr (Served (h @ body) q ''a.mp4'')) \<and> (\<forall>E. run_loop 0 E q = Some (update_last_downloaded_byte q))"
proof -
  let ?q = "sample\<lparr>run := False, finish := True\<rparr>"
  obtain h where h: "send_file_headers ''a.mp4'' 3 = Inr h"
    by (simp add: send_file_headers_def strrchr_def content_type_of_def mime_types_def file_exts_def SERVER_STRING_def
        show_int_def show_nat.simps Let_def)
  obtain s where s: "send_remote_file 3 two_rounds start_serving = Inr s"
    by (simp add: two_rounds_def serve_round_def start_serving_def BUF_FILE_BUF_SIZE_def to_int_def)
  have r: "serve_remote [None, Some 0, Some 2] (sample\<lparr>g_size := 3\<rparr>) True two_rounds (Some sample) ''HTTP/1.1''
      = Some (Inr (Served (h @ delivered s) ?q ''a.mp4''))"
    using h s by (simp add: serve_remote_def stop_download_def TIMEOUT_WAIT_COUNT_def sample_def)
  have "\<forall>r \<in> set two_rounds. mark_grows (g_size (sample\<lparr>g_size := 3\<rparr>)) r \<and> full_send r"
    by (simp add: two_rounds_def mark_grows_def full_send_def BUF_FILE_BUF_SIZE_def)
  from served_then_stopped [OF r this] have "\<forall>E. run_loop 0 E ?q = Some (update_last_downloaded_byte ?q)" by blast
  with r show ?thesis by blast
qed

end
