(* ===== verification/Wakeups.thy ===== *)
theory Wakeups
  imports Monitor
begin

text \<open>
  The threads of \<^verbatim>\<open>periodic_tasks.c\<close> as they wake each other: \<open>initiate_periodic_tasks\<close> signals a condition variable
  per task every interval, each task waits for its own in every turn, and \<open>gb_process\<close> waits for the tasks before it frees
  \<open>gb\<close>. What a task does in a turn is in \<open>Monitor\<close> and \<open>Probes\<close>; here it matters that it reads \<open>gb\<close>.
\<close>

section \<open>State\<close>

datatype task = Update_rtt | Measure_rtt | Log_goodput | Log_goodput_to_client | Log_fps

text \<open>
  Where a task is: not there, before its loop, at the test of its loop, between the test and the wait, in \<open>pthread_cond_wait\<close>,
  woken and at work, ended but not joined yet.
\<close>

datatype phase = Absent | Opening | Testing | Entering | Waiting | Working | Done

text \<open>
  Where \<open>initiate_periodic_tasks\<close> is: at its test, in \<open>usleep\<close>, at the signals it still has to send in this round, or ended.
\<close>

datatype ticker = Tick_test | Tick_sleep | Tick_signal "task list" | Tick_over

text \<open>
  Where \<open>gb_process\<close> is: no session, creating threads, in the loop of the download, waiting for the tasks that are left to
  join, between \<open>gb_close\<close> and \<open>gb = NULL\<close>, or the program is at its end.
\<close>

datatype thread = Monitoring task | Ticking

datatype session = Idle | Starting "thread list" | Loading | Joining "task list" | Closed | Crashed err

text \<open>
  \<open>gb\<close> is the pointer as the threads see it, with its \<open>finish\<close>; it dangles while the session is \<open>Closed\<close>. A session leaves its
  ticker to itself, so there may be several; \<open>counter\<close> is a static variable they share. \<open>serving\<close> counts the requests
  (\<open>send_remote_file\<close>) that started a session and have not told it to stop yet; they read \<open>gb\<close> as well. \<open>lost_probe\<close>: the array
  \<open>rtt_meas_conn\<close> of \<open>update_rtt\<close> has a \<open>-1\<close>, a connection that could not be made.
\<close>

record wake =
  tasks :: "task \<Rightarrow> phase"
  tickers :: "ticker list"
  counter :: int
  session :: session
  gb_ptr :: gb_life
  serving :: nat
  lost_probe :: bool

definition no_session :: wake where
  "no_session = \<lparr>tasks = (\<lambda>_. Absent), tickers = [], counter = 0, session = Idle, gb_ptr = Gone, serving = 0,
     lost_probe = False\<rparr>"

section \<open>Configuration\<close>

text \<open>Which tasks are compiled in (the \<open>ENABLE_\<close> constants of \<^verbatim>\<open>config.h\<close>), and what the repository has.\<close>

definition shipped :: "task \<Rightarrow> bool" where "shipped = (\<lambda>_. False)"

definition SEND_PROBE_MULTIPLIER :: int where "SEND_PROBE_MULTIPLIER = 10"

definition measured :: "(task \<Rightarrow> bool) \<Rightarrow> task list" where
  "measured on = filter on [Update_rtt, Measure_rtt, Log_goodput, Log_goodput_to_client]"

definition creations :: "(task \<Rightarrow> bool) \<Rightarrow> thread list" where
  "creations on = map Monitoring (filter on [Update_rtt, Measure_rtt, Log_goodput])
     @ Ticking # map Monitoring (filter on [Log_goodput_to_client])"

definition signals :: "(task \<Rightarrow> bool) \<Rightarrow> int \<Rightarrow> task list" where
  "signals on n = filter (\<lambda>t. t = Update_rtt \<and> on t \<and> n mod SEND_PROBE_MULTIPLIER = 0
       \<or> t \<in> {Measure_rtt, Log_goodput, Log_goodput_to_client} \<and> on t
       \<or> t = Log_fps \<and> n mod LOG_FPS_MULTIPLIER = 0)
     [Update_rtt, Measure_rtt, Log_goodput, Log_goodput_to_client, Log_fps]"

section \<open>Turns\<close>

definition crash :: "err \<Rightarrow> wake \<Rightarrow> wake" where
  "crash e s = s\<lparr>session := Crashed e\<rparr>"

definition set_phase :: "task \<Rightarrow> phase \<Rightarrow> wake \<Rightarrow> wake" where
  "set_phase t p s = s\<lparr>tasks := (tasks s)(t := p)\<rparr>"

text \<open>A read of a member of \<open>gb\<close>.\<close>

definition reading_gb :: "wake \<Rightarrow> wake \<Rightarrow> wake" where
  "reading_gb s s' =
     (if gb_ptr s = Gone then crash NullDeref s else if session s = Closed then crash UseAfterFree s else s')"

text \<open>
  What the system answers a thread in a move: all is well; its log cannot be opened, or a connection of \<open>update_rtt\<close> cannot be made or
  made again (\<open>Fails\<close>); the \<open>local_if\<close> that \<open>update_rtt\<close> looks for is still empty (\<open>Not_yet\<close>); a probe goes over a connection that is
  lost (\<open>Bad_fd\<close>).
\<close>

datatype answer = Fine | Fails | Not_yet | Bad_fd

text \<open>
  Before its loop \<open>update_rtt\<close> waits for \<open>gb\<close> and then, connection by connection, until \<open>local_if\<close> is set, which it looks at every half
  second without asking whether \<open>finish\<close> is set; then it connects. The other tasks read \<open>gb\<close> and open their logs; only
  \<open>log_goodput_to_client\<close> goes without one when it cannot be opened.
\<close>

definition open_task :: "answer \<Rightarrow> task \<Rightarrow> wake \<Rightarrow> wake" where
  "open_task a t s =
     (if t = Update_rtt then
        (if gb_ptr s = Gone then s
         else reading_gb s (if a = Not_yet then s else set_phase t Testing (s\<lparr>lost_probe := (a = Fails)\<rparr>)))
      else reading_gb s
        (if a \<noteq> Fails then set_phase t Testing s
         else if t = Log_goodput_to_client then set_phase t Done s
         else crash (Exit 1) s))"

text \<open>
  The end of a task: \<open>update_rtt\<close> closes its connections, and \<open>Close\<close> of a lost one ends the program.
\<close>

definition end_task :: "task \<Rightarrow> wake \<Rightarrow> wake" where
  "end_task t s = (if t = Update_rtt \<and> lost_probe s then crash (Exit 3) s else set_phase t Done s)"

text \<open>
  A round of a task. When a probe of \<open>update_rtt\<close> fails its connection is closed and made again, or lost; a probe over a lost
  one fails, and \<open>Close\<close> of it ends the program.
\<close>

definition work_task :: "answer \<Rightarrow> task \<Rightarrow> wake \<Rightarrow> wake" where
  "work_task a t s =
     (if t = Update_rtt \<and> a = Bad_fd \<and> lost_probe s then crash (Exit 3) s
      else set_phase t Testing (if t = Update_rtt \<and> a = Fails then s\<lparr>lost_probe := True\<rparr> else s))"

text \<open>One move of a task: the loop is left when \<open>gb\<close> is \<open>NULL\<close> or its \<open>finish\<close> is set.\<close>

definition task_turn :: "answer \<Rightarrow> task \<Rightarrow> wake \<Rightarrow> wake" where
  "task_turn a t s =
     (case tasks s t of
        Opening \<Rightarrow> open_task a t s
      | Testing \<Rightarrow> if gb_ptr s = Gone then end_task t s
                   else reading_gb s (if gb_ptr s = Finished then end_task t s else set_phase t Entering s)
      | Entering \<Rightarrow> set_phase t Waiting s
      | Working \<Rightarrow> reading_gb s (work_task a t s)
      | _ \<Rightarrow> s)"

text \<open>\<open>pthread_cond_signal\<close>: a signal that nobody waits for is lost.\<close>

definition signal :: "task \<Rightarrow> wake \<Rightarrow> wake" where
  "signal t s = (if tasks s t = Waiting then set_phase t Working s else s)"

definition ticker_turn :: "(task \<Rightarrow> bool) \<Rightarrow> nat \<Rightarrow> wake \<Rightarrow> wake" where
  "ticker_turn on k s =
     (if k < length (tickers s) then
        (case tickers s ! k of
           Tick_test \<Rightarrow> s\<lparr>tickers := (tickers s)[k := if gb_ptr s = Gone then Tick_over else Tick_sleep]\<rparr>
         | Tick_sleep \<Rightarrow> s\<lparr>tickers := (tickers s)[k := Tick_signal (signals on (counter s))]\<rparr>
         | Tick_signal [] \<Rightarrow> s\<lparr>tickers := (tickers s)[k := Tick_test], counter := counter s + 1\<rparr>
         | Tick_signal (t # ts) \<Rightarrow> (signal t s)\<lparr>tickers := (tickers s)[k := Tick_signal ts]\<rparr>
         | Tick_over \<Rightarrow> s)
      else s)"

text \<open>\<open>start_periodic_tasks\<close>, one thread at a time: the first that cannot be created (\<open>ok\<close>) is the last that is tried.\<close>

definition create :: "bool \<Rightarrow> thread \<Rightarrow> thread list \<Rightarrow> wake \<Rightarrow> wake" where
  "create ok x xs s =
     (if ok then (case x of Monitoring t \<Rightarrow> set_phase t Opening s | Ticking \<Rightarrow> s\<lparr>tickers := tickers s @ [Tick_test]\<rparr>)
                   \<lparr>session := Starting xs\<rparr>
      else s\<lparr>session := Loading\<rparr>)"

text \<open>
  \<open>join_periodic_tasks\<close>: waits for each task in turn; a thread that was not created has no identifier to wait for.
\<close>

definition join_task :: "task \<Rightarrow> task list \<Rightarrow> wake \<Rightarrow> wake" where
  "join_task t ts s =
     (case tasks s t of
        Done \<Rightarrow> (set_phase t Absent s)\<lparr>session := Joining ts\<rparr>
      | Absent \<Rightarrow> crash Uninit s
      | _ \<Rightarrow> s)"

text \<open>One move of \<open>gb_process\<close>. Whatever \<open>start_periodic_tasks\<close> returns, the download goes on.\<close>

definition main_turn :: "(task \<Rightarrow> bool) \<Rightarrow> bool \<Rightarrow> wake \<Rightarrow> wake" where
  "main_turn on ok s =
     (case session s of
        Starting (x # xs) \<Rightarrow> create ok x xs s
      | Starting [] \<Rightarrow> s\<lparr>session := Loading\<rparr>
      | Loading \<Rightarrow> s\<lparr>session := Joining (measured on)\<rparr>
      | Joining (t # ts) \<Rightarrow> join_task t ts s
      | Joining [] \<Rightarrow> s\<lparr>session := Closed\<rparr>
      | Closed \<Rightarrow> s\<lparr>session := Idle, gb_ptr := Gone\<rparr>
      | _ \<Rightarrow> s)"

text \<open>
  The thread of the request: it reads \<open>gb\<close> while it sends the file, and in the end asserts that \<open>gb\<close> is there and sets
  \<open>finish\<close>.
\<close>

definition serve_turn :: "wake \<Rightarrow> wake" where
  "serve_turn s = (if serving s = 0 then s else reading_gb s s)"

definition stop_turn :: "wake \<Rightarrow> wake" where
  "stop_turn s =
     (if serving s = 0 then s
      else if gb_ptr s = Gone then crash AssertFail s
      else reading_gb s (s\<lparr>gb_ptr := Finished, serving := serving s - 1\<rparr>))"

section \<open>Runs\<close>

text \<open>
  What can happen next: a move of \<open>gb_process\<close>, a task, a ticker or a request, a wait that returns without a signal, and the request
  for a new session, which assigns \<open>gb\<close>.
\<close>

datatype event = Main bool | Turn answer task | Tick nat | Spurious task | Serve | Stop | Request

definition happens :: "(task \<Rightarrow> bool) \<Rightarrow> event \<Rightarrow> wake \<Rightarrow> wake" where
  "happens on e s =
     (case session s of Crashed _ \<Rightarrow> s | _ \<Rightarrow>
      (case e of
         Main ok \<Rightarrow> main_turn on ok s
       | Turn a t \<Rightarrow> task_turn a t s
       | Tick k \<Rightarrow> ticker_turn on k s
       | Spurious t \<Rightarrow> signal t s
       | Serve \<Rightarrow> serve_turn s
       | Stop \<Rightarrow> stop_turn s
       | Request \<Rightarrow>
           if session s = Idle
           then s\<lparr>session := Starting (creations on), gb_ptr := Downloading, serving := serving s + 1\<rparr> else s))"

definition events :: "(task \<Rightarrow> bool) \<Rightarrow> event list \<Rightarrow> wake \<Rightarrow> wake" where
  "events on es s = fold (happens on) es s"

definition wake_step :: "(task \<Rightarrow> bool) \<Rightarrow> wake \<Rightarrow> wake \<Rightarrow> bool" where
  "wake_step on s s' \<longleftrightarrow> (\<exists>e. s' = happens on e s)"

end
