(* ===== verification/Fairness.thy ===== *)
theory Fairness
  imports Machine
begin

text \<open>
  Infinite runs in which every thread gets its turns, and the rule for what such a run leads to: a quantity that
  no event raises and that the thread whose turn is needed lowers.
\<close>

definition run_of :: "('e \<Rightarrow> 's \<Rightarrow> 's) \<Rightarrow> (nat \<Rightarrow> 'e) \<Rightarrow> (nat \<Rightarrow> 's) \<Rightarrow> bool" where
  "run_of act lab \<sigma> \<longleftrightarrow> (\<forall>n. \<sigma> (Suc n) = act (lab n) (\<sigma> n))"

definition fair_for :: "('e \<Rightarrow> 'a) \<Rightarrow> 'a set \<Rightarrow> (nat \<Rightarrow> 'e) \<Rightarrow> bool" where
  "fair_for actor A lab \<longleftrightarrow> (\<forall>a \<in> A. \<forall>n. \<exists>m \<ge> n. actor (lab m) = a)"

primrec run_from :: "('e \<Rightarrow> 's \<Rightarrow> 's) \<Rightarrow> (nat \<Rightarrow> 'e) \<Rightarrow> 's \<Rightarrow> nat \<Rightarrow> 's" where
  "run_from act lab s 0 = s"
| "run_from act lab s (Suc n) = act (lab n) (run_from act lab s n)"

lemma run_of_run_from [simp]: "run_of act lab (run_from act lab s)"
  by (simp add: run_of_def)

lemma run_of_reach:
  assumes "run_of act lab \<sigma>" and "\<sigma> 0 = a"
  shows "reach ((=) a) (\<lambda>s s'. \<exists>e. s' = act e s) (\<sigma> n)"
  using assms by (induction n) (auto simp: run_of_def intro: reach.intros)

text \<open>A schedule that repeats a list of events is fair to the actors of the list.\<close>

lemma fair_cycle:
  assumes "es \<noteq> []" and "A \<subseteq> actor ` set es"
  shows "fair_for actor A (\<lambda>n. es ! (n mod length es))"
  unfolding fair_for_def
proof (intro ballI allI)
  fix a n assume "a \<in> A"
  with assms(2) obtain i where i: "i < length es" "actor (es ! i) = a"
    by (metis imageE in_set_conv_nth subsetD)
  then have "(n * length es + i) mod length es = i" by simp
  moreover have "n \<le> n * length es + i" using assms(1) by (cases es) (simp_all add: algebra_simps)
  ultimately show "\<exists>m \<ge> n. actor (es ! (m mod length es)) = a" using i(2) by metis
qed

locale response =
  fixes act :: "'e \<Rightarrow> 's \<Rightarrow> 's"
    and actor :: "'e \<Rightarrow> 'a"
    and A :: "'a set"
    and holds :: "'s \<Rightarrow> bool"
    and goal :: "'s \<Rightarrow> bool"
    and rank :: "'s \<Rightarrow> 'r"
    and below :: "('r \<times> 'r) set"
    and helper :: "'s \<Rightarrow> 'a"
  assumes wf_below: "wf below"
    and helper_fair: "holds s \<Longrightarrow> helper s \<in> A"
    and stays: "holds s \<Longrightarrow> \<not> goal (act e s) \<Longrightarrow> holds (act e s)"
    and no_raise: "holds s \<Longrightarrow> \<not> goal (act e s) \<Longrightarrow>
      rank (act e s) = rank s \<and> helper (act e s) = helper s \<or> (rank (act e s), rank s) \<in> below"
    and helps: "holds s \<Longrightarrow> \<not> goal (act e s) \<Longrightarrow> actor e = helper s \<Longrightarrow> (rank (act e s), rank s) \<in> below"
begin

lemma waits_or_progress:
  assumes "run_of act lab \<sigma>" "holds (\<sigma> n)" "\<forall>m > n. \<not> goal (\<sigma> m)"
  shows "holds (\<sigma> (n + k)) \<and> (rank (\<sigma> (n + k)) = rank (\<sigma> n) \<and> helper (\<sigma> (n + k)) = helper (\<sigma> n)
    \<or> (\<exists>j \<le> k. holds (\<sigma> (n + j)) \<and> (rank (\<sigma> (n + j)), rank (\<sigma> n)) \<in> below))"
proof (induction k)
  case (Suc k)
  have s: "\<sigma> (n + Suc k) = act (lab (n + k)) (\<sigma> (n + k))" using assms(1) by (simp add: run_of_def)
  have g: "\<not> goal (act (lab (n + k)) (\<sigma> (n + k)))" using assms(3) s by (metis less_add_Suc1 add_Suc_right)
  have h: "holds (\<sigma> (n + Suc k))" using stays [OF _ g] Suc.IH s by simp
  show ?case using Suc.IH no_raise [OF _ g] h s by (metis le_Suc_eq)
qed (use assms in simp)

lemma reaches_goal:
  assumes "run_of act lab \<sigma>" "fair_for actor A lab" "holds (\<sigma> n)"
  shows "\<exists>m \<ge> n. goal (\<sigma> m)"
  using assms(3)
proof (induction "rank (\<sigma> n)" arbitrary: n rule: wf_induct_rule [OF wf_below])
  case (1 n)
  show ?case
  proof (rule ccontr)
    assume "\<not> ?thesis"
    then have no: "\<forall>m \<ge> n. \<not> goal (\<sigma> m)" by blast
    from assms(2) helper_fair [OF 1(2)] obtain m where m: "m \<ge> n" "actor (lab m) = helper (\<sigma> n)"
      by (auto simp: fair_for_def)
    have "\<exists>j > 0. holds (\<sigma> (n + j)) \<and> (rank (\<sigma> (n + j)), rank (\<sigma> n)) \<in> below"
    proof -
      have s: "\<sigma> (Suc m) = act (lab m) (\<sigma> m)" using assms(1) by (simp add: run_of_def)
      have g: "\<not> goal (act (lab m) (\<sigma> m))" using no m(1) s by (metis le_SucI)
      from waits_or_progress [OF assms(1) 1(2), of "m - n"] no m(1)
      have "holds (\<sigma> m)" and c: "rank (\<sigma> m) = rank (\<sigma> n) \<and> helper (\<sigma> m) = helper (\<sigma> n)
          \<or> (\<exists>j. holds (\<sigma> (n + j)) \<and> (rank (\<sigma> (n + j)), rank (\<sigma> n)) \<in> below)" by auto
      from c show ?thesis
      proof
        assume "rank (\<sigma> m) = rank (\<sigma> n) \<and> helper (\<sigma> m) = helper (\<sigma> n)"
        with helps [OF \<open>holds (\<sigma> m)\<close> g] m s stays [OF \<open>holds (\<sigma> m)\<close> g] show ?thesis
          by (intro exI [of _ "Suc m - n"]) simp
      next
        assume "\<exists>j. holds (\<sigma> (n + j)) \<and> (rank (\<sigma> (n + j)), rank (\<sigma> n)) \<in> below"
        then obtain j where j: "holds (\<sigma> (n + j))" "(rank (\<sigma> (n + j)), rank (\<sigma> n)) \<in> below" by blast
        have "j \<noteq> 0" using j(2) wf_below by (metis add_0_right wf_not_refl)
        with j show ?thesis by blast
      qed
    qed
    then obtain j where "holds (\<sigma> (n + j))" "(rank (\<sigma> (n + j)), rank (\<sigma> n)) \<in> below" by blast
    from 1(1) [OF this(2,1)] no show False by (meson le_add1 order_trans)
  qed
qed

end

end
