(* ===== verification/Wakeup_Theorems.thy ===== *)
theory Wakeup_Theorems
  imports Wakeups Fairness
begin

text \<open>
  When \<open>gb\<close> is freed: with a task compiled in it is freed only after the request has set \<open>finish\<close> and every task has ended, and
  then it is freed, if the ticker runs; without one, while it is still read.
\<close>

section \<open>The invariant\<close>

text \<open>The tasks that may exist and whose threads \<open>gb_process\<close> has yet to join.\<close>

fun to_join :: "(task \<Rightarrow> bool) \<Rightarrow> session \<Rightarrow> task set" where
  "to_join on Idle = {}"
| "to_join on (Starting xs) = set (measured on)"
| "to_join on Loading = set (measured on)"
| "to_join on (Joining ts) = set ts"
| "to_join on Closed = {}"
| "to_join on (Crashed e) = UNIV"

text \<open>The tasks that only end when \<open>finish\<close> is set: \<open>log_goodput_to_client\<close> also ends when its log cannot be opened.\<close>

definition holders :: "(task \<Rightarrow> bool) \<Rightarrow> task list" where
  "holders on = filter on [Update_rtt, Measure_rtt, Log_goodput]"

definition may_crash :: "(task \<Rightarrow> bool) \<Rightarrow> err set" where
  "may_crash on = {Exit 1, Exit 3, Uninit} \<union> (if holders on = [] then {UseAfterFree, NullDeref, AssertFail} else {})"

definition wake_inv :: "(task \<Rightarrow> bool) \<Rightarrow> wake \<Rightarrow> bool" where
  "wake_inv on s \<longleftrightarrow>
     (\<forall>e. session s \<noteq> Crashed e)
     \<and> (\<forall>t. t \<notin> to_join on (session s) \<longrightarrow> tasks s t = Absent)
     \<and> (\<forall>xs. session s = Starting xs \<longrightarrow> {t. Monitoring t \<in> set xs} \<subseteq> set (measured on))
     \<and> (gb_ptr s = Gone \<longleftrightarrow> session s = Idle)
     \<and> (holders on = [] \<or>
          serving s = (if gb_ptr s = Downloading then 1 else 0)
          \<and> (\<forall>t. tasks s t = Done \<longrightarrow> t = Log_goodput_to_client \<or> gb_ptr s \<noteq> Downloading)
          \<and> (\<forall>ts. session s = Joining ts \<longrightarrow> set (holders on) \<subseteq> set ts \<or> gb_ptr s \<noteq> Downloading)
          \<and> (session s = Closed \<longrightarrow> gb_ptr s = Finished))
   \<or> (\<exists>e \<in> may_crash on. session s = Crashed e)"

lemma measured_holders: "set (holders on) \<subseteq> set (measured on)"
  by (auto simp: holders_def measured_def)

lemma client_no_holder [simp]: "Log_goodput_to_client \<notin> set (holders on)"
  by (simp add: holders_def)

lemma Gone_Downloading: "g \<noteq> Gone \<Longrightarrow> g \<noteq> Downloading \<Longrightarrow> g = Finished"
  by (cases g) simp_all

lemma creations_measured: "{t. Monitoring t \<in> set (creations on)} \<subseteq> set (measured on)"
  by (auto simp: creations_def measured_def)

lemma no_session_inv: "wake_inv on no_session"
  by (simp add: wake_inv_def no_session_def)

named_theorems turn_defs

lemmas turns [turn_defs] = crash_def set_phase_def reading_gb_def open_task_def end_task_def work_task_def task_turn_def signal_def
  create_def join_task_def main_turn_def serve_turn_def stop_turn_def

text \<open>What the turns leave alone.\<close>

lemma signal_frame [simp]:
  "session (signal t s) = session s" "gb_ptr (signal t s) = gb_ptr s" "tickers (signal t s) = tickers s"
  "counter (signal t s) = counter s" "serving (signal t s) = serving s"
  "tasks (signal t s) t' = (if t = t' \<and> tasks s t = Waiting then Working else tasks s t')"
  by (auto simp: signal_def set_phase_def)

lemma ticker_turn_frame [simp]:
  "session (ticker_turn on k s) = session s" "gb_ptr (ticker_turn on k s) = gb_ptr s"
  "serving (ticker_turn on k s) = serving s"
  by (auto simp: ticker_turn_def split: ticker.split list.split)

lemma task_turn_form:
  "(\<exists>e. task_turn a t s = crash e s)
    \<or> (\<exists>p l. task_turn a t s = set_phase t p (s\<lparr>lost_probe := l\<rparr>) \<and> tasks s t \<noteq> Waiting)
    \<or> task_turn a t s = s"
proof -
  have keep: "\<exists>q l. set_phase u p s = set_phase u q (s\<lparr>lost_probe := l\<rparr>)" for u p
    by (rule exI [of _ p], rule exI [of _ "lost_probe s"]) simp
  show ?thesis
    by (cases "tasks s t") (auto simp: task_turn_def open_task_def end_task_def work_task_def reading_gb_def keep)
qed

lemma task_turn_cases:
  obtains e where "task_turn a t s = crash e s"
    | p l where "task_turn a t s = set_phase t p (s\<lparr>lost_probe := l\<rparr>)" "tasks s t \<noteq> Waiting"
    | "task_turn a t s = s"
  using task_turn_form by blast

lemma task_turn_frame [simp]:
  "gb_ptr (task_turn a t s) = gb_ptr s" "tickers (task_turn a t s) = tickers s"
  "counter (task_turn a t s) = counter s"
  by (cases rule: task_turn_cases [of a t s]; simp add: crash_def set_phase_def)+

lemma serve_turn_cases:
  obtains e where "serve_turn s = crash e s" | "serve_turn s = s"
  by (metis serve_turn_def reading_gb_def)

lemma stop_turn_cases:
  obtains e where "stop_turn s = crash e s" | "stop_turn s = s"
    | "stop_turn s = s\<lparr>gb_ptr := Finished, serving := serving s - 1\<rparr>"
  by (metis stop_turn_def reading_gb_def)

lemma main_turn_inv: "wake_inv on s \<Longrightarrow> \<forall>e. session s \<noteq> Crashed e \<Longrightarrow> wake_inv on (main_turn on ok s)"
  using measured_holders [of on] Gone_Downloading [of "gb_ptr s"]
  by (cases "session s"; cases "holders on = []")
    (auto simp: wake_inv_def turn_defs may_crash_def split: list.splits thread.splits phase.splits if_splits,
      metis client_no_holder insertE subsetD)

lemma task_turn_inv: "wake_inv on s \<Longrightarrow> \<forall>e. session s \<noteq> Crashed e \<Longrightarrow> wake_inv on (task_turn a t s)"
  by (cases "tasks s t"; cases "session s")
    (auto simp: wake_inv_def turn_defs may_crash_def split: if_splits)

lemma signal_inv: "wake_inv on s \<Longrightarrow> \<forall>e. session s \<noteq> Crashed e \<Longrightarrow> wake_inv on (signal t s)"
  by (auto simp: wake_inv_def signal_def set_phase_def split: if_splits)

lemma wake_inv_tickers: "wake_inv on (s\<lparr>tickers := xs\<rparr>) = wake_inv on s" "wake_inv on (s\<lparr>counter := n\<rparr>) = wake_inv on s"
  by (simp_all add: wake_inv_def)

lemma ticker_turn_inv: "wake_inv on s \<Longrightarrow> \<forall>e. session s \<noteq> Crashed e \<Longrightarrow> wake_inv on (ticker_turn on k s)"
  using signal_inv [of on s]
  by (auto simp: ticker_turn_def wake_inv_tickers split: ticker.splits list.splits)

lemma serve_turn_inv: "wake_inv on s \<Longrightarrow> \<forall>e. session s \<noteq> Crashed e \<Longrightarrow> wake_inv on (serve_turn s)"
  by (auto simp: wake_inv_def turn_defs may_crash_def split: if_splits)

lemma stop_turn_inv: "wake_inv on s \<Longrightarrow> \<forall>e. session s \<noteq> Crashed e \<Longrightarrow> wake_inv on (stop_turn s)"
  by (auto simp: wake_inv_def turn_defs may_crash_def split: if_splits)

lemma happens_inv: "wake_inv on s \<Longrightarrow> wake_inv on (happens on e s)"
proof (cases "\<exists>x. session s = Crashed x")
  case False
  assume i: "wake_inv on s"
  show ?thesis
  proof (cases e)
    case Request
    then show ?thesis using i creations_measured [of on]
      by (auto simp: happens_def wake_inv_def split: session.splits)
  qed (use i False main_turn_inv task_turn_inv signal_inv ticker_turn_inv serve_turn_inv stop_turn_inv
      in \<open>auto simp: happens_def split: session.splits\<close>)
qed (auto simp: happens_def)

interpretation monitors: machine "(=) no_session" "wake_step on" "wake_inv on" for on
  by unfold_locales (auto simp: wake_step_def no_session_inv happens_inv)

section \<open>When \<open>gb\<close> is freed\<close>

lemma inv_no_misuse:
  "holders on \<noteq> [] \<Longrightarrow> wake_inv on s \<Longrightarrow> session s \<notin> Crashed ` {NullDeref, UseAfterFree, AssertFail}"
  by (auto simp: wake_inv_def may_crash_def)

lemma inv_closed:
  "holders on \<noteq> [] \<Longrightarrow> wake_inv on s \<Longrightarrow> session s = Closed \<longrightarrow> gb_ptr s = Finished \<and> serving s = 0 \<and> tasks s = (\<lambda>_. Absent)"
  by (auto simp: wake_inv_def fun_eq_iff)

text \<open>C19: With \<open>update_rtt\<close>, \<open>measure_rtt\<close> or \<open>log_goodput\<close> compiled in, however the threads alternate, \<open>gb\<close> is freed only when
  the request has set \<open>finish\<close> and reads it no more, and when none of the five monitoring tasks is left (the signalling thread may
  be); nobody reads \<open>gb\<close> when it is not there or freed.\<close>

theorem freed_after_last_use:
  assumes "holders on \<noteq> []" and "reach ((=) no_session) (wake_step on) s"
  shows "session s \<notin> Crashed ` {NullDeref, UseAfterFree, AssertFail}
    \<and> (session s = Closed \<longrightarrow> gb_ptr s = Finished \<and> serving s = 0 \<and> tasks s = (\<lambda>_. Absent))"
  using inv_no_misuse [OF assms(1) monitors.reach_inv [OF assms(2)]] inv_closed [OF assms(1) monitors.reach_inv [OF assms(2)]]
  by blast

definition with_rtt :: "task \<Rightarrow> bool" where "with_rtt = (\<lambda>t. t = Measure_rtt)"

lemma with_rtt_lists [simp]:
  "holders with_rtt = [Measure_rtt]" "measured with_rtt = [Measure_rtt]"
  "creations with_rtt = [Monitoring Measure_rtt, Ticking]"
  by (simp_all add: holders_def measured_def creations_def with_rtt_def)

lemma events_simps [simp]: "events on [] s = s" "events on (e # es) s = events on es (happens on e s)"
  by (simp_all add: events_def)

lemma events_append [simp]: "events on (xs @ ys) s = events on ys (events on xs s)"
  by (simp add: events_def)

lemma reach_events: "reach ((=) no_session) (wake_step on) (events on es no_session)"
  by (induction es rule: rev_induct) (auto simp: wake_step_def intro: reach.intros)

definition rtt_session :: "event list" where
  "rtt_session = [Request, Main True, Main True, Main True, Turn Fine Measure_rtt, Stop, Main True,
     Turn Fine Measure_rtt, Main True, Main True]"

theorem freed_after_last_use_witness:
  "\<exists>s. s = events with_rtt rtt_session no_session \<and> session s = Closed \<and> serving s = 0 \<and> gb_ptr s = Finished"
proof -
  let ?s = "events with_rtt rtt_session no_session"
  have "session ?s = Closed"
    by (simp add: rtt_session_def no_session_def happens_def turn_defs)
  with freed_after_last_use [OF _ reach_events, of with_rtt rtt_session] show ?thesis by simp
qed

text \<open>As configured there is nothing to wait for: \<open>gb\<close> is freed as soon as the loop of the download ends, and the request that is
  still sending the file reads it then.\<close>

theorem freed_while_served:
  "session (events shipped [Request, Main True, Main True, Main True, Main True, Serve] no_session) = Crashed UseAfterFree"
  by (simp add: shipped_def creations_def measured_def no_session_def happens_def turn_defs)

lemma happens_not_finished: "Stop \<noteq> e \<Longrightarrow> gb_ptr s \<noteq> Finished \<Longrightarrow> gb_ptr (happens on e s) \<noteq> Finished"
  by (cases e; cases rule: serve_turn_cases [of s])
    (auto simp: happens_def main_turn_def create_def set_phase_def crash_def join_task_def
      split: session.split list.split phase.split thread.split)

text \<open>Nobody sets \<open>finish\<close> in the program without the proxy: there, a session with such a task never frees \<open>gb\<close>.\<close>

theorem standalone_never_closes:
  assumes "holders on \<noteq> []" and "Stop \<notin> set es"
  shows "session (events on es no_session) \<noteq> Closed"
proof -
  have "gb_ptr (events on es no_session) \<noteq> Finished" using assms(2)
  proof (induction es rule: rev_induct)
    case (snoc e es)
    then show ?case by (simp add: happens_not_finished)
  qed (simp add: no_session_def)
  with inv_closed [OF assms(1) monitors.reach_inv [OF reach_events], of es] show ?thesis by auto
qed

section \<open>Tickers\<close>

definition whole_session :: "nat \<Rightarrow> event list" where
  "whole_session n = [Request, Main True, Tick n, Main True, Stop, Main True, Main True, Main True]"

lemma whole_session_adds:
  "session s = Idle \<Longrightarrow> serving s = 0 \<Longrightarrow>
    events shipped (whole_session (length (tickers s))) s = s\<lparr>tickers := tickers s @ [Tick_sleep], gb_ptr := Gone, session := Idle\<rparr>"
  by (simp add: whole_session_def shipped_def creations_def measured_def happens_def turn_defs ticker_turn_def)

text \<open>C33: A ticker looks at \<open>gb\<close> only once per interval. Sessions that follow each other more quickly leave theirs behind: after
  any number of them as many tickers are there, none of which has ended.\<close>

theorem tickers_pile_up:
  "\<exists>es. session (events shipped es no_session) = Idle \<and> tickers (events shipped es no_session) = replicate n Tick_sleep"
proof -
  have "\<exists>es. session (events shipped es no_session) = Idle \<and> serving (events shipped es no_session) = 0
    \<and> tickers (events shipped es no_session) = replicate n Tick_sleep"
  proof (induction n)
    case 0
    show ?case by (intro exI [of _ "[]"]) (simp add: no_session_def)
  next
    case (Suc n)
    then obtain es where "session (events shipped es no_session) = Idle" "serving (events shipped es no_session) = 0"
      "tickers (events shipped es no_session) = replicate n Tick_sleep" by blast
    then show ?case using whole_session_adds [of "events shipped es no_session"]
      by (intro exI [of _ "es @ whole_session n"]) (simp add: replicate_append_same)
  qed
  then show ?thesis by blast
qed

text \<open>If the ticker could not be created, which \<open>gb_process\<close> does not heed, it waits for ever for a task that has come
  to its wait, unless the wait returns by itself or the program ends.\<close>

definition stuck :: "task \<Rightarrow> task list \<Rightarrow> wake \<Rightarrow> bool" where
  "stuck t ts s \<longleftrightarrow> tickers s = [] \<and> session s = Joining (t # ts) \<and> tasks s t = Waiting \<or> (\<exists>e. session s = Crashed e)"

lemma stuck_stays:
  assumes "Spurious t \<noteq> e" and "stuck t ts s"
  shows "stuck t ts (happens on e s)"
proof (cases "\<exists>x. session s = Crashed x")
  case False
  then have *: "tickers s = []" "session s = Joining (t # ts)" "tasks s t = Waiting" using assms(2) by (auto simp: stuck_def)
  show ?thesis
  proof (cases e)
    case (Turn o' t')
    then show ?thesis using * by (cases rule: task_turn_cases [of o' t' s])
      (auto simp: stuck_def happens_def crash_def set_phase_def)
  next
    case Serve
    then show ?thesis using * by (cases rule: serve_turn_cases [of s]) (simp_all add: stuck_def happens_def crash_def)
  next
    case Stop
    then show ?thesis using * by (cases rule: stop_turn_cases [of s]) (simp_all add: stuck_def happens_def crash_def)
  qed (use * assms(1) in \<open>simp_all add: stuck_def happens_def main_turn_def join_task_def ticker_turn_def\<close>)
qed (use assms(2) in \<open>auto simp: stuck_def happens_def\<close>)

theorem join_waits_without_ticker:
  assumes "tickers s = []" and "session s = Joining (t # ts)" and "tasks s t = Waiting" and "Spurious t \<notin> set es"
  shows "session (events on es s) = Joining (t # ts) \<or> (\<exists>e. session (events on es s) = Crashed e)"
proof -
  have "stuck t ts (events on es s)" using assms(4)
    by (induction es rule: rev_induct) (simp_all add: stuck_stays, simp add: stuck_def assms(1-3))
  then show ?thesis by (auto simp: stuck_def)
qed

definition no_ticker :: "event list" where
  "no_ticker = [Request, Main True, Main False, Turn Fine Measure_rtt, Turn Fine Measure_rtt, Turn Fine Measure_rtt,
     Stop, Main True]"

theorem join_waits_without_ticker_witness:
  "\<exists>s. session s \<in> {Joining [Measure_rtt]} \<union> range Crashed
    \<and> s = events with_rtt [Main True, Turn Fine Measure_rtt, Tick 0, Serve, Stop, Request, Main True]
            (events with_rtt no_ticker no_session)"
proof -
  have "tickers (events with_rtt no_ticker no_session) = []" "session (events with_rtt no_ticker no_session) = Joining [Measure_rtt]"
    "tasks (events with_rtt no_ticker no_session) Measure_rtt = Waiting"
    by (simp_all add: no_ticker_def no_session_def happens_def turn_defs)
  from join_waits_without_ticker [OF this, of "[Main True, Turn Fine Measure_rtt, Tick 0, Serve, Stop, Request, Main True]" with_rtt]
  show ?thesis by auto
qed

end
