(* ===== verification/Join_Theorems.thy ===== *)
theory Join_Theorems
  imports Wakeup_Theorems
begin

text \<open>
  The end of a session: once \<open>finish\<close> is set and while the ticker runs, \<open>gb_process\<close> gets past its joins.
\<close>

section \<open>The joins end\<close>

text \<open>How far a task is from its end, once \<open>finish\<close> is set.\<close>

fun moves_left :: "phase \<Rightarrow> nat" where
  "moves_left Absent = 0"
| "moves_left Done = 1"
| "moves_left Testing = 2"
| "moves_left Opening = 3"
| "moves_left Working = 3"
| "moves_left Waiting = 4"
| "moves_left Entering = 5"

text \<open>How far the ticker is from signalling a task: rounds, its place in the round, signals.\<close>

definition rounds_left :: "task \<Rightarrow> int \<Rightarrow> nat" where
  "rounds_left t n = (if t = Update_rtt \<and> n mod SEND_PROBE_MULTIPLIER \<noteq> 0 then nat (SEND_PROBE_MULTIPLIER - n mod SEND_PROBE_MULTIPLIER) else 0)"

fun signal_rank :: "task \<Rightarrow> ticker \<Rightarrow> int \<Rightarrow> nat \<times> nat \<times> nat" where
  "signal_rank t Tick_test n = (rounds_left t n, 2, 0)"
| "signal_rank t Tick_sleep n = (rounds_left t n, 1, 0)"
| "signal_rank t (Tick_signal xs) n = ((if t \<in> set xs then 0 else Suc (rounds_left t (n + 1))), 0, length xs)"
| "signal_rank t Tick_over n = (0, 0, 0)"

definition join_rank :: "nat \<Rightarrow> wake \<Rightarrow> nat \<times> nat \<times> nat \<times> nat" where
  "join_rank j s =
     (case session s of
        Joining ts \<Rightarrow> (sum_list (map (moves_left \<circ> tasks s) ts),
          (if ts \<noteq> [] \<and> tasks s (hd ts) = Waiting then signal_rank (hd ts) (tickers s ! j) (counter s) else (0, 0, 0)))
      | _ \<Rightarrow> (0, 0, 0, 0))"

definition lex4 :: "((nat \<times> nat \<times> nat \<times> nat) \<times> (nat \<times> nat \<times> nat \<times> nat)) set" where
  "lex4 = less_than <*lex*> less_than <*lex*> less_than <*lex*> less_than"

datatype actor = The_main | The_task task | The_ticker | Anyone

text \<open>Who moves, for the ticker with the number \<open>j\<close>. A look of \<open>update_rtt\<close> at an empty \<open>local_if\<close> is no move.\<close>

fun mover :: "nat \<Rightarrow> event \<Rightarrow> actor" where
  "mover j (Main ok) = The_main"
| "mover j (Turn a t) = (if t = Update_rtt \<and> a = Not_yet then Anyone else The_task t)"
| "mover j (Tick k) = (if k = j then The_ticker else Anyone)"
| "mover j e = Anyone"

definition needed :: "wake \<Rightarrow> actor" where
  "needed s = (case session s of
      Joining (t # ts) \<Rightarrow> (case tasks s t of Done \<Rightarrow> The_main | Waiting \<Rightarrow> The_ticker | _ \<Rightarrow> The_task t)
    | _ \<Rightarrow> The_main)"

definition threads :: "(task \<Rightarrow> bool) \<Rightarrow> actor set" where
  "threads on = {The_main, The_ticker} \<union> The_task ` set (measured on)"

text \<open>
  At the joins with \<open>finish\<close> set and ticker \<open>j\<close> running. When the probes are on, every tenth value of the counter counts for them, which
  the tickers share, so \<open>j\<close> is then the only one.
\<close>

definition joining :: "(task \<Rightarrow> bool) \<Rightarrow> nat \<Rightarrow> wake \<Rightarrow> bool" where
  "joining on j s \<longleftrightarrow> (\<exists>ts. session s = Joining ts \<and> set ts \<subseteq> set (measured on) \<and> distinct ts \<and> (\<forall>t \<in> set ts. tasks s t \<noteq> Absent))
     \<and> gb_ptr s = Finished \<and> j < length (tickers s) \<and> tickers s ! j \<noteq> Tick_over
     \<and> (on Update_rtt \<longrightarrow> (\<forall>i < length (tickers s). i \<noteq> j \<longrightarrow> tickers s ! i = Tick_over))"

definition session_ends :: "wake \<Rightarrow> bool" where
  "session_ends s \<longleftrightarrow> session s = Closed \<or> session s = Crashed (Exit 1) \<or> session s = Crashed (Exit 3)"

lemma rounds_left_next:
  assumes "n mod SEND_PROBE_MULTIPLIER \<noteq> 0"
  shows "Suc (rounds_left Update_rtt (n + 1)) = rounds_left Update_rtt n"
proof -
  have b: "n mod 10 < 10" "0 \<le> n mod 10" by simp_all
  have "(n + 1) mod 10 = (n mod 10 + 1) mod 10" by (simp add: mod_add_left_eq)
  also have "\<dots> = (if n mod 10 = 9 then 0 else n mod 10 + 1)"
  proof (cases "n mod 10 = 9")
    case False
    with b have "n mod 10 + 1 < 10" by linarith
    with b False show ?thesis by (simp only: mod_pos_pos_trivial if_False)
  qed simp
  finally have m: "(n + 1) mod 10 = (if n mod 10 = 9 then 0 else n mod 10 + 1)" .
  show ?thesis using assms m b
    by (simp only: rounds_left_def SEND_PROBE_MULTIPLIER_def) (auto split: if_splits)
qed

lemma rounds_left_0: "n mod SEND_PROBE_MULTIPLIER = 0 \<Longrightarrow> rounds_left t n = 0"
  by (simp add: rounds_left_def)

lemma in_signals:
  "t \<in> set (measured on) \<Longrightarrow> t \<in> set (signals on n) \<longleftrightarrow> t \<noteq> Update_rtt \<or> n mod SEND_PROBE_MULTIPLIER = 0"
  unfolding measured_def signals_def set_filter by auto

lemma signal_rank_sleep:
  "t \<in> set (measured on) \<Longrightarrow> signal_rank t (Tick_signal (signals on n)) n = (rounds_left t n, 0, length (signals on n))"
  using rounds_left_next [of n] rounds_left_0 [of n t] in_signals [of t on n] by (auto simp: rounds_left_def)

section \<open>Progress\<close>

definition progress :: "nat \<Rightarrow> wake \<Rightarrow> wake \<Rightarrow> bool" where
  "progress j s s' \<longleftrightarrow> join_rank j s' = join_rank j s \<and> needed s' = needed s \<or> (join_rank j s', join_rank j s) \<in> lex4"

lemma progress_refl [simp]: "progress j s s"
  by (simp add: progress_def)

lemma sum_moves_update:
  "t \<in> set ts \<Longrightarrow> moves_left p < moves_left (f t) \<Longrightarrow>
    sum_list (map (moves_left \<circ> f(t := p)) ts) < sum_list (map (moves_left \<circ> f) ts)"
proof (induction ts)
  case (Cons x xs)
  show ?case
  proof (cases "t \<in> set xs")
    case True
    then have "sum_list (map (moves_left \<circ> f(t := p)) xs) < sum_list (map (moves_left \<circ> f) xs)"
      using Cons by blast
    with Cons.prems(2) show ?thesis by (cases "x = t") (simp_all add: comp_def)
  next
    case False
    then have "map (moves_left \<circ> f(t := p)) xs = map (moves_left \<circ> f) xs" by auto
    with Cons.prems False show ?thesis by (simp only: list.map sum_list.Cons) simp
  qed
qed simp

lemma sum_moves_other: "t \<notin> set ts \<Longrightarrow> map (moves_left \<circ> f(t := p)) ts = map (moves_left \<circ> f) ts"
  by auto

lemma set_phase_progress:
  assumes "joining on j s" "session s = Joining ts" "p \<noteq> Absent" "moves_left p < moves_left (tasks s t)"
  shows "joining on j (set_phase t p s)"
    and "progress j s (set_phase t p s)"
    and "t \<in> set ts \<Longrightarrow> (join_rank j (set_phase t p s), join_rank j s) \<in> lex4"
proof -
  show "joining on j (set_phase t p s)" using assms(1,3) by (auto simp: joining_def set_phase_def)
  show *: "(join_rank j (set_phase t p s), join_rank j s) \<in> lex4" if "t \<in> set ts"
    using sum_moves_update [of t ts p "tasks s", OF that assms(4)] assms(2) by (simp add: join_rank_def lex4_def set_phase_def)
  show "progress j s (set_phase t p s)"
  proof (cases "t \<in> set ts")
    case False
    with assms(2) have "join_rank j (set_phase t p s) = join_rank j s \<and> needed (set_phase t p s) = needed s"
      by (cases ts) (auto simp: join_rank_def needed_def set_phase_def sum_moves_other)
    then show ?thesis by (simp add: progress_def)
  qed (simp add: progress_def *)
qed

lemma lost_probe_joining: "joining on j (s\<lparr>lost_probe := l\<rparr>) = joining on j s"
  "join_rank j (set_phase t p (s\<lparr>lost_probe := l\<rparr>)) = join_rank j (set_phase t p s)"
  "needed (set_phase t p (s\<lparr>lost_probe := l\<rparr>)) = needed (set_phase t p s)"
  "joining on j (set_phase t p (s\<lparr>lost_probe := l\<rparr>)) = joining on j (set_phase t p s)"
  by (simp_all add: joining_def join_rank_def needed_def set_phase_def split: session.split list.split)

definition moved :: "task \<Rightarrow> wake \<Rightarrow> wake \<Rightarrow> bool" where
  "moved t s s' \<longleftrightarrow> (\<exists>p l. s' = set_phase t p (s\<lparr>lost_probe := l\<rparr>) \<and> p \<noteq> Absent \<and> moves_left p < moves_left (tasks s t))"

lemma moved_on:
  assumes "p \<noteq> Absent" "moves_left p < moves_left (tasks s t)"
  shows "moved t s (set_phase t p s)" and "moved t s (set_phase t p (s\<lparr>lost_probe := l\<rparr>))"
proof -
  have "set_phase t p s = set_phase t p (s\<lparr>lost_probe := lost_probe s\<rparr>)" by simp
  with assms show "moved t s (set_phase t p s)" unfolding moved_def by metis
  show "moved t s (set_phase t p (s\<lparr>lost_probe := l\<rparr>))" using assms unfolding moved_def by metis
qed

lemma task_turn_finished:
  assumes "gb_ptr s = Finished" "session s = Joining ts"
  shows "task_turn a t s \<in> {crash (Exit 1) s, crash (Exit 3) s} \<or> moved t s (task_turn a t s)
    \<or> task_turn a t s = s \<and> (tasks s t \<in> {Waiting, Done, Absent} \<or> t = Update_rtt \<and> a = Not_yet)"
  using assms
  by (cases "tasks s t") (auto simp: task_turn_def open_task_def end_task_def work_task_def reading_gb_def moved_on)

lemma signal_progress:
  assumes "joining on j s" "session s = Joining ts"
  shows "joining on j (signal t s)" and "progress j s (signal t s)"
  using set_phase_progress(1,2) [OF assms, of Working t] assms by (auto simp: signal_def)

lemma signal_helps:
  assumes "joining on j s" "session s = Joining (t # ts)" "tasks s t = Waiting"
  shows "(join_rank j (signal t s), join_rank j s) \<in> lex4"
  using set_phase_progress(3) [OF assms(1,2), of Working t] assms by (simp add: signal_def)

definition lex3 :: "((nat \<times> nat \<times> nat) \<times> (nat \<times> nat \<times> nat)) set" where
  "lex3 = less_than <*lex*> less_than <*lex*> less_than"

lemma lex4_rest: "(q, r) \<in> lex3 \<Longrightarrow> ((n, q), (n, r)) \<in> lex4"
  by (cases q; cases r) (auto simp: lex3_def lex4_def)

lemma lex4_trans: "trans lex4"
  by (simp add: lex4_def trans_lex_prod)

lemma progress_strict:
  "progress j s t \<Longrightarrow> (join_rank j u, join_rank j t) \<in> lex4 \<Longrightarrow> (join_rank j u, join_rank j s) \<in> lex4"
  "(join_rank j t, join_rank j s) \<in> lex4 \<Longrightarrow> progress j t u \<Longrightarrow> (join_rank j u, join_rank j s) \<in> lex4"
  using lex4_trans by (auto simp: progress_def dest: transD)

lemma progress_trans: "progress j s t \<Longrightarrow> progress j t u \<Longrightarrow> progress j s u"
  using progress_strict [of j s t u] by (auto simp: progress_def)

lemma needed_ticker:
  "needed s = The_ticker \<longleftrightarrow> (\<exists>t ts. session s = Joining (t # ts) \<and> tasks s t = Waiting)"
  by (auto simp: needed_def split: session.splits list.splits phase.splits)

lemma needed_tickers: "needed (s\<lparr>tickers := ks, counter := n\<rparr>) = needed s"
  by (auto simp: needed_def split: session.split list.split)

text \<open>A move of the ticker itself helps the task that it is needed for.\<close>

lemma ticker_move:
  assumes "joining on j s" "tickers s ! j = k" "k' \<noteq> Tick_over"
    and "\<And>t. t \<in> set (measured on) \<Longrightarrow> tasks s t = Waiting \<Longrightarrow>
      (signal_rank t k' n, signal_rank t k (counter s)) \<in> lex3"
  defines "s' \<equiv> s\<lparr>tickers := (tickers s)[j := k'], counter := n\<rparr>"
  shows "joining on j s'" and "progress j s s'"
    and "needed s = The_ticker \<Longrightarrow> (join_rank j s', join_rank j s) \<in> lex4"
proof -
  show "joining on j s'" using assms(1,3) by (auto simp: joining_def s'_def)
  show *: "(join_rank j s', join_rank j s) \<in> lex4" if "needed s = The_ticker"
    using that assms(1,2,4) by (auto simp: needed_ticker join_rank_def joining_def s'_def intro!: lex4_rest)
  show "progress j s s'"
  proof (cases "needed s = The_ticker")
    case False
    then have "join_rank j s' = join_rank j s" using assms(1)
      by (auto simp: needed_ticker join_rank_def joining_def neq_Nil_conv s'_def)
    then show ?thesis by (simp add: progress_def needed_tickers s'_def)
  qed (simp add: progress_def *)
qed

text \<open>Another ticker moves, which it only does when there are no probes: nothing that counts for \<open>j\<close> changes.\<close>

lemma signal_rank_counter: "t \<noteq> Update_rtt \<Longrightarrow> signal_rank t k n = signal_rank t k m"
  by (cases k) (simp_all add: rounds_left_def)

lemma other_ticker_move:
  fixes k' :: ticker and n :: int
  assumes "joining on j s" "i \<noteq> j" "\<not> on Update_rtt"
  defines "s' \<equiv> s\<lparr>tickers := (tickers s)[i := k'], counter := n\<rparr>"
  shows "joining on j s'" and "progress j s s'"
proof -
  show "joining on j s'" using assms(1-3) by (auto simp: joining_def s'_def)
  from assms(1) obtain ts where ts: "session s = Joining ts" "set ts \<subseteq> set (measured on)" by (auto simp: joining_def)
  have "Update_rtt \<notin> set (measured on)" using assms(3) by (simp add: measured_def)
  with ts(2) have "Update_rtt \<notin> set ts" by blast
  then have "signal_rank (hd ts) k n = signal_rank (hd ts) k (counter s)" if "ts \<noteq> []" for k
    using that by (intro signal_rank_counter) (metis hd_in_set)
  then have "join_rank j s' = join_rank j s" using ts assms(2) by (simp add: join_rank_def s'_def)
  then show "progress j s s'" by (simp add: progress_def needed_tickers s'_def)
qed

lemma other_ticker_progress:
  assumes j: "joining on j s" and i: "i \<noteq> j"
  shows "joining on j (ticker_turn on i s) \<and> progress j s (ticker_turn on i s)"
proof (cases "i < length (tickers s) \<and> tickers s ! i \<noteq> Tick_over")
  case True
  then have off: "\<not> on Update_rtt" using j i by (auto simp: joining_def)
  from j obtain ts where ts: "session s = Joining ts" by (auto simp: joining_def)
  have c: "s\<lparr>tickers := xs\<rparr> = s\<lparr>tickers := xs, counter := counter s\<rparr>" for xs and s :: wake by simp
  have move: "joining on j (u\<lparr>tickers := (tickers u)[i := k], counter := n\<rparr>)
    \<and> progress j u (u\<lparr>tickers := (tickers u)[i := k], counter := n\<rparr>)" if "joining on j u" for u k n
    using other_ticker_move [OF that i, where k' = k and n = n] off by blast
  show ?thesis
  proof (cases "tickers s ! i")
    case Tick_test
    then show ?thesis using True j move [OF j, where n = "counter s"] by (simp add: ticker_turn_def)
  next
    case Tick_sleep
    then show ?thesis using True j move [OF j, where n = "counter s"] by (simp add: ticker_turn_def)
  next
    case (Tick_signal xs)
    show ?thesis
    proof (cases xs)
      case Nil
      then show ?thesis using True Tick_signal move [OF j, where k = Tick_test and n = "counter s + 1"] by (simp add: ticker_turn_def)
    next
      case (Cons t xs')
      let ?u = "signal t s"
      have u: "joining on j ?u" "progress j s ?u" using signal_progress [OF j ts] by auto
      have "ticker_turn on i s = ?u\<lparr>tickers := (tickers ?u)[i := Tick_signal xs'], counter := counter ?u\<rparr>"
        using True Tick_signal Cons by (simp add: ticker_turn_def)
      then show ?thesis using move [OF u(1), where k = "Tick_signal xs'" and n = "counter ?u"] u(2) progress_trans by metis
    qed
  qed (use True in simp)
next
  case False
  then have "ticker_turn on i s = s" by (cases "i < length (tickers s)") (auto simp: ticker_turn_def)
  then show ?thesis using j by simp
qed

lemma ticker_turn_progress:
  assumes j: "joining on j s"
  shows "joining on j (ticker_turn on j s) \<and> progress j s (ticker_turn on j s)
    \<and> (needed s = The_ticker \<longrightarrow> (join_rank j (ticker_turn on j s), join_rank j s) \<in> lex4)"
proof -
  define k where "k = tickers s ! j"
  from j obtain ts where k: "tickers s ! j = k" "k \<noteq> Tick_over" "j < length (tickers s)"
    and ts: "session s = Joining ts" "set ts \<subseteq> set (measured on)" and g: "gb_ptr s = Finished"
    by (auto simp: joining_def k_def)
  have c: "s\<lparr>tickers := xs\<rparr> = s\<lparr>tickers := xs, counter := counter s\<rparr>" for xs by simp
  show ?thesis
  proof (cases k)
    case Tick_test
    then have v: "ticker_turn on j s = s\<lparr>tickers := (tickers s)[j := Tick_sleep], counter := counter s\<rparr>"
      using k g by (simp add: ticker_turn_def)
    have "(signal_rank t Tick_sleep (counter s), signal_rank t k (counter s)) \<in> lex3" for t
      using Tick_test by (simp add: lex3_def)
    from ticker_move [OF j k(1) _ this] show ?thesis unfolding v by blast
  next
    case Tick_sleep
    let ?k = "Tick_signal (signals on (counter s))"
    have v: "ticker_turn on j s = s\<lparr>tickers := (tickers s)[j := ?k], counter := counter s\<rparr>"
      using Tick_sleep k by (simp add: ticker_turn_def)
    have "(signal_rank t ?k (counter s), signal_rank t k (counter s)) \<in> lex3" if "t \<in> set (measured on)" for t
      using that Tick_sleep by (simp add: lex3_def signal_rank_sleep del: signal_rank.simps(3))
    from ticker_move [OF j k(1) _ this] show ?thesis unfolding v by blast
  next
    case (Tick_signal xs)
    show ?thesis
    proof (cases xs)
      case Nil
      then have v: "ticker_turn on j s = s\<lparr>tickers := (tickers s)[j := Tick_test], counter := counter s + 1\<rparr>"
        using Tick_signal k by (simp add: ticker_turn_def)
      have "(signal_rank t Tick_test (counter s + 1), signal_rank t k (counter s)) \<in> lex3" for t
        using Tick_signal Nil by (simp add: lex3_def)
      from ticker_move [OF j k(1) _ this] show ?thesis unfolding v by blast
    next
      case (Cons t xs')
      let ?u = "signal t s"
      let ?v = "?u\<lparr>tickers := (tickers ?u)[j := Tick_signal xs'], counter := counter ?u\<rparr>"
      have v: "ticker_turn on j s = ?v" using Tick_signal Cons k by (simp add: ticker_turn_def)
      have su: "joining on j ?u" "progress j s ?u" using signal_progress [OF j ts(1)] by auto
      have m: "(signal_rank h (Tick_signal xs') (counter ?u), signal_rank h k (counter ?u)) \<in> lex3"
        if "tasks ?u h = Waiting" for h
        using that Tick_signal Cons by (auto simp: lex3_def split: if_splits)
      have "tickers ?u ! j = k" using k(1) by simp
      from ticker_move [OF su(1) this _ m] have uv: "joining on j ?v" "progress j ?u ?v"
        "needed ?u = The_ticker \<Longrightarrow> (join_rank j ?v, join_rank j ?u) \<in> lex4" by blast+
      have "(join_rank j ?v, join_rank j s) \<in> lex4" if need: "needed s = The_ticker"
      proof -
        from need obtain h hs where h: "session s = Joining (h # hs)" "tasks s h = Waiting" by (auto simp: needed_ticker)
        show ?thesis
        proof (cases "h = t")
          case True
          with signal_helps [OF j] h uv(2) show ?thesis by (blast intro: progress_strict(2))
        next
          case False
          then have "needed ?u = The_ticker" using h by (auto simp: needed_ticker)
          with uv(3) su(2) show ?thesis by (blast intro: progress_strict(1))
        qed
      qed
      with uv(1,2) su(2) show ?thesis unfolding v by (blast intro: progress_trans)
    qed
  qed (use k in simp)
qed

lemma task_turn_progress:
  assumes "joining on j s" "\<not> session_ends (task_turn a t s)"
  shows "joining on j (task_turn a t s)" "progress j s (task_turn a t s)"
    "needed s = mover j (Turn a t) \<Longrightarrow> needed s \<noteq> Anyone \<Longrightarrow> (join_rank j (task_turn a t s), join_rank j s) \<in> lex4"
proof -
  from assms(1) obtain ts where ts: "session s = Joining ts" "gb_ptr s = Finished" "\<forall>t \<in> set ts. tasks s t \<noteq> Absent"
    by (auto simp: joining_def)
  from task_turn_finished [OF ts(2,1), of a t] assms(2)
  consider p l where "task_turn a t s = set_phase t p (s\<lparr>lost_probe := l\<rparr>)" "p \<noteq> Absent" "moves_left p < moves_left (tasks s t)"
    | "task_turn a t s = s" "tasks s t \<in> {Waiting, Done, Absent} \<or> t = Update_rtt \<and> a = Not_yet"
    by (auto simp: session_ends_def crash_def moved_def)
  note c = this
  from c show "joining on j (task_turn a t s)" "progress j s (task_turn a t s)"
    using set_phase_progress(1,2) [OF assms(1) ts(1)] assms(1)
    by (cases, simp_all add: lost_probe_joining progress_def)+
  assume n: "needed s = mover j (Turn a t)" "needed s \<noteq> Anyone"
  then have t: "needed s = The_task t" "\<not> (t = Update_rtt \<and> a = Not_yet)" by (simp_all split: if_splits)
  then obtain us where us: "ts = t # us" "tasks s t \<notin> {Waiting, Done}"
    using ts(1) by (auto simp: needed_def split: list.splits phase.splits)
  with c t(2) show "(join_rank j (task_turn a t s), join_rank j s) \<in> lex4"
    using set_phase_progress(3) [OF assms(1) ts(1), of _ t] ts(3) by cases (auto simp: lost_probe_joining)
qed

lemma main_turn_progress:
  assumes "joining on j s" "\<not> session_ends (main_turn on ok s)"
  shows "joining on j (main_turn on ok s)" "progress j s (main_turn on ok s)"
    "needed s = The_main \<Longrightarrow> (join_rank j (main_turn on ok s), join_rank j s) \<in> lex4"
proof -
  from assms obtain t ts where ts: "session s = Joining (t # ts)" "tasks s t \<noteq> Absent" "t \<notin> set ts"
    by (auto simp: joining_def main_turn_def session_ends_def split: list.splits)
  show j: "joining on j (main_turn on ok s)"
    using assms(1) ts by (auto simp: joining_def main_turn_def join_task_def set_phase_def split: phase.split)
  have *: "(join_rank j (main_turn on ok s), join_rank j s) \<in> lex4" if "tasks s t = Done"
  proof -
    have "sum_list (map (moves_left \<circ> (tasks s)(t := Absent)) ts) = sum_list (map (moves_left \<circ> tasks s) ts)"
      by (simp only: sum_moves_other [OF ts(3)])
    with that ts show ?thesis by (simp add: join_rank_def main_turn_def join_task_def set_phase_def lex4_def)
  qed
  have "main_turn on ok s = s" if "tasks s t \<noteq> Done"
    using that ts by (simp add: main_turn_def join_task_def split: phase.split)
  with * show "progress j s (main_turn on ok s)" by (cases "tasks s t = Done") (auto simp: progress_def)
  assume "needed s = The_main"
  with ts * show "(join_rank j (main_turn on ok s), join_rank j s) \<in> lex4"
    by (auto simp: needed_def split: phase.splits)
qed

lemma quiet_turns:
  assumes "joining on j s" "\<not> session_ends s'" "s' = serve_turn s \<or> s' = stop_turn s"
  shows "joining on j s'" "progress j s s'"
proof -
  have g: "gb_ptr s = Finished" "\<exists>ts. session s = Joining ts" using assms(1) by (auto simp: joining_def)
  then have "s' = s \<or> s' = s\<lparr>gb_ptr := Finished, serving := serving s - 1\<rparr>"
    using assms(3) by (auto simp: serve_turn_def stop_turn_def reading_gb_def)
  then show "joining on j s'" "progress j s s'"
    using assms(1) by (auto simp: joining_def progress_def join_rank_def needed_def split: list.split)
qed

lemma happens_joining:
  "joining on j s \<Longrightarrow> happens on e s = (case e of Main ok \<Rightarrow> main_turn on ok s | Turn a t \<Rightarrow> task_turn a t s
    | Tick k \<Rightarrow> ticker_turn on k s | Spurious t \<Rightarrow> signal t s | Serve \<Rightarrow> serve_turn s | Stop \<Rightarrow> stop_turn s | Request \<Rightarrow> s)"
  by (auto simp: joining_def happens_def split: event.split)

lemma happens_progress:
  assumes j: "joining on j s" and e: "\<not> session_ends (happens on e s)"
  shows "joining on j (happens on e s) \<and> progress j s (happens on e s)
    \<and> (mover j e = needed s \<longrightarrow> (join_rank j (happens on e s), join_rank j s) \<in> lex4)"
proof -
  have n: "needed s \<noteq> Anyone" by (auto simp: needed_def split: session.split list.split phase.split)
  from j obtain ts where ts: "session s = Joining ts" by (auto simp: joining_def)
  show ?thesis
  proof (cases e)
    case (Main ok)
    with main_turn_progress [OF j, of ok] e show ?thesis by (simp add: happens_joining [OF j] eq_commute [of The_main])
  next
    case (Turn a t)
    then have h: "happens on e s = task_turn a t s" by (simp add: happens_joining [OF j])
    with task_turn_progress [OF j, of a t] e n Turn show ?thesis unfolding h by metis
  next
    case (Tick k)
    with ticker_turn_progress [OF j] other_ticker_progress [OF j, of k] n show ?thesis
      by (cases "k = j") (auto simp: happens_joining [OF j])
  next
    case (Spurious t)
    with signal_progress [OF j ts, of t] n show ?thesis by (simp add: happens_joining [OF j])
  next
    case Serve
    with quiet_turns [OF j, of "serve_turn s"] e n show ?thesis by (simp add: happens_joining [OF j])
  next
    case Stop
    with quiet_turns [OF j, of "stop_turn s"] e n show ?thesis by (simp add: happens_joining [OF j])
  next
    case Request
    with j n show ?thesis by (simp add: happens_joining [OF j])
  qed
qed

lemma needed_is_there: "joining on j s \<Longrightarrow> needed s \<in> threads on"
  by (auto simp: joining_def needed_def threads_def split: list.split phase.split)

interpretation joins: response "happens on" "mover j" "threads on" "joining on j" session_ends "join_rank j" lex4 needed for on j
proof
  show "wf lex4" by (simp add: lex4_def wf_lex_prod)
qed (use happens_progress [where on = on and j = j] needed_is_there [where on = on and j = j] in \<open>auto simp: progress_def\<close>)

section \<open>From the start of the program\<close>

text \<open>The joins are taken in the order of the tasks.\<close>

definition in_order :: "(task \<Rightarrow> bool) \<Rightarrow> wake \<Rightarrow> bool" where
  "in_order on s \<longleftrightarrow> (\<forall>ts. session s = Joining ts \<longrightarrow> (\<exists>n. ts = drop n (measured on)))"

lemma happens_in_order: "in_order on s \<Longrightarrow> in_order on (happens on e s)"
proof (cases "\<exists>x. session s = Crashed x")
  case False
  assume i: "in_order on s"
  show ?thesis
  proof (cases e)
    case (Main ok)
    have "\<exists>k. ts = drop k (measured on)" if "t # ts = drop n (measured on)" for t ts n
      using that by (metis drop_Suc list.sel(3) tl_drop)
    moreover have "\<exists>n. measured on = drop n (measured on)" by (rule exI [of _ 0]) simp
    ultimately show ?thesis using Main i False
      by (auto simp: in_order_def happens_def main_turn_def create_def join_task_def crash_def set_phase_def
          split: session.splits list.splits phase.splits thread.splits if_splits)
  next
    case (Turn o' t)
    then show ?thesis using i False by (cases rule: task_turn_cases [of o' t s])
      (auto simp: in_order_def happens_def crash_def set_phase_def split: session.splits)
  next
    case Serve
    then show ?thesis using i False by (cases rule: serve_turn_cases [of s])
      (auto simp: in_order_def happens_def crash_def split: session.splits)
  next
    case Stop
    then show ?thesis using i False by (cases rule: stop_turn_cases [of s])
      (auto simp: in_order_def happens_def crash_def split: session.splits)
  qed (use i False in \<open>auto simp: in_order_def happens_def split: session.splits\<close>)
qed (auto simp: in_order_def happens_def)

interpretation sequence: machine "(=) no_session" "wake_step on" "in_order on" for on
  by unfold_locales (auto simp: wake_step_def happens_in_order, simp add: in_order_def no_session_def)

text \<open>C18: Once the request has set \<open>finish\<close> and \<open>gb_process\<close> is at its joins, in every schedule that gives each thread its turns,
  and however they alternate, the joins end and \<open>gb\<close> is freed, or the program ends because a log cannot be opened (exit 1) or because
  \<open>update_rtt\<close> closes a connection that it could not make (exit 3). Conditions: the tasks left to join were created; a ticker runs, and when
  \<open>update_rtt\<close> is compiled in it is the only one that does; and \<open>update_rtt\<close>, which looks for \<open>local_if\<close> without end, comes to find it (a
  look at an empty one is no turn in the sense of the schedule).\<close>

theorem joins_end:
  assumes "run_of (happens on) lab \<sigma>" and "\<sigma> 0 = no_session" and "fair_for (mover j) (threads on) lab"
    and "session (\<sigma> n) = Joining ts" and "gb_ptr (\<sigma> n) = Finished" and "\<forall>t \<in> set ts. tasks (\<sigma> n) t \<noteq> Absent"
    and "j < length (tickers (\<sigma> n))" and "tickers (\<sigma> n) ! j \<noteq> Tick_over"
    and "on Update_rtt \<longrightarrow> (\<forall>i < length (tickers (\<sigma> n)). i \<noteq> j \<longrightarrow> tickers (\<sigma> n) ! i = Tick_over)"
  shows "\<exists>m \<ge> n. session (\<sigma> m) \<in> {Closed, Crashed (Exit 1), Crashed (Exit 3)}"
proof -
  have r: "reach ((=) no_session) (wake_step on) (\<sigma> n)"
    using run_of_reach [OF assms(1,2), of n] by (simp add: wake_step_def [abs_def])
  from sequence.reach_inv [OF r] assms(4) obtain i where "ts = drop i (measured on)" by (auto simp: in_order_def)
  then have "set ts \<subseteq> set (measured on)" "distinct ts" by (auto simp: set_drop_subset measured_def dest: in_set_dropD)
  with assms(4-9) have "joining on j (\<sigma> n)" by (simp add: joining_def)
  from joins.reaches_goal [OF assms(1,3) this] show ?thesis by (simp add: session_ends_def)
qed

definition rtt_cycle :: "event list" where
  "rtt_cycle = [Request, Main True, Main True, Main True, Stop, Main True, Turn Fine Measure_rtt, Tick 0]"

lemma run_from_events: "run_from (happens on) lab s n = events on (map lab [0..<n]) s"
  by (induction n) simp_all

theorem joins_end_witness:
  "\<exists>m \<ge> 6. session (run_from (happens with_rtt) (\<lambda>n. rtt_cycle ! (n mod length rtt_cycle)) no_session m)
     \<in> {Closed, Crashed (Exit 1), Crashed (Exit 3)}"
proof -
  let ?lab = "\<lambda>n. rtt_cycle ! (n mod length rtt_cycle)"
  let ?s = "run_from (happens with_rtt) ?lab no_session"
  have f: "fair_for (mover 0) (threads with_rtt) ?lab"
    by (rule fair_cycle) (auto simp: rtt_cycle_def threads_def)
  have s6: "?s 6 = \<lparr>tasks = (\<lambda>_. Absent)(Measure_rtt := Opening), tickers = [Tick_test], counter = 0,
      session = Joining [Measure_rtt], gb_ptr = Finished, serving = 0, lost_probe = False\<rparr>"
    by (simp add: run_from_events upt_rec rtt_cycle_def no_session_def happens_def turn_defs)
  from joins_end [OF _ _ f, of ?s 6] show ?thesis unfolding s6 by simp
qed

text \<open>And when \<open>local_if\<close> stays empty it is waited for without end: setting \<open>finish\<close> does not help, and \<open>gb_process\<close> waits at its join.\<close>

definition looking :: "task list \<Rightarrow> wake \<Rightarrow> bool" where
  "looking ts s \<longleftrightarrow> session s = Joining (Update_rtt # ts) \<and> tasks s Update_rtt = Opening \<or> (\<exists>e. session s = Crashed e)"

lemma looking_stays:
  assumes "\<forall>a. e = Turn a Update_rtt \<longrightarrow> a = Not_yet" and "looking ts s"
  shows "looking ts (happens on e s)"
proof (cases "\<exists>x. session s = Crashed x")
  case False
  then have *: "session s = Joining (Update_rtt # ts)" "tasks s Update_rtt = Opening" using assms(2) by (auto simp: looking_def)
  show ?thesis
  proof (cases e)
    case (Turn a t)
    show ?thesis
    proof (cases "t = Update_rtt")
      case True
      then have "task_turn a t s = s \<or> (\<exists>e. task_turn a t s = crash e s)"
        using assms(1) Turn * by (auto simp: task_turn_def open_task_def reading_gb_def)
      then show ?thesis using * Turn assms(2) by (auto simp: looking_def happens_def crash_def)
    next
      case False
      then show ?thesis using * Turn by (cases rule: task_turn_cases [of a t s])
        (auto simp: looking_def happens_def crash_def set_phase_def)
    qed
  next
    case (Tick k)
    then show ?thesis using *
      by (auto simp: looking_def happens_def ticker_turn_def split: ticker.split list.split)
  next
    case Serve
    then show ?thesis using * by (cases rule: serve_turn_cases [of s]) (simp_all add: looking_def happens_def crash_def)
  next
    case Stop
    then show ?thesis using * by (cases rule: stop_turn_cases [of s]) (simp_all add: looking_def happens_def crash_def)
  qed (use * in \<open>simp_all add: looking_def happens_def main_turn_def join_task_def\<close>)
qed (use assms(2) in \<open>auto simp: looking_def happens_def\<close>)

theorem join_waits_for_local_if:
  assumes "session s = Joining (Update_rtt # ts)" and "tasks s Update_rtt = Opening"
    and "\<forall>a. Turn a Update_rtt \<in> set es \<longrightarrow> a = Not_yet"
  shows "session (events on es s) = Joining (Update_rtt # ts) \<or> (\<exists>e. session (events on es s) = Crashed e)"
proof -
  have "looking ts (events on es s)" using assms(3)
    by (induction es rule: rev_induct) (auto intro!: looking_stays, simp add: looking_def assms(1,2))
  then show ?thesis by (auto simp: looking_def)
qed

definition with_probes :: "task \<Rightarrow> bool" where "with_probes = (\<lambda>t. t = Update_rtt)"

definition no_address :: "event list" where
  "no_address = [Request, Main True, Main True, Main True, Turn Not_yet Update_rtt, Stop, Main True]"

theorem join_waits_for_local_if_witness:
  "session (events with_probes [Turn Not_yet Update_rtt, Tick 0, Main True, Turn Not_yet Update_rtt]
     (events with_probes no_address no_session)) \<in> {Joining [Update_rtt]} \<union> range Crashed"
proof -
  have s: "session (events with_probes no_address no_session) = Joining [Update_rtt]"
    "tasks (events with_probes no_address no_session) Update_rtt = Opening"
    by (simp_all add: no_address_def with_probes_def creations_def measured_def no_session_def happens_def turn_defs)
  from join_waits_for_local_if [OF s, of "[Turn Not_yet Update_rtt, Tick 0, Main True, Turn Not_yet Update_rtt]" with_probes]
  show ?thesis by auto
qed

end
