(* ===== verification/Spec2Isabelle.thy ===== *)
theory Spec2Isabelle
  imports Layout_Theorems Scheduling_Theorems Protocol_Theorems Run_Theorems
    Proxy_Theorems Session_Theorems Options_Theorems Sockets_Theorems Monitor_Theorems
    Heap_Theorems Display_Theorems Probe_Theorems Serving_Theorems Join_Theorems
begin

text \<open>
  GreenBag, a video downloader that fetches one file over two network links at once (LTE and
  WiFi), modelled from its C sources.

  The program. \<open>gb_process\<close> (\<^verbatim>\<open>gbsession.c\<close>) reads the configuration files (\<^verbatim>\<open>conf.c\<close>) and the options, asks
  the server for the size of the file (\<open>gb_new\<close>), cuts the first segment and opens the output
  (\<open>gb_open\<close>), starts a thread per link (\<open>gb_start\<close>) and then calls \<open>algo_general\<close> (\<^verbatim>\<open>algo_general.c\<close>) until the file is complete. The file
  is cut into segments (\<^verbatim>\<open>gb.c\<close>), each segment is divided into one subsegment per link in
  proportion to the measured goodputs (\<^verbatim>\<open>offset.c\<close>), and each subsegment is a list of chunks, one
  HTTP range request each (\<^verbatim>\<open>http.c\<close>, \<^verbatim>\<open>conn.c\<close>). When a link has nearly finished its subsegment the
  next segment is cut and requested in advance. If the player would wait for bytes assigned to
  the slower link, the faster one takes them over (\<^verbatim>\<open>recovery.c\<close>). With the energy-saving option
  the scheduler may hand whole segments to one link (\<^verbatim>\<open>energy.c\<close>).

  The model. \<open>Prelude\<close> has the errors (\<open>err\<close>: every way a C run can die), results and C
  arithmetic; \<open>Dbl\<close> C's double with infinities and not-a-number, finite values exact; \<open>Types\<close> the
  structs as records, the state \<open>proc\<close> of the process (\<open>gb_t\<close>, the output file, what each socket
  still has to deliver, the requests sent, the static variables) and the environment \<open>env\<close> that
  answers for the clock, the player, the network and the file system. Pointers to segments are
  their ids, a stale one is \<open>UseAfterFree\<close>; lists with one owner are lists.

  \<^item> \<open>Chunks\<close>, \<open>Segments\<close>, \<open>Subseg\<close>, \<open>Position\<close>: \<^verbatim>\<open>offset.c\<close>, and the in-order offset of \<^verbatim>\<open>gb.c\<close>.
  \<^item> \<open>Player\<close>: \<^verbatim>\<open>player_time.c\<close>. \<open>Energy\<close>: \<^verbatim>\<open>energy.c\<close>. \<open>Sizing\<close>: the cutting and the goodput
    estimates of \<^verbatim>\<open>gb.c\<close>.
  \<^item> \<open>Text\<close>, \<open>Url\<close>, \<open>Http\<close>: \<^verbatim>\<open>http.c\<close>, \<^verbatim>\<open>conn.c\<close> and the requests and responses of \<^verbatim>\<open>gb.c\<close>.
  \<^item> \<open>Recovery\<close>: \<^verbatim>\<open>recovery.c\<close>. \<open>Download\<close>: \<^verbatim>\<open>algo_general.c\<close>, the handlers of \<^verbatim>\<open>gb.c\<close> it calls, and the
    loop of \<open>gb_process\<close> as the step relation \<open>run_step\<close> and as \<open>run_loop\<close> with a bound on its turns.
  \<^item> \<open>Proxy\<close>: \<^verbatim>\<open>ahttpd.c\<close>, the HTTP server on the same machine that the player talks to, and the string
    functions of \<^verbatim>\<open>util.c\<close>. A thread of its own runs the download, so its loop reads
    \<open>last_downloaded_byte\<close> afresh at each use.
  \<^item> \<open>Names\<close>: the names of log files, the bit-rate dictionary and the interfaces of \<^verbatim>\<open>util.c\<close>. \<open>Options\<close>: \<^verbatim>\<open>conf.c\<close>
    and \<open>parse_args\<close>, with \<open>getopt_long\<close> and the conversions of \<open>sscanf\<close>. \<open>Session\<close>: \<open>gb_new\<close>, \<open>gb_open\<close>, \<open>gb_start\<close>,
    \<open>gb_close\<close> and \<open>gb_process\<close>; the record \<open>sys\<close> answers for the files, the addresses and the descriptors.
  \<^item> \<open>Sockets\<close>: \<open>tcp_connect\<close> and the wrappers of \<^verbatim>\<open>util.c\<close>, the frame counter, and the start, the options and the
    threads of the server in \<^verbatim>\<open>ahttpd.c\<close>. The rest of the model takes the result of \<open>tcp_connect\<close> and of
    \<open>get_num_vframe_decoded\<close> from \<open>env\<close>.
  \<^item> \<open>Monitor\<close>: the threads of \<^verbatim>\<open>periodic_tasks.c\<close> that measure the playback and the goodput, and the file by which the
    player's position is shared. \<open>Probes\<close>: its probe connections, and the questions to the kernel about interfaces.
  \<^item> \<open>Wakeups\<close>: the threads of \<^verbatim>\<open>periodic_tasks.c\<close> as they wait for and signal each other, with the joins of \<open>gb_process\<close> and the
    request that reads \<open>gb\<close>, as moves on one state; which of them are compiled in is a parameter. A move has the
    answer of the system, among them the \<open>local_if\<close> that \<open>update_rtt\<close> waits for and its connections that cannot be made; there may be several
    signalling threads. A new request during a
    session, and a session that \<open>gb_new\<close> refuses, are not among the moves.
  \<^item> \<open>Chunk_Heap\<close>: the lists of chunks of \<^verbatim>\<open>offset.c\<close> once more, as \<open>next\<close> pointers in a heap with allocation and
    \<open>free\<close>; \<open>Chunk_Heap_Laws\<close> has the locale \<open>list_op\<close> of an operation on one list that leaves the others alone, interpreted
    for adding, deleting and sorting.
  \<^item> \<open>Display\<close>: what the session prints, and the file of parameters of \<^verbatim>\<open>log_params.c\<close>, as functions to text.
  \<^item> \<open>Serving\<close>: the thread of the download and a request served while it runs.
  \<^item> \<open>Machine\<close>: state machines and the locales under which an invariant holds in every reachable
    state, a quantity never falls, or the number of active steps is bounded; \<open>Energy_Laws\<close> interprets them
    for the radio, \<open>Start_Laws\<close>, \<open>Progress_Laws\<close> and \<open>Session_Laws\<close> for the download loop, \<open>Sockets_Theorems\<close> for the threads of
    the server, \<open>Wakeup_Theorems\<close> and \<open>Join_Theorems\<close> for the monitoring threads. \<open>Fairness\<close> has infinite runs in which each thread gets its
    turns, and the locale \<open>response\<close> by which such a run reaches its goal; \<open>Join_Theorems\<close> interprets it. The locale \<open>codec\<close> of \<open>Prelude\<close> is the interface of a printer and its reader; \<open>Text\<close> interprets it
    for decimal numbers and URL escapes, \<open>Http_Laws\<close> for ranges.

  What is shown. \<open>Layout_Theorems\<close>: the sort, the segment list, the division of a segment, the
  in-order offset. \<open>Scheduling_Theorems\<close>: the radio, the ranking and choice of link modes, the
  moving average, the next segment. \<open>Protocol_Theorems\<close>: the round trips of URLs, escapes, base64
  and ranges, the text of a request, the header reader, the buffers. \<open>Run_Theorems\<close>: whole
  downloads. \<open>Frames\<close> and \<open>Steady\<close> show what each operation leaves alone; \<open>Accounting\<close> states the
  balance, that every byte up to \<open>last_seg_offset\<close> is either in the output file or left to do for
  exactly one connection; \<open>Balance\<close> (the end of a chunk), \<open>Handout\<close> (a new segment),
  \<open>Recovery_Laws\<close>, \<open>Turn_Laws\<close> (requests, receiving) and \<open>Run_Laws\<close> (a turn) show operation by
  operation that it is kept, and \<open>Start_Laws\<close> that the first segment sets it up. So it holds in
  every state of a run; when the loop has counted as many bytes as the file has, the file
  is complete. The condition on a run is that the shares that a turn hands out are not negative (\<open>paced_step\<close>). With configured
  shares (\<open>fixed_subsegment_mode\<close>) it always holds; the measured ones of the default mode can break it, when a goodput does not
  fit \<open>int\<close> or the clock goes back. A write that takes less than a block loses bytes, and the invariant \<open>intact\<close> of \<open>Run_Laws\<close> then says that
  the loop has given up. \<open>Accounting\<close> keeps the chunks of each subsegment in ascending order as well, which the in-order offset needs.
  \<open>Recovery_Laws\<close> names the contents of the segment that a recovery makes. \<open>Progress_Laws\<close> shows that the count of received bytes
  never falls and grows in every turn in which data is waiting: so there are at most as many such turns as
  the file has bytes, and one, and the bound \<open>g_size + 1\<close> on the turns of \<open>run_loop\<close> is enough while
  data keeps arriving. \<open>Session_Laws\<close> shows that a session sets up the conditions of all this, so \<open>Session_Theorems\<close>
  has the completeness of the file for whole sessions, next to the ways a session fails; \<open>Options_Theorems\<close> has
  the reading of the command line and the configuration files and the ranges of the configuration.
  \<open>Prefix_Laws\<close>: while both connections work everything below the in-order offset is written; and the proxy, whose loop reads
  \<open>last_downloaded_byte\<close> up to four times in a round (\<open>mark_grows\<close>: it does not fall meanwhile), sends each byte once, in order and only below that mark
  (\<open>full_send\<close>: no \<open>send\<close> is short). \<open>Proxy_Theorems\<close> has the properties of the proxy.

  \<open>Sockets_Theorems\<close> has the descriptors that \<open>tcp_connect\<close> opens and closes and the race for the accepted
  socket, \<open>Monitor_Theorems\<close> the playback position and interruption that are reported when the loop of \<open>log_fps\<close> has ended. \<open>Heap_Theorems\<close>: sorting in place and
  dividing a segment in memory refine \<open>sorting_chunks\<close> and \<open>divide_chunks\<close>, no node is lost or freed twice, and the lists of
  other segments stay as they are. \<open>Serving_Theorems\<close>: what the player receives before it stops is a part of the
  file, and the download then ends and its file is removed. \<open>Probe_Theorems\<close>: a connection of a probe that fails ends the
  program or loses a descriptor; \<open>Wakeup_Theorems\<close> and \<open>Join_Theorems\<close>: with a monitoring
  thread compiled in \<open>gb\<close> is freed after its last use, and under a fair schedule it is freed or the program ends; as configured it is not
  safe, signalling threads pile up, and without one, or without a \<open>local_if\<close> for \<open>update_rtt\<close>, a join never ends. \<open>Display_Theorems\<close>: what is shown of times and
  progress, and where a stale pointer is printed.

  Not modelled. \<open>print_help\<close>, a fixed text. The log files of a download, \<open>open_log_recovery\<close> among them, which this
  configuration switches off, and \<open>get_log_filename_prefix_args\<close>, which nothing calls. The branches for
  Android. Descriptors are taken to be below \<open>FD_SETSIZE\<close>. Rounding of doubles is not modelled, and sums of byte
  offsets are taken to fit \<open>long long\<close>.
\<close>

end
